(* ===== verification/Prelude.thy ===== *)
theory Prelude
  imports Main "HOL-Library.Word"
begin

text \<open>
  Shared vocabulary of the development: the machine integers of the kernel
  (\<^verbatim>\<open>uint8_t\<close> to \<^verbatim>\<open>uint64_t\<close> as words, so that every addition wraps as it does
  in C), byte-addressed memory with little-endian loads and stores, the byte
  loops of the source (\<^verbatim>\<open>memset\<close>, \<^verbatim>\<open>memcpy\<close> written as \<^verbatim>\<open>for\<close> loops in several
  files), page arithmetic, and the error numbers of \<^verbatim>\<open>kernel/syscall_table.h\<close>.
  The generic lemmas are collected in \<open>kmem_simps\<close> (memory) and \<open>frame_simps\<close>
  (what an operation leaves unchanged), which the component proofs use.
\<close>

unbundle bit_operations_syntax

named_theorems kmem_simps
named_theorems frame_simps

section \<open>Machine integers and memory\<close>

type_synonym u8 = "8 word"
type_synonym u16 = "16 word"
type_synonym u32 = "32 word"
type_synonym u64 = "64 word"
type_synonym bytes = "u64 \<Rightarrow> u8"

text \<open>A load or store of \<open>n\<close> bytes, least significant byte first.\<close>

fun load_le :: "bytes \<Rightarrow> u64 \<Rightarrow> nat \<Rightarrow> 'a::len word" where
  "load_le m a 0 = 0"
| "load_le m a (Suc n) = ucast (m a) OR push_bit 8 (load_le m (a + 1) n)"

fun store_le :: "bytes \<Rightarrow> u64 \<Rightarrow> 'a::len word \<Rightarrow> nat \<Rightarrow> bytes" where
  "store_le m a v 0 = m"
| "store_le m a v (Suc n) = (store_le m (a + 1) (drop_bit 8 v) n)(a := ucast v)"

definition load64 :: "bytes \<Rightarrow> u64 \<Rightarrow> u64" where
  "load64 m a = load_le m a 8"

definition store64 :: "bytes \<Rightarrow> u64 \<Rightarrow> u64 \<Rightarrow> bytes" where
  "store64 m a v = store_le m a v 8"

text \<open>The byte loops \<^verbatim>\<open>for (i = 0; i < n; i++) d[i] = \<dots>\<close>.\<close>

definition memset :: "bytes \<Rightarrow> u64 \<Rightarrow> u8 \<Rightarrow> u64 \<Rightarrow> bytes" where
  "memset m d v n = fold (\<lambda>i m. m(d + of_nat i := v)) [0..<unat n] m"

definition memcpy :: "bytes \<Rightarrow> u64 \<Rightarrow> u64 \<Rightarrow> u64 \<Rightarrow> bytes" where
  "memcpy m d s n = fold (\<lambda>i m. m(d + of_nat i := m (s + of_nat i))) [0..<unat n] m"

section \<open>Offsets from a base address\<close>

lemma unat_u64_less [simp]: "unat (a :: u64) < 18446744073709551616"
  using unsigned_less[of a, where 'a = nat] by simp

lemma unat_u64_lt: "unat (a :: u64) < 2 ^ 64"
  by simp

lemma u64_offset_inj:
  fixes a :: u64
  assumes "a + of_nat i = a + of_nat j" "i < 2 ^ 64" "j < 2 ^ 64"
  shows "i = j"
proof -
  have "(of_nat i :: u64) = of_nat j" using assms(1) by simp
  then have "unat (of_nat i :: u64) = unat (of_nat j :: u64)" by simp
  then show ?thesis using assms(2,3) by (simp add: unat_of_nat)
qed

lemma u64_eq_offset:
  fixes x d :: u64
  assumes "n < 2 ^ 64"
  shows "x = d + of_nat n \<longleftrightarrow> unat (x - d) = n"
proof
  assume "x = d + of_nat n"
  then show "unat (x - d) = n" using assms by (simp add: unat_of_nat)
next
  assume "unat (x - d) = n"
  moreover have "x - d = of_nat (unat (x - d))" by simp
  ultimately have "x - d = of_nat n" by simp
  then show "x = d + of_nat n" by (simp add: algebra_simps)
qed

lemma u64_offset_iff:
  fixes x a :: u64
  shows "unat (x - a) < n \<longleftrightarrow> (\<exists>i < n. i < 2 ^ 64 \<and> x = a + of_nat i)"
proof
  assume "unat (x - a) < n"
  moreover have "x = a + of_nat (unat (x - a))" by simp
  moreover have "unat (x - a) < 2 ^ 64" using unat_u64_less[of "x - a"] by simp
  ultimately show "\<exists>i < n. i < 2 ^ 64 \<and> x = a + of_nat i" by blast
next
  assume "\<exists>i < n. i < 2 ^ 64 \<and> x = a + of_nat i"
  then obtain i where "i < n" "i < 2 ^ 64" "x = a + of_nat i" by blast
  then show "unat (x - a) < n" by (simp add: unat_of_nat)
qed

lemma unat_plus_offset:
  fixes a :: u64
  assumes "unat a + n < 2 ^ 64"
  shows "unat (a + of_nat n) = unat a + n"
  using assms by (simp add: unat_word_ariths unat_of_nat)

lemma unat_suc_less:
  fixes i n :: u64
  assumes "i < n"
  shows "unat (i + 1) = Suc (unat i)"
proof -
  have "Suc (unat i) < 2 ^ 64"
    using assms unat_u64_lt[of n] unfolding word_less_nat_alt by linarith
  then show ?thesis by (simp add: unat_word_ariths)
qed

section \<open>Loads and stores\<close>

lemma store_le_other:
  "(\<And>i. i < n \<Longrightarrow> x \<noteq> a + of_nat i) \<Longrightarrow> store_le m a v n x = m x"
proof (induction n arbitrary: a v)
  case (Suc n)
  have "x \<noteq> a" using Suc.prems[of 0] by simp
  moreover have "x \<noteq> (a + 1) + of_nat i" if "i < n" for i
    using Suc.prems[of "Suc i"] that by (simp add: algebra_simps)
  ultimately show ?case using Suc.IH[of "a + 1"] by simp
qed simp

lemma load_le_cong:
  "(\<And>j. j < n \<Longrightarrow> m (a + of_nat j) = m' (a + of_nat j)) \<Longrightarrow> load_le m a n = load_le m' a n"
proof (induction n arbitrary: a)
  case (Suc n)
  have "m a = m' a" using Suc.prems[of 0] by simp
  moreover have "m ((a + 1) + of_nat j) = m' ((a + 1) + of_nat j)" if "j < n" for j
    using Suc.prems[of "Suc j"] that by (simp add: algebra_simps)
  ultimately show ?case using Suc.IH[of "a + 1"] by simp
qed simp

lemma load_le_store_le_same:
  assumes "n < 2 ^ 64"
  shows "load_le (store_le m a v n) a n = take_bit (8 * n) v"
  using assms
proof (induction n arbitrary: a v)
  case (Suc n)
  let ?m = "store_le m (a + 1) (drop_bit 8 v) n"
  have "load_le (?m(a := ucast v)) (a + 1) n = load_le ?m (a + 1) n"
  proof (rule load_le_cong)
    fix j assume j: "j < n"
    have "a + of_nat (Suc j) \<noteq> a + of_nat 0"
      using u64_offset_inj[of a "Suc j" 0] Suc.prems j by auto
    then show "(?m(a := ucast v)) (a + 1 + of_nat j) = ?m (a + 1 + of_nat j)"
      by (simp add: algebra_simps)
  qed
  also have "\<dots> = take_bit (8 * n) (drop_bit 8 v)"
    using Suc by simp
  finally have *: "load_le (?m(a := ucast v)) (a + 1) n = take_bit (8 * n) (drop_bit 8 v)" .
  have "ucast (ucast v :: u8) OR push_bit 8 (take_bit (8 * n) (drop_bit 8 v)) = take_bit (8 * Suc n) v"
    by (rule bit_word_eqI) (auto simp: bit_simps)
  then show ?case using * by (simp only: load_le.simps store_le.simps fun_upd_same)
qed simp

lemma load_le_store_le_other:
  assumes "\<And>i j. i < n \<Longrightarrow> j < k \<Longrightarrow> b + of_nat j \<noteq> a + of_nat i"
  shows "load_le (store_le m a v n) b k = load_le m b k"
  by (rule load_le_cong) (simp add: store_le_other assms)

lemma load64_store64_same [simp, kmem_simps]: "load64 (store64 m a v) a = v"
  by (simp add: load64_def store64_def load_le_store_le_same take_bit_word_eq_self)

text \<open>Two different quadword-aligned addresses name disjoint quadwords.\<close>

lemma aligned8_iff: "a AND 7 = 0 \<longleftrightarrow> 8 dvd unat (a :: u64)"
proof -
  have "a AND 7 = take_bit 3 a" by (simp add: take_bit_eq_mask mask_eq_exp_minus_1)
  moreover have "take_bit 3 a = 0 \<longleftrightarrow> unat (take_bit 3 a) = 0" by (simp only: unat_eq_zero)
  moreover have "unat (take_bit 3 a) = unat a mod 8"
    by (simp add: take_bit_eq_mod unat_mod)
  ultimately show ?thesis by (simp add: dvd_eq_mod_eq_0)
qed

lemma aligned8_offset:
  fixes a :: u64
  assumes "a AND 7 = 0" "i < 8"
  shows "unat (a + of_nat i) = unat a + i"
proof -
  obtain k where k: "unat a = 8 * k" using assms(1) by (auto simp: aligned8_iff)
  have "unat a < 2 ^ 64" using unat_u64_less[of a] by simp
  then have "k < 2 ^ 61" using k by simp
  then have "8 * k + i < 2 ^ 64" using assms(2) by simp
  then show ?thesis using k by (simp add: unat_plus_offset)
qed

lemma aligned8_disjoint:
  fixes a b :: u64
  assumes "a AND 7 = 0" "b AND 7 = 0" "a \<noteq> b" "i < 8" "j < 8"
  shows "b + of_nat j \<noteq> a + of_nat i"
proof
  assume "b + of_nat j = a + of_nat i"
  then have eq: "unat b + j = unat a + i"
    using aligned8_offset[OF assms(2,5)] aligned8_offset[OF assms(1,4)] by simp
  obtain k l where kl: "unat a = 8 * k" "unat b = 8 * l" using assms(1,2) by (auto simp: aligned8_iff elim!: dvdE)
  with eq assms(4,5) have "k = l" by presburger
  then have "unat a = unat b" using kl by simp
  then show False using assms(3) by (simp only: word_unat_eq_iff)
qed

lemma load64_store64_other [kmem_simps]:
  assumes "a AND 7 = 0" "b AND 7 = 0" "a \<noteq> b"
  shows "load64 (store64 m a v) b = load64 m b"
  unfolding load64_def store64_def
  by (rule load_le_store_le_other) (use aligned8_disjoint[OF assms] in auto)

section \<open>Byte loops in closed form\<close>

lemma fold_set_apply:
  fixes d :: u64
  assumes "n < 2 ^ 64"
  shows "fold (\<lambda>i m. m(d + of_nat i := v)) [0..<n] m x = (if unat (x - d) < n then v else m x)"
    (is "?f n x = _")
  using assms
proof (induction n)
  case (Suc n)
  have "?f (Suc n) x = (if x = d + of_nat n then v else ?f n x)" by simp
  moreover have "x = d + of_nat n \<longleftrightarrow> unat (x - d) = n"
    by (rule u64_eq_offset) (use Suc.prems in simp)
  ultimately show ?case using Suc by auto
qed simp

lemma memset_apply [kmem_simps]:
  "memset m d v n x = (if x - d < n then v else m x)"
  by (simp add: memset_def fold_set_apply word_less_nat_alt)

lemma memset_code [code]: "memset m d v n = (\<lambda>x. if x - d < n then v else m x)"
  by (simp add: fun_eq_iff memset_apply)

text \<open>Source and destination of a copy do not overlap.\<close>

definition ranges_apart :: "u64 \<Rightarrow> u64 \<Rightarrow> u64 \<Rightarrow> bool" where
  "ranges_apart d s n \<longleftrightarrow> n \<le> s - d \<and> n \<le> d - s"

lemma ranges_apart_neq:
  assumes "ranges_apart d s n" "i < unat n" "j < unat n"
  shows "s + of_nat j \<noteq> d + of_nat i"
proof
  assume eq: "s + of_nat j = d + of_nat i"
  have n: "unat n \<le> unat (s - d)" "unat n \<le> unat (d - s)" "i < 2 ^ 64" "j < 2 ^ 64"
    using assms unat_u64_lt[of n] unfolding ranges_apart_def word_le_nat_alt by linarith+
  show False
  proof (cases "j \<le> i")
    case True
    then have "s - d = of_nat (i - j)" using eq by (simp add: algebra_simps)
    then have "unat (s - d) = i - j" using n(3) by (simp add: unat_of_nat)
    then show False using n(1) assms(2) by simp
  next
    case False
    then have "d - s = of_nat (j - i)" using eq by (simp add: algebra_simps)
    then have "unat (d - s) = j - i" using n(4) by (simp add: unat_of_nat)
    then show False using n(2) assms(3) by simp
  qed
qed

lemma fold_copy_apply:
  assumes apart: "ranges_apart d s n" and "k \<le> unat n"
  shows "fold (\<lambda>i m. m(d + of_nat i := m (s + of_nat i))) [0..<k] m x =
    (if unat (x - d) < k then m (s + (x - d)) else m x)" (is "?f k x = _")
  using assms(2)
proof (induction k arbitrary: x)
  case (Suc k)
  have k64: "k < 2 ^ 64" using Suc.prems unat_u64_lt[of n] by linarith
  have step: "?f (Suc k) x = (if x = d + of_nat k then ?f k (s + of_nat k) else ?f k x)" by simp
  have "\<not> unat (s + of_nat k - d) < k"
    using ranges_apart_neq[OF apart, of _ k] Suc.prems by (auto simp: u64_offset_iff)
  then have src: "?f k (s + of_nat k) = m (s + of_nat k)" using Suc by simp
  have pos: "x = d + of_nat k \<longleftrightarrow> unat (x - d) = k"
    using k64 by (rule u64_eq_offset)
  show ?case
  proof (cases "x = d + of_nat k")
    case True
    then have "unat (x - d) = k" "x - d = of_nat k" using pos by (auto simp: algebra_simps)
    then show ?thesis using step src True by simp
  next
    case False
    then have "unat (x - d) < Suc k \<longleftrightarrow> unat (x - d) < k" using pos by auto
    then show ?thesis using step False Suc by simp
  qed
qed simp

lemma memcpy_apply [kmem_simps]:
  assumes "ranges_apart d s n"
  shows "memcpy m d s n x = (if x - d < n then m (s + (x - d)) else m x)"
  by (simp add: memcpy_def fold_copy_apply[OF assms order.refl] word_less_nat_alt)

lemma memcpy_code [code]:
  "memcpy m d s n =
    (if ranges_apart d s n then (\<lambda>x. if x - d < n then m (s + (x - d)) else m x)
     else fold (\<lambda>i m. m(d + of_nat i := m (s + of_nat i))) [0..<unat n] m)"
  by (auto simp: memcpy_apply fun_eq_iff) (simp add: memcpy_def)

section \<open>Counted loops\<close>

text \<open>
  \<^verbatim>\<open>for (uint64_t p = 0; p < n; p++) body\<close>: the counter never wraps, because it
  stays below \<open>n\<close>.
\<close>

definition for_u64 :: "u64 \<Rightarrow> (u64 \<Rightarrow> 's \<Rightarrow> 's) \<Rightarrow> 's \<Rightarrow> 's" where
  "for_u64 n f s = fold (\<lambda>i. f (of_nat i)) [0..<unat n] s"

lemma fold_upt_invariant:
  assumes "P 0 s" "\<And>i s. i < n \<Longrightarrow> P i s \<Longrightarrow> P (Suc i) (f i s)"
  shows "P n (fold f [0..<n] s)"
  using assms
proof (induction n)
  case (Suc n)
  have "P n (fold f [0..<n] s)" using Suc by simp
  then show ?case using Suc.prems(2)[of n] by simp
qed simp

lemma for_u64_invariant:
  assumes "P 0 s" "\<And>i s. i < unat n \<Longrightarrow> P i s \<Longrightarrow> P (Suc i) (f (of_nat i) s)"
  shows "P (unat n) (for_u64 n f s)"
  unfolding for_u64_def by (rule fold_upt_invariant[where P = P]) (use assms in auto)

section \<open>Pages\<close>

definition PAGE_SIZE :: u64 where
  "PAGE_SIZE = 4096"

lemma PAGE_SIZE_unat [simp]: "unat PAGE_SIZE = 4096"
  by (simp add: PAGE_SIZE_def)

text \<open>\<^verbatim>\<open>a & (PAGE_SIZE - 1)\<close> is the offset of \<open>a\<close> in its page.\<close>

lemma page_offset_unat: "unat (a AND (PAGE_SIZE - 1)) = unat a mod 4096"
proof -
  have "a AND (PAGE_SIZE - 1) = take_bit 12 a"
    by (simp add: PAGE_SIZE_def take_bit_eq_mask mask_eq_exp_minus_1)
  then show ?thesis by (simp add: take_bit_eq_mod unat_mod)
qed

lemma page_aligned_iff: "a AND (PAGE_SIZE - 1) = 0 \<longleftrightarrow> 4096 dvd unat a"
  using page_offset_unat[of a] by (metis dvd_eq_mod_eq_0 unat_eq_zero)

section \<open>Error numbers\<close>

datatype errno = EPERM | ENOENT | ESRCH | EINTR | EIO | ENXIO | E2BIG | ENOEXEC | EBADF
  | ECHILD | EAGAIN | ENOMEM | EACCES | EFAULT | EBUSY | EEXIST | ENODEV | ENOTDIR
  | EISDIR | EINVAL | ENFILE | EMFILE | ENOTTY | EFBIG | ENOSPC | ESPIPE | EROFS
  | EPIPE | ERANGE | ENAMETOOLONG | ENOSYS | ENOTEMPTY

fun errno_code :: "errno \<Rightarrow> int" where
  "errno_code EPERM = 1" | "errno_code ENOENT = 2" | "errno_code ESRCH = 3"
| "errno_code EINTR = 4" | "errno_code EIO = 5" | "errno_code ENXIO = 6"
| "errno_code E2BIG = 7" | "errno_code ENOEXEC = 8" | "errno_code EBADF = 9"
| "errno_code ECHILD = 10" | "errno_code EAGAIN = 11" | "errno_code ENOMEM = 12"
| "errno_code EACCES = 13" | "errno_code EFAULT = 14" | "errno_code EBUSY = 16"
| "errno_code EEXIST = 17" | "errno_code ENODEV = 19" | "errno_code ENOTDIR = 20"
| "errno_code EISDIR = 21" | "errno_code EINVAL = 22" | "errno_code ENFILE = 23"
| "errno_code EMFILE = 24" | "errno_code ENOTTY = 25" | "errno_code EFBIG = 27"
| "errno_code ENOSPC = 28" | "errno_code ESPIPE = 29" | "errno_code EROFS = 30"
| "errno_code EPIPE = 32" | "errno_code ERANGE = 34" | "errno_code ENAMETOOLONG = 36"
| "errno_code ENOSYS = 38" | "errno_code ENOTEMPTY = 39"

text \<open>The value a C function returns for \<^verbatim>\<open>return -E\<dots>\<close>.\<close>

definition err :: "errno \<Rightarrow> int" where
  "err e = - errno_code e"

lemma err_negative: "err e < 0"
  by (cases e) (simp_all add: err_def)

end
