(* ===== verification/Pmm.thy ===== *)
theory Pmm
  imports Prelude
begin

text \<open>
  The physical memory manager, \<^verbatim>\<open>mm/pmm.c\<close>: a bitmap with one bit per 4 KiB
  page frame (1 = used), scanned from frame 1 upwards.

  The state record begins here and is extended by the components above
  (page reference counts, page tables, heap, \<dots>): every operation takes and
  returns a state of the polymorphic scheme type, so it applies unchanged to
  the extended states. \<open>mem\<close> is physical memory, which the kernel reads and
  writes through the direct map (\<^verbatim>\<open>phys_to_virt\<close>); the bitmap, which
  \<^verbatim>\<open>pmm_init\<close> places in pages it then reserves, is a byte store of its own.

  The abstraction is the set \<open>free_frames\<close> of frames whose bit is clear; the
  locale \<open>page_allocator\<close> states what clients of the allocator rely on and is
  interpreted on \<open>pmm_alloc\<close> and \<open>pmm_free\<close>.
\<close>

section \<open>State and operations\<close>

record memmap_entry =
  entry_base :: u64
  entry_length :: u64
  entry_type :: u64

definition LIMINE_MEMMAP_USABLE :: u64 where
  "LIMINE_MEMMAP_USABLE = 0"

record pmm_state =
  mem :: bytes
  g_hhdm_offset :: u64
  bitmap :: bytes
  bitmap_size :: u64
  total_pages :: u64
  free_pages :: u64
  usable_pages :: u64

definition PMM_ALLOC_FAILED :: u64 where
  "PMM_ALLOC_FAILED = 0"

definition phys_to_virt :: "'a pmm_state_scheme \<Rightarrow> u64 \<Rightarrow> u64" where
  "phys_to_virt s phys = phys + g_hhdm_offset s"

definition virt_to_phys :: "'a pmm_state_scheme \<Rightarrow> u64 \<Rightarrow> u64" where
  "virt_to_phys s virt = virt - g_hhdm_offset s"

definition bitmap_mark_used :: "bytes \<Rightarrow> u64 \<Rightarrow> bytes" where
  "bitmap_mark_used bm i = bm(i div 8 := bm (i div 8) OR push_bit (unat (i mod 8)) 1)"

definition bitmap_mark_free :: "bytes \<Rightarrow> u64 \<Rightarrow> bytes" where
  "bitmap_mark_free bm i = bm(i div 8 := bm (i div 8) AND NOT (push_bit (unat (i mod 8)) 1))"

definition bitmap_is_used :: "bytes \<Rightarrow> u64 \<Rightarrow> bool" where
  "bitmap_is_used bm i \<longleftrightarrow> bm (i div 8) AND push_bit (unat (i mod 8)) 1 \<noteq> 0"

text \<open>The scan of \<^verbatim>\<open>pmm_alloc\<close>: the first free frame from \<open>i\<close> on.\<close>

function pmm_scan :: "bytes \<Rightarrow> u64 \<Rightarrow> u64 \<Rightarrow> u64 option" where
  "pmm_scan bm i n =
     (if i < n then (if \<not> bitmap_is_used bm i then Some i else pmm_scan bm (i + 1) n) else None)"
  by pat_completeness auto
termination
  by (relation "measure (\<lambda>(bm, i, n). unat n - unat i)")
    (auto simp: unat_suc_less, simp add: word_less_nat_alt)

declare pmm_scan.simps [simp del]

definition pmm_alloc :: "'a pmm_state_scheme \<Rightarrow> u64 \<times> 'a pmm_state_scheme" where
  "pmm_alloc s =
     (case pmm_scan (bitmap s) 1 (total_pages s) of
        Some i \<Rightarrow> (i * PAGE_SIZE,
          s\<lparr>bitmap := bitmap_mark_used (bitmap s) i, free_pages := free_pages s - 1\<rparr>)
      | None \<Rightarrow> (PMM_ALLOC_FAILED, s))"

definition pmm_free :: "u64 \<Rightarrow> 'a pmm_state_scheme \<Rightarrow> 'a pmm_state_scheme" where
  "pmm_free phys_addr s =
     (if phys_addr AND (PAGE_SIZE - 1) \<noteq> 0 then s
      else let page_index = phys_addr div PAGE_SIZE in
        if page_index \<ge> total_pages s then s
        else if \<not> bitmap_is_used (bitmap s) page_index then s
        else s\<lparr>bitmap := bitmap_mark_free (bitmap s) page_index, free_pages := free_pages s + 1\<rparr>)"

definition pmm_get_free_pages :: "'a pmm_state_scheme \<Rightarrow> u64" where
  "pmm_get_free_pages s = free_pages s"

definition pmm_get_total_pages :: "'a pmm_state_scheme \<Rightarrow> u64" where
  "pmm_get_total_pages s = total_pages s"

definition pmm_get_usable_pages :: "'a pmm_state_scheme \<Rightarrow> u64" where
  "pmm_get_usable_pages s = usable_pages s"

text \<open>
  \<^verbatim>\<open>pmm_init\<close>, loop by loop. \<open>None\<close> is the endless panic loop it enters when no
  usable region can hold the bitmap.
\<close>

definition pmm_highest_addr :: "memmap_entry list \<Rightarrow> u64" where
  "pmm_highest_addr entries =
     fold (\<lambda>e h. let entry_end = entry_base e + entry_length e in
             if entry_end > h \<and> entry_type e = LIMINE_MEMMAP_USABLE then entry_end else h) entries 0"

definition pmm_count_usable :: "memmap_entry list \<Rightarrow> u64" where
  "pmm_count_usable entries =
     fold (\<lambda>e n. if entry_type e = LIMINE_MEMMAP_USABLE then n + entry_length e div PAGE_SIZE else n)
       entries 0"

fun pmm_find_bitmap :: "memmap_entry list \<Rightarrow> u64 \<Rightarrow> u64 option" where
  "pmm_find_bitmap [] bitmap_pages = None"
| "pmm_find_bitmap (e # es) bitmap_pages =
     (if entry_type e = LIMINE_MEMMAP_USABLE \<and> entry_length e \<ge> bitmap_pages * PAGE_SIZE
      then Some (entry_base e) else pmm_find_bitmap es bitmap_pages)"

definition pmm_release_frame :: "u64 \<Rightarrow> 'a pmm_state_scheme \<Rightarrow> 'a pmm_state_scheme" where
  "pmm_release_frame i s =
     s\<lparr>bitmap := bitmap_mark_free (bitmap s) i, free_pages := free_pages s + 1\<rparr>"

definition pmm_release_entry :: "memmap_entry \<Rightarrow> 'a pmm_state_scheme \<Rightarrow> 'a pmm_state_scheme" where
  "pmm_release_entry e s =
     (if entry_type e \<noteq> LIMINE_MEMMAP_USABLE then s
      else let base_page = entry_base e div PAGE_SIZE; page_count = entry_length e div PAGE_SIZE in
        for_u64 page_count (\<lambda>p. pmm_release_frame (base_page + p)) s)"

definition pmm_reserve_frame :: "u64 \<Rightarrow> 'a pmm_state_scheme \<Rightarrow> 'a pmm_state_scheme" where
  "pmm_reserve_frame i s =
     (if \<not> bitmap_is_used (bitmap s) i
      then s\<lparr>bitmap := bitmap_mark_used (bitmap s) i, free_pages := free_pages s - 1\<rparr> else s)"

definition pmm_init :: "memmap_entry list \<Rightarrow> u64 \<Rightarrow> 'a pmm_state_scheme \<Rightarrow> 'a pmm_state_scheme option" where
  "pmm_init entries hhdm_offset s =
     (let highest_addr = pmm_highest_addr entries;
          tp = (highest_addr + PAGE_SIZE - 1) div PAGE_SIZE;
          bsize = (tp + 7) div 8;
          usable = pmm_count_usable entries;
          bitmap_pages = (bsize + PAGE_SIZE - 1) div PAGE_SIZE
      in case pmm_find_bitmap entries bitmap_pages of
           None \<Rightarrow> None
         | Some bitmap_phys \<Rightarrow>
             let s0 = s\<lparr>g_hhdm_offset := hhdm_offset, total_pages := tp, bitmap_size := bsize,
                        usable_pages := usable,
                        bitmap := memset (bitmap s) 0 0xFF bsize, free_pages := 0\<rparr>;
                 s1 = fold pmm_release_entry entries s0;
                 s2 = for_u64 bitmap_pages
                        (\<lambda>p. pmm_reserve_frame (bitmap_phys div PAGE_SIZE + p)) s1
             in Some (pmm_reserve_frame 0 s2))"

section \<open>The bitmap\<close>

lemma bitmap_is_used_bit: "bitmap_is_used bm i \<longleftrightarrow> bit (bm (i div 8)) (unat (i mod 8))"
  by (simp add: bitmap_is_used_def bit_iff_and_push_bit_not_eq_0)

lemma bitmap_slot_unique:
  fixes i j :: u64
  shows "i div 8 = j div 8 \<and> unat (i mod 8) = unat (j mod 8) \<longleftrightarrow> i = j"
proof
  assume "i div 8 = j div 8 \<and> unat (i mod 8) = unat (j mod 8)"
  then have "i div 8 = j div 8" "i mod 8 = j mod 8" by (simp_all add: word_unat_eq_iff)
  then show "i = j" by (metis div_mult_mod_eq)
qed simp

lemma bitmap_slot_small [simp]: "unat ((i :: u64) mod 8) < 8"
  by (simp add: unat_mod)

lemma bitmap_is_used_mark_used [simp]:
  "bitmap_is_used (bitmap_mark_used bm i) j \<longleftrightarrow> j = i \<or> bitmap_is_used bm j"
  using bitmap_slot_unique[of i j] bitmap_slot_small[of j] bitmap_slot_small[of i]
  by (auto simp: bitmap_is_used_bit bitmap_mark_used_def bit_simps)

lemma bitmap_is_used_mark_free [simp]:
  "bitmap_is_used (bitmap_mark_free bm i) j \<longleftrightarrow> j \<noteq> i \<and> bitmap_is_used bm j"
  using bitmap_slot_unique[of i j] bitmap_slot_small[of j] bitmap_slot_small[of i]
  by (auto simp: bitmap_is_used_bit bitmap_mark_free_def bit_simps)

section \<open>The scan\<close>

lemma pmm_scan_Some:
  "pmm_scan bm i n = Some k \<Longrightarrow>
   i \<le> k \<and> k < n \<and> \<not> bitmap_is_used bm k \<and> (\<forall>j. i \<le> j \<and> j < k \<longrightarrow> bitmap_is_used bm j)"
proof (induction bm i n rule: pmm_scan.induct)
  case (1 bm i n)
  show ?case
  proof (cases "i < n \<and> bitmap_is_used bm i")
    case True
    then have "pmm_scan bm (i + 1) n = Some k"
      using "1.prems" by (simp add: pmm_scan.simps[of bm i n])
    then have IH: "i + 1 \<le> k \<and> k < n \<and> \<not> bitmap_is_used bm k \<and>
        (\<forall>j. i + 1 \<le> j \<and> j < k \<longrightarrow> bitmap_is_used bm j)"
      using "1.IH" True by simp
    have "i \<le> j \<longleftrightarrow> j = i \<or> i + 1 \<le> j" for j
      using True unat_suc_less[of i n] by (auto simp: word_le_nat_alt word_unat_eq_iff)
    then show ?thesis using IH True by auto
  next
    case False
    then show ?thesis using "1.prems"
      by (auto simp: pmm_scan.simps[of bm i n] split: if_splits)
  qed
qed

lemma pmm_scan_None:
  "pmm_scan bm i n = None \<Longrightarrow> i \<le> j \<Longrightarrow> j < n \<Longrightarrow> bitmap_is_used bm j"
proof (induction bm i n rule: pmm_scan.induct)
  case (1 bm i n)
  have lt: "i < n" using "1.prems"(2,3) by simp
  then have used: "bitmap_is_used bm i"
    using "1.prems"(1) by (auto simp: pmm_scan.simps[of bm i n] split: if_splits)
  then have rest: "pmm_scan bm (i + 1) n = None"
    using "1.prems"(1) lt by (simp add: pmm_scan.simps[of bm i n])
  show ?case
  proof (cases "j = i")
    case False
    then have "i + 1 \<le> j"
      using "1.prems"(2) lt unat_suc_less[of i n] by (auto simp: word_le_nat_alt word_unat_eq_iff)
    then show ?thesis using "1.IH" lt used rest "1.prems"(3) by simp
  qed (use used in simp)
qed

section \<open>The set of free frames\<close>

definition free_frames :: "'a pmm_state_scheme \<Rightarrow> u64 set" where
  "free_frames s = {p. p < total_pages s \<and> \<not> bitmap_is_used (bitmap s) p}"

definition avail_pages :: "'a pmm_state_scheme \<Rightarrow> u64 set" where
  "avail_pages s = (\<lambda>p. p * PAGE_SIZE) ` free_frames s"

text \<open>Pages in use that \<^verbatim>\<open>pmm_free\<close> may give back; page 0 is reserved for good.\<close>

definition owned_pages :: "'a pmm_state_scheme \<Rightarrow> u64 set" where
  "owned_pages s = (\<lambda>p. p * PAGE_SIZE) ` {p. 0 < p \<and> p < total_pages s \<and> bitmap_is_used (bitmap s) p}"

definition pmm_inv :: "'a pmm_state_scheme \<Rightarrow> bool" where
  "pmm_inv s \<longleftrightarrow> total_pages s \<le> 2 ^ 52 \<and> 0 \<notin> free_frames s
     \<and> free_pages s = of_nat (card (free_frames s))"

lemma frame_address:
  fixes p :: u64
  assumes "p < 2 ^ 52"
  shows "unat (p * PAGE_SIZE) = 4096 * unat p"
proof -
  have "unat p < unat (2 ^ 52 :: u64)" using assms by (simp add: word_less_nat_alt)
  then have "unat p < 2 ^ 52" by simp
  then show ?thesis by (simp add: unat_word_ariths)
qed

lemma frame_address_div:
  fixes p :: u64
  assumes "p < 2 ^ 52"
  shows "p * PAGE_SIZE div PAGE_SIZE = p"
  by (simp add: word_unat_eq_iff unat_div frame_address[OF assms])

lemma frame_address_inj:
  fixes p q :: u64
  assumes "p < 2 ^ 52" "q < 2 ^ 52"
  shows "p * PAGE_SIZE = q * PAGE_SIZE \<longleftrightarrow> p = q"
  using frame_address_div[OF assms(1)] frame_address_div[OF assms(2)] by metis

lemma frame_image_remove:
  fixes A :: "u64 set"
  assumes "\<And>q. q \<in> A \<Longrightarrow> q < 2 ^ 52" "p \<in> A"
  shows "(\<lambda>p. p * PAGE_SIZE) ` (A - {p}) = (\<lambda>p. p * PAGE_SIZE) ` A - {p * PAGE_SIZE}"
proof -
  have "inj_on (\<lambda>p. p * PAGE_SIZE) A"
    using assms(1) frame_address_inj by (simp add: inj_on_def)
  then show ?thesis using assms(2) by (simp add: inj_on_image_set_diff)
qed

lemma finite_u64 [simp]: "finite (A :: u64 set)"
  by (rule finite_subset[OF subset_UNIV]) simp


section \<open>Allocation and release\<close>

lemma pmm_alloc_None:
  "pmm_inv s \<Longrightarrow> free_frames s = {} \<Longrightarrow> pmm_alloc s = (PMM_ALLOC_FAILED, s)"
  by (cases "pmm_scan (bitmap s) 1 (total_pages s)")
    (auto simp: pmm_alloc_def free_frames_def dest: pmm_scan_Some)

lemma pmm_alloc_Some:
  assumes "pmm_inv s" "free_frames s \<noteq> {}"
  obtains p where "p \<in> free_frames s" "\<forall>q \<in> free_frames s. p \<le> q"
    "pmm_alloc s = (p * PAGE_SIZE,
       s\<lparr>bitmap := bitmap_mark_used (bitmap s) p, free_pages := free_pages s - 1\<rparr>)"
proof -
  obtain q where q: "q \<in> free_frames s" using assms(2) by blast
  then have "q \<noteq> 0" using assms(1) by (auto simp: pmm_inv_def)
  then have "1 \<le> q" by (simp add: word_le_nat_alt unat_eq_zero Suc_le_eq unat_gt_0)
  then obtain p where p: "pmm_scan (bitmap s) 1 (total_pages s) = Some p"
    using pmm_scan_None[of "bitmap s" 1 "total_pages s" q] q
    by (cases "pmm_scan (bitmap s) 1 (total_pages s)") (auto simp: free_frames_def)
  note sp = pmm_scan_Some[OF p]
  have in_free: "p \<in> free_frames s" using sp by (simp add: free_frames_def)
  have least: "p \<le> q" if "q \<in> free_frames s" for q
  proof (rule ccontr)
    assume "\<not> p \<le> q"
    moreover have "q \<noteq> 0" using that assms(1) by (auto simp: pmm_inv_def)
    then have "1 \<le> q" by (simp add: word_le_nat_alt Suc_le_eq unat_gt_0)
    ultimately show False using sp that by (auto simp: free_frames_def)
  qed
  show thesis
    by (rule that[OF in_free]) (simp_all add: least pmm_alloc_def p)
qed

lemma free_frames_alloc:
  "p \<in> free_frames s \<Longrightarrow>
   free_frames (s\<lparr>bitmap := bitmap_mark_used (bitmap s) p, free_pages := n\<rparr>) = free_frames s - {p}"
  by (auto simp: free_frames_def)

lemma free_frames_release:
  "p < total_pages s \<Longrightarrow>
   free_frames (s\<lparr>bitmap := bitmap_mark_free (bitmap s) p, free_pages := n\<rparr>) = insert p (free_frames s)"
  by (auto simp: free_frames_def)

lemma pmm_inv_alloc: "pmm_inv s \<Longrightarrow> pmm_inv (snd (pmm_alloc s))"
proof (cases "free_frames s = {}")
  case False
  assume inv: "pmm_inv s"
  obtain p where p: "p \<in> free_frames s"
    and eq: "pmm_alloc s = (p * PAGE_SIZE,
       s\<lparr>bitmap := bitmap_mark_used (bitmap s) p, free_pages := free_pages s - 1\<rparr>)"
    using pmm_alloc_Some[OF inv False] by blast
  have "card (free_frames s) = Suc (card (free_frames s - {p}))"
    using card.remove[OF finite_u64 p] .
  then show ?thesis using inv p by (auto simp: eq pmm_inv_def free_frames_alloc)
qed (simp add: pmm_alloc_None)

text \<open>Every successful release clears one bit; every refused one changes nothing.\<close>

lemma pmm_free_owned:
  assumes "pmm_inv s" "a \<in> owned_pages s"
  shows "avail_pages (pmm_free a s) = insert a (avail_pages s)" "pmm_inv (pmm_free a s)"
    "a \<notin> avail_pages s"
proof -
  obtain p where p: "a = p * PAGE_SIZE" "0 < p" "p < total_pages s" "bitmap_is_used (bitmap s) p"
    using assms(2) by (auto simp: owned_pages_def)
  have small: "p < 2 ^ 52" using p(3) assms(1) by (auto simp: pmm_inv_def)
  have al: "a AND (PAGE_SIZE - 1) = 0"
    using frame_address[OF small] p(1) by (simp add: page_aligned_iff)
  have eq: "pmm_free a s = s\<lparr>bitmap := bitmap_mark_free (bitmap s) p, free_pages := free_pages s + 1\<rparr>"
    using p frame_address_div[OF small] al by (simp add: pmm_free_def Let_def)
  have notin: "p \<notin> free_frames s" using p by (simp add: free_frames_def)
  show "avail_pages (pmm_free a s) = insert a (avail_pages s)"
    unfolding eq avail_pages_def using p(3) by (simp add: free_frames_release p(1))
  show "pmm_inv (pmm_free a s)"
    unfolding eq using assms(1) notin p(2,3) by (auto simp: pmm_inv_def free_frames_release)
  show "a \<notin> avail_pages s"
  proof
    assume "a \<in> avail_pages s"
    then obtain q where q: "q \<in> free_frames s" "a = q * PAGE_SIZE" by (auto simp: avail_pages_def)
    then have "q < 2 ^ 52" using assms(1) by (auto simp: pmm_inv_def free_frames_def)
    then have "q = p" using frame_address_inj[of q p] small p(1) q(2) by simp
    then show False using q(1) notin by simp
  qed
qed

lemma pmm_free_refused:
  "\<not> 4096 dvd unat a \<or> total_pages s \<le> a div PAGE_SIZE \<or> \<not> bitmap_is_used (bitmap s) (a div PAGE_SIZE)
   \<Longrightarrow> pmm_free a s = s"
  by (auto simp: pmm_free_def Let_def page_aligned_iff)

text \<open>What neither operation touches.\<close>

lemma pmm_alloc_frame [frame_simps]:
  "mem (snd (pmm_alloc s)) = mem s" "g_hhdm_offset (snd (pmm_alloc s)) = g_hhdm_offset s"
  "total_pages (snd (pmm_alloc s)) = total_pages s" "usable_pages (snd (pmm_alloc s)) = usable_pages s"
  "bitmap_size (snd (pmm_alloc s)) = bitmap_size s"
  "pmm_state.more (snd (pmm_alloc s)) = pmm_state.more s"
  by (simp_all add: pmm_alloc_def split: option.splits)

lemma pmm_free_frame [frame_simps]:
  "mem (pmm_free a s) = mem s" "g_hhdm_offset (pmm_free a s) = g_hhdm_offset s"
  "total_pages (pmm_free a s) = total_pages s" "usable_pages (pmm_free a s) = usable_pages s"
  "bitmap_size (pmm_free a s) = bitmap_size s"
  "pmm_state.more (pmm_free a s) = pmm_state.more s"
  by (simp_all add: pmm_free_def Let_def)

section \<open>The allocator interface\<close>

text \<open>
  What the page-table code, the heap and the system calls rely on: an
  allocation takes one page out of the available ones or fails with 0, a
  release of an owned page puts it back.
\<close>

locale page_allocator =
  fixes alloc :: "'s \<Rightarrow> u64 \<times> 's"
    and free :: "u64 \<Rightarrow> 's \<Rightarrow> 's"
    and avail :: "'s \<Rightarrow> u64 set"
    and owned :: "'s \<Rightarrow> u64 set"
    and inv :: "'s \<Rightarrow> bool"
  assumes alloc_fail: "inv s \<Longrightarrow> avail s = {} \<Longrightarrow> alloc s = (0, s)"
    and alloc_takes: "inv s \<Longrightarrow> avail s \<noteq> {} \<Longrightarrow>
      fst (alloc s) \<in> avail s \<and> avail (snd (alloc s)) = avail s - {fst (alloc s)}
      \<and> owned (snd (alloc s)) = insert (fst (alloc s)) (owned s)"
    and alloc_inv: "inv s \<Longrightarrow> inv (snd (alloc s))"
    and avail_page: "inv s \<Longrightarrow> a \<in> avail s \<Longrightarrow> a \<noteq> 0 \<and> 4096 dvd unat a \<and> a \<notin> owned s"
    and free_returns: "inv s \<Longrightarrow> a \<in> owned s \<Longrightarrow>
      avail (free a s) = insert a (avail s) \<and> owned (free a s) = owned s - {a} \<and> inv (free a s)"
begin

lemma alloc_zero_iff: "inv s \<Longrightarrow> fst (alloc s) = 0 \<longleftrightarrow> avail s = {}"
  using alloc_fail alloc_takes avail_page by (metis fst_conv)

lemma alloc_then_free:
  assumes "inv s" "alloc s = (a, s')" "a \<noteq> 0"
  shows "avail (free a s') = avail s \<and> owned (free a s') = owned s \<and> inv (free a s')"
proof -
  have ne: "avail s \<noteq> {}" using alloc_fail[OF assms(1)] assms(2,3) by auto
  note t = alloc_takes[OF assms(1) ne]
  have "a \<notin> owned s" using avail_page[OF assms(1)] t assms(2) by auto
  then show ?thesis
    using t free_returns[OF alloc_inv[OF assms(1)], of a] assms(2) by auto
qed

lemma alloc_twice_distinct:
  assumes "inv s" "alloc s = (a, s')" "alloc s' = (b, s'')" "a \<noteq> 0" "b \<noteq> 0"
  shows "a \<noteq> b"
proof -
  have i': "inv s'" using alloc_inv[OF assms(1)] assms(2) by simp
  have "avail s \<noteq> {}" using alloc_fail[OF assms(1)] assms(2,4) by auto
  then have "a \<notin> avail s'" using alloc_takes[OF assms(1)] assms(2) by auto
  moreover have "avail s' \<noteq> {}" using alloc_fail[OF i'] assms(3,5) by auto
  then have "b \<in> avail s'" using alloc_takes[OF i'] assms(3) by auto
  ultimately show ?thesis by blast
qed

end

lemma avail_disjoint_owned: "pmm_inv s \<Longrightarrow> a \<in> avail_pages s \<Longrightarrow> a \<notin> owned_pages s"
  using pmm_free_owned(3) by blast

lemma owned_pages_alloc:
  assumes "pmm_inv s" "p \<in> free_frames s"
  shows "owned_pages (s\<lparr>bitmap := bitmap_mark_used (bitmap s) p, free_pages := n\<rparr>)
    = insert (p * PAGE_SIZE) (owned_pages s)"
proof -
  have "{q. 0 < q \<and> q < total_pages s \<and> (q = p \<or> bitmap_is_used (bitmap s) q)}
      = insert p {q. 0 < q \<and> q < total_pages s \<and> bitmap_is_used (bitmap s) q}"
    using assms by (auto simp: free_frames_def pmm_inv_def word_gt_0)
  then show ?thesis by (simp add: owned_pages_def)
qed

lemma owned_pages_free:
  assumes "pmm_inv s" "a \<in> owned_pages s"
  shows "owned_pages (pmm_free a s) = owned_pages s - {a}"
proof -
  obtain p where p: "a = p * PAGE_SIZE" "0 < p" "p < total_pages s" "bitmap_is_used (bitmap s) p"
    using assms(2) by (auto simp: owned_pages_def)
  have sm: "q < total_pages s \<Longrightarrow> q < 2 ^ 52" for q using assms(1) by (auto simp: pmm_inv_def)
  have al: "a AND (PAGE_SIZE - 1) = 0"
    using frame_address[OF sm] p(1,3) by (simp add: page_aligned_iff)
  have eq: "pmm_free a s = s\<lparr>bitmap := bitmap_mark_free (bitmap s) p, free_pages := free_pages s + 1\<rparr>"
    using p frame_address_div[OF sm] al by (simp add: pmm_free_def Let_def)
  have "{q. 0 < q \<and> q < total_pages s \<and> q \<noteq> p \<and> bitmap_is_used (bitmap s) q}
      = {q. 0 < q \<and> q < total_pages s \<and> bitmap_is_used (bitmap s) q} - {p}" by blast
  then have "owned_pages (pmm_free a s)
      = (\<lambda>p. p * PAGE_SIZE) ` ({q. 0 < q \<and> q < total_pages s \<and> bitmap_is_used (bitmap s) q} - {p})"
    unfolding eq by (simp add: owned_pages_def)
  also have "\<dots> = owned_pages s - {a}"
    unfolding owned_pages_def p(1) by (rule frame_image_remove) (use p sm in auto)
  finally show ?thesis .
qed

interpretation pmm: page_allocator pmm_alloc pmm_free avail_pages owned_pages pmm_inv
proof
  fix s :: "'a pmm_state_scheme" and a :: u64
  assume inv: "pmm_inv s"
  show "pmm_alloc s = (0, s)" if "avail_pages s = {}"
    using pmm_alloc_None[OF inv] that by (simp add: avail_pages_def PMM_ALLOC_FAILED_def)
  show "pmm_inv (snd (pmm_alloc s))" by (rule pmm_inv_alloc[OF inv])
  show "a \<noteq> 0 \<and> 4096 dvd unat a \<and> a \<notin> owned_pages s" if a: "a \<in> avail_pages s"
  proof -
    obtain p where p: "p \<in> free_frames s" "a = p * PAGE_SIZE" using a by (auto simp: avail_pages_def)
    have ua: "unat a = 4096 * unat p" and "p \<noteq> 0"
      using p inv frame_address[of p] by (auto simp: pmm_inv_def free_frames_def)
    then have "a \<noteq> 0" by (auto simp: unat_eq_zero[symmetric] simp del: unat_eq_zero)
    then show ?thesis using ua avail_disjoint_owned[OF inv a] by simp
  qed
  show "avail_pages (pmm_free a s) = insert a (avail_pages s) \<and>
      owned_pages (pmm_free a s) = owned_pages s - {a} \<and> pmm_inv (pmm_free a s)"
    if "a \<in> owned_pages s"
    using pmm_free_owned[OF inv that] owned_pages_free[OF inv that] by simp
  show "fst (pmm_alloc s) \<in> avail_pages s \<and> avail_pages (snd (pmm_alloc s)) = avail_pages s - {fst (pmm_alloc s)}
      \<and> owned_pages (snd (pmm_alloc s)) = insert (fst (pmm_alloc s)) (owned_pages s)"
    if "avail_pages s \<noteq> {}"
  proof -
    have ne: "free_frames s \<noteq> {}" using that by (simp add: avail_pages_def)
    obtain p where p: "p \<in> free_frames s"
      and eq: "pmm_alloc s = (p * PAGE_SIZE,
         s\<lparr>bitmap := bitmap_mark_used (bitmap s) p, free_pages := free_pages s - 1\<rparr>)"
      using pmm_alloc_Some[OF inv ne] by blast
    have sm: "q \<in> free_frames s \<Longrightarrow> q < 2 ^ 52" for q
      using inv by (auto simp: pmm_inv_def free_frames_def)
    have "avail_pages (snd (pmm_alloc s)) = avail_pages s - {p * PAGE_SIZE}"
      using frame_image_remove[OF sm p] p by (simp add: eq avail_pages_def free_frames_alloc)
    then show ?thesis
      using p by (simp add: eq avail_pages_def owned_pages_alloc[OF inv p])
  qed
qed

section \<open>Initialisation\<close>

text \<open>Frames of a usable region, and the contract of the boot loader's memory map.\<close>

definition entry_frames :: "memmap_entry \<Rightarrow> u64 set" where
  "entry_frames e = (if entry_type e = LIMINE_MEMMAP_USABLE
     then (\<lambda>p. entry_base e div PAGE_SIZE + of_nat p) ` {..<unat (entry_length e div PAGE_SIZE)} else {})"

definition usable_frames :: "memmap_entry list \<Rightarrow> u64 set" where
  "usable_frames entries = (\<Union>e \<in> set entries. entry_frames e)"

definition memmap_ok :: "memmap_entry list \<Rightarrow> bool" where
  "memmap_ok entries \<longleftrightarrow>
     (\<forall>e \<in> set entries. entry_type e = LIMINE_MEMMAP_USABLE \<longrightarrow>
        entry_base e AND (PAGE_SIZE - 1) = 0 \<and> entry_length e AND (PAGE_SIZE - 1) = 0
        \<and> 0 < entry_length e \<and> entry_base e \<le> entry_base e + entry_length e
        \<and> entry_base e + entry_length e < 0xFFFFFFFFFFFFF000)
     \<and> sorted_wrt (\<lambda>a b. entry_frames a \<inter> entry_frames b = {}) entries"

text \<open>The counter agrees with the bitmap, for a bitmap that covers \<open>tp\<close> frames.\<close>

definition pmm_counts :: "u64 \<Rightarrow> u64 set \<Rightarrow> 'a pmm_state_scheme \<Rightarrow> bool" where
  "pmm_counts tp X s \<longleftrightarrow> total_pages s = tp \<and> free_frames s = X \<and> free_pages s = of_nat (card X)"

lemma pmm_release_frame_counts:
  assumes "pmm_counts tp X s" "i < tp" "i \<notin> X"
  shows "pmm_counts tp (insert i X) (pmm_release_frame i s)"
  using assms by (auto simp: pmm_counts_def pmm_release_frame_def free_frames_release)

lemma pmm_reserve_frame_counts:
  assumes "pmm_counts tp X s" "i < tp"
  shows "pmm_counts tp (X - {i}) (pmm_reserve_frame i s)"
proof (cases "i \<in> X")
  case True
  then have free: "i \<in> free_frames s" using assms(1) by (simp add: pmm_counts_def)
  have "card X = Suc (card (X - {i}))" using card.remove[OF finite_u64 True] .
  then show ?thesis using assms free
    by (auto simp: pmm_counts_def pmm_reserve_frame_def free_frames_alloc)
      (auto simp: free_frames_def)
next
  case False
  then show ?thesis using assms
    by (auto simp: pmm_counts_def pmm_reserve_frame_def free_frames_def)
qed

lemma pmm_release_loop_counts:
  assumes "pmm_counts tp X s" "unat b + unat n \<le> unat tp"
    "(\<lambda>p. b + of_nat p) ` {..<unat n} \<inter> X = {}"
  shows "pmm_counts tp (X \<union> (\<lambda>p. b + of_nat p) ` {..<unat n}) (for_u64 n (\<lambda>p. pmm_release_frame (b + p)) s)"
proof (rule for_u64_invariant[where P = "\<lambda>i. pmm_counts tp (X \<union> (\<lambda>p. b + of_nat p) ` {..<i})"])
  show "pmm_counts tp (X \<union> (\<lambda>p. b + of_nat p) ` {..<0}) s" using assms(1) by simp
next
  fix i s assume i: "i < unat n" and P: "pmm_counts tp (X \<union> (\<lambda>p. b + of_nat p) ` {..<i}) s"
  have n64: "unat n < 2 ^ 64" "unat tp < 2 ^ 64" by (rule unat_u64_lt)+
  have "unat (b + of_nat i) = unat b + i"
    by (rule unat_plus_offset) (use assms(2) i n64 in linarith)
  then have "b + of_nat i < tp" using assms(2) i by (simp add: word_less_nat_alt)
  moreover have "b + of_nat i \<notin> (\<lambda>p. b + of_nat p) ` {..<i}"
    using u64_offset_inj[of b i] i n64 by fastforce
  moreover have "b + of_nat i \<notin> X" using assms(3) i by auto
  ultimately have "pmm_counts tp (insert (b + of_nat i) (X \<union> (\<lambda>p. b + of_nat p) ` {..<i}))
      (pmm_release_frame (b + of_nat i) s)"
    using P by (intro pmm_release_frame_counts) auto
  then show "pmm_counts tp (X \<union> (\<lambda>p. b + of_nat p) ` {..<Suc i}) (pmm_release_frame (b + of_nat i) s)"
    by (simp add: lessThan_Suc)
qed

lemma pmm_reserve_loop_counts:
  assumes "pmm_counts tp X s" "unat b + unat n \<le> unat tp"
  shows "pmm_counts tp (X - (\<lambda>p. b + of_nat p) ` {..<unat n}) (for_u64 n (\<lambda>p. pmm_reserve_frame (b + p)) s)"
proof (rule for_u64_invariant[where P = "\<lambda>i. pmm_counts tp (X - (\<lambda>p. b + of_nat p) ` {..<i})"])
  show "pmm_counts tp (X - (\<lambda>p. b + of_nat p) ` {..<0}) s" using assms(1) by simp
next
  fix i s assume i: "i < unat n" and P: "pmm_counts tp (X - (\<lambda>p. b + of_nat p) ` {..<i}) s"
  have n64: "unat tp < 2 ^ 64" by (rule unat_u64_lt)
  have "unat (b + of_nat i) = unat b + i"
    by (rule unat_plus_offset) (use assms(2) i n64 in linarith)
  then have "b + of_nat i < tp" using assms(2) i by (simp add: word_less_nat_alt)
  then have "pmm_counts tp (X - (\<lambda>p. b + of_nat p) ` {..<i} - {b + of_nat i})
      (pmm_reserve_frame (b + of_nat i) s)"
    by (rule pmm_reserve_frame_counts[OF P])
  then show "pmm_counts tp (X - (\<lambda>p. b + of_nat p) ` {..<Suc i}) (pmm_reserve_frame (b + of_nat i) s)"
    by (simp add: lessThan_Suc Diff_insert2[symmetric] insert_commute set_diff_eq)
      (smt (verit) Collect_cong Diff_iff insertCI insertE)
qed

text \<open>Every usable region lies below the highest address.\<close>

lemma pmm_highest_addr_fold:
  "h \<le> fold (\<lambda>e h. let entry_end = entry_base e + entry_length e in
       if entry_end > h \<and> entry_type e = LIMINE_MEMMAP_USABLE then entry_end else h) entries h"
  "e \<in> set entries \<Longrightarrow> entry_type e = LIMINE_MEMMAP_USABLE \<Longrightarrow> entry_base e + entry_length e
     \<le> fold (\<lambda>e h. let entry_end = entry_base e + entry_length e in
       if entry_end > h \<and> entry_type e = LIMINE_MEMMAP_USABLE then entry_end else h) entries h"
proof (induction entries arbitrary: h)
  case (Cons a entries)
  {
    case 1
    show ?case using Cons.IH(1)[of "entry_base a + entry_length a"] Cons.IH(1)[of h]
      by (auto simp: Let_def)
  next
    case 2
    then show ?case
      using Cons.IH(1)[of "entry_base a + entry_length a"] Cons.IH(1)[of h] Cons.IH(2)
      by (auto simp: Let_def not_less intro: order_trans)
  }
qed auto



lemma pmm_highest_addr_upper:
  assumes "\<And>e. e \<in> set entries \<Longrightarrow> entry_type e = LIMINE_MEMMAP_USABLE \<Longrightarrow> unat (entry_base e + entry_length e) < N"
    "unat h < N"
  shows "unat (fold (\<lambda>e h. let entry_end = entry_base e + entry_length e in
       if entry_end > h \<and> entry_type e = LIMINE_MEMMAP_USABLE then entry_end else h) entries h) < N"
  using assms by (induction entries arbitrary: h) (auto simp: Let_def)

lemma memmap_ok_end:
  assumes "memmap_ok entries" "e \<in> set entries" "entry_type e = LIMINE_MEMMAP_USABLE"
  shows "unat (entry_base e + entry_length e) = unat (entry_base e) + unat (entry_length e)"
    "unat (entry_base e + entry_length e) < 2 ^ 64 - 4096"
proof -
  have "entry_base e \<le> entry_base e + entry_length e" "entry_base e + entry_length e < 0xFFFFFFFFFFFFF000"
    using assms by (auto simp: memmap_ok_def)
  then show "unat (entry_base e + entry_length e) = unat (entry_base e) + unat (entry_length e)"
    "unat (entry_base e + entry_length e) < 2 ^ 64 - 4096"
    by (auto simp: unat_plus_simple word_less_nat_alt)
qed

lemma memmap_ok_highest:
  assumes "memmap_ok entries"
  shows "unat (pmm_highest_addr entries) < 2 ^ 64 - 4096"
    and "unat ((pmm_highest_addr entries + PAGE_SIZE - 1) div PAGE_SIZE)
      = (unat (pmm_highest_addr entries) + 4095) div 4096"
proof -
  show h: "unat (pmm_highest_addr entries) < 2 ^ 64 - 4096"
    unfolding pmm_highest_addr_def
    by (rule pmm_highest_addr_upper) (use memmap_ok_end[OF assms] in auto)
  have "pmm_highest_addr entries + PAGE_SIZE - 1 = pmm_highest_addr entries + of_nat 4095"
    by (simp add: PAGE_SIZE_def)
  moreover have "unat (pmm_highest_addr entries + of_nat 4095) = unat (pmm_highest_addr entries) + 4095"
    by (rule unat_plus_offset) (use h in simp)
  ultimately have "unat (pmm_highest_addr entries + PAGE_SIZE - 1) = unat (pmm_highest_addr entries) + 4095"
    by metis
  then show "unat ((pmm_highest_addr entries + PAGE_SIZE - 1) div PAGE_SIZE)
      = (unat (pmm_highest_addr entries) + 4095) div 4096"
    by (simp add: unat_div)
qed

lemma memmap_ok_entry:
  assumes "memmap_ok entries" "e \<in> set entries" "entry_type e = LIMINE_MEMMAP_USABLE"
  shows "unat (entry_base e div PAGE_SIZE) + unat (entry_length e div PAGE_SIZE)
      \<le> unat ((pmm_highest_addr entries + PAGE_SIZE - 1) div PAGE_SIZE)"
proof -
  have "unat (entry_base e) + unat (entry_length e) \<le> unat (pmm_highest_addr entries)"
    using pmm_highest_addr_fold(2)[OF assms(2,3), of 0] memmap_ok_end(1)[OF assms]
    by (simp add: pmm_highest_addr_def word_le_nat_alt)
  then show ?thesis
    unfolding memmap_ok_highest(2)[OF assms(1)] by (simp add: unat_div)
qed

lemma pmm_release_entries_counts:
  assumes "\<And>e. e \<in> set entries \<Longrightarrow> entry_type e = LIMINE_MEMMAP_USABLE \<Longrightarrow>
      unat (entry_base e div PAGE_SIZE) + unat (entry_length e div PAGE_SIZE) \<le> unat tp"
    "sorted_wrt (\<lambda>a b. entry_frames a \<inter> entry_frames b = {}) entries"
    "pmm_counts tp X s" "usable_frames entries \<inter> X = {}"
  shows "pmm_counts tp (X \<union> usable_frames entries) (fold pmm_release_entry entries s)"
  using assms
proof (induction entries arbitrary: X s)
  case (Cons e es)
  have "pmm_counts tp (X \<union> entry_frames e) (pmm_release_entry e s)"
  proof (cases "entry_type e = LIMINE_MEMMAP_USABLE")
    case True
    then have "(\<lambda>p. entry_base e div PAGE_SIZE + of_nat p) ` {..<unat (entry_length e div PAGE_SIZE)} \<inter> X = {}"
      using Cons.prems(4) by (simp add: usable_frames_def entry_frames_def Int_Un_distrib2)
    then show ?thesis
      using pmm_release_loop_counts[OF Cons.prems(3) Cons.prems(1)[of e]] True
      by (simp add: pmm_release_entry_def entry_frames_def Let_def)
  qed (use Cons.prems(3) in \<open>simp add: pmm_release_entry_def entry_frames_def\<close>)
  moreover have "usable_frames es \<inter> (X \<union> entry_frames e) = {}"
    using Cons.prems(2,4) by (auto simp: usable_frames_def)
  ultimately have "pmm_counts tp (X \<union> entry_frames e \<union> usable_frames es) (fold pmm_release_entry es (pmm_release_entry e s))"
    using Cons.prems(1,2) by (intro Cons.IH) auto
  then show ?case by (simp add: usable_frames_def Un_assoc)
qed (simp add: usable_frames_def)

lemma pmm_bitmap_all_used:
  assumes "tp \<le> 2 ^ 52" "p < tp"
  shows "bitmap_is_used (memset bm 0 0xFF ((tp + 7) div 8)) p"
proof -
  have tp: "unat tp \<le> 2 ^ 52" using assms(1) by (simp add: word_le_nat_alt)
  then have "unat (tp + 7) = unat tp + 7" using unat_plus_offset[of tp 7] by simp
  moreover have "unat p < unat tp" using assms(2) by (simp add: word_less_nat_alt)
  ultimately have "p div 8 < (tp + 7) div 8" by (simp add: word_less_nat_alt unat_div)
  then have "memset bm 0 0xFF ((tp + 7) div 8) (p div 8) = 0xFF"
    by (simp add: memset_apply)
  moreover have "bit (0xFF :: u8) n" if "n < 8" for n
  proof -
    have "(0xFF :: u8) = mask 8" by (simp add: mask_eq_exp_minus_1)
    then show ?thesis using that by (simp only: bit_mask_iff) simp
  qed
  ultimately show ?thesis using bitmap_slot_small[of p]
    by (simp add: bitmap_is_used_bit)
qed

lemma pmm_find_bitmap_Some:
  "pmm_find_bitmap entries n = Some b \<Longrightarrow>
   \<exists>e \<in> set entries. entry_type e = LIMINE_MEMMAP_USABLE \<and> n * PAGE_SIZE \<le> entry_length e \<and> entry_base e = b"
  by (induction entries n rule: pmm_find_bitmap.induct) (auto split: if_splits)

lemma pmm_find_bitmap_None:
  "pmm_find_bitmap entries n = None \<longleftrightarrow>
   (\<forall>e \<in> set entries. entry_type e = LIMINE_MEMMAP_USABLE \<longrightarrow> entry_length e < n * PAGE_SIZE)"
  by (induction entries n rule: pmm_find_bitmap.induct) (auto simp: not_le)

text \<open>Frames the bitmap itself occupies.\<close>

definition bitmap_frames :: "memmap_entry list \<Rightarrow> u64 set" where
  "bitmap_frames entries =
     (let tp = (pmm_highest_addr entries + PAGE_SIZE - 1) div PAGE_SIZE;
          n = ((tp + 7) div 8 + PAGE_SIZE - 1) div PAGE_SIZE
      in case pmm_find_bitmap entries n of None \<Rightarrow> {}
         | Some b \<Rightarrow> (\<lambda>p. b div PAGE_SIZE + of_nat p) ` {..<unat n})"

lemma pmm_reserve_frame_zero:
  "free_frames (pmm_reserve_frame 0 s) = free_frames s - {0}"
  by (auto simp: pmm_reserve_frame_def free_frames_def)

lemma pmm_init_counts:
  assumes ok: "memmap_ok entries" and init: "pmm_init entries off s = Some s'"
  shows "pmm_counts ((pmm_highest_addr entries + PAGE_SIZE - 1) div PAGE_SIZE)
    (usable_frames entries - bitmap_frames entries - {0}) s'"
proof -
  define tp where "tp = (pmm_highest_addr entries + PAGE_SIZE - 1) div PAGE_SIZE"
  define n where "n = ((tp + 7) div 8 + PAGE_SIZE - 1) div PAGE_SIZE"
  obtain b where b: "pmm_find_bitmap entries n = Some b"
    using init by (auto simp: pmm_init_def Let_def tp_def n_def split: option.splits)
  define s0 where "s0 = s\<lparr>g_hhdm_offset := off, total_pages := tp, bitmap_size := (tp + 7) div 8,
      usable_pages := pmm_count_usable entries,
      bitmap := memset (bitmap s) 0 0xFF ((tp + 7) div 8), free_pages := 0\<rparr>"
  have tp: "unat tp = (unat (pmm_highest_addr entries) + 4095) div 4096"
    using memmap_ok_highest(2)[OF ok] by (simp add: tp_def)
  then have tp52: "unat tp \<le> 2 ^ 52" using memmap_ok_highest(1)[OF ok] by simp
  obtain e where e: "e \<in> set entries" "entry_type e = LIMINE_MEMMAP_USABLE"
      "n * PAGE_SIZE \<le> entry_length e" "entry_base e = b"
    using pmm_find_bitmap_Some[OF b] by blast
  have n52: "n < 2 ^ 52"
  proof -
    have "unat n < 2 ^ 52" unfolding n_def unat_div PAGE_SIZE_unat
      using unat_u64_lt[of "(tp + 7) div 8 + PAGE_SIZE - 1"] by (simp add: less_mult_imp_div_less)
    then show ?thesis by (simp add: word_less_nat_alt)
  qed
  have "unat n \<le> unat (entry_length e div PAGE_SIZE)"
    using e(3) frame_address[OF n52] by (simp add: word_le_nat_alt unat_div)
  then have nb: "unat (b div PAGE_SIZE) + unat n \<le> unat tp"
    using memmap_ok_entry[OF ok e(1,2)] e(4) by (simp add: tp_def)
  have "pmm_counts tp {} s0"
    using pmm_bitmap_all_used[of tp] tp52
    by (auto simp: pmm_counts_def s0_def free_frames_def word_le_nat_alt)
  then have "pmm_counts tp (usable_frames entries) (fold pmm_release_entry entries s0)"
    using pmm_release_entries_counts[of entries tp "{}" s0] ok memmap_ok_entry[OF ok]
    by (simp add: memmap_ok_def tp_def)
  from pmm_reserve_loop_counts[OF this nb]
  have "pmm_counts tp (usable_frames entries - bitmap_frames entries)
     (for_u64 n (\<lambda>p. pmm_reserve_frame (b div PAGE_SIZE + p)) (fold pmm_release_entry entries s0))"
    using b by (simp add: bitmap_frames_def Let_def tp_def n_def)
  moreover have "0 < tp"
  proof -
    have "0 < unat (entry_length e div PAGE_SIZE)"
      using ok e(1,2) by (auto simp: memmap_ok_def unat_div word_less_nat_alt page_aligned_iff elim!: dvdE)
    then show ?thesis using memmap_ok_entry[OF ok e(1,2)] by (simp add: tp_def word_less_nat_alt)
  qed
  ultimately have "pmm_counts tp (usable_frames entries - bitmap_frames entries - {0})
     (pmm_reserve_frame 0 (for_u64 n (\<lambda>p. pmm_reserve_frame (b div PAGE_SIZE + p)) (fold pmm_release_entry entries s0)))"
    by (intro pmm_reserve_frame_counts)
  moreover have "s' = pmm_reserve_frame 0 (for_u64 n (\<lambda>p. pmm_reserve_frame (b div PAGE_SIZE + p)) (fold pmm_release_entry entries s0))"
    using init b by (simp add: pmm_init_def Let_def tp_def n_def s0_def)
  ultimately show ?thesis by (simp add: tp_def)
qed

text \<open>The bitmap, the reserved page 0 and the counter after initialisation.\<close>

lemma pmm_init_inv:
  assumes ok: "memmap_ok entries" and init: "pmm_init entries off s = Some s'"
  shows "pmm_inv s'" "free_frames s' = usable_frames entries - bitmap_frames entries - {0}"
proof -
  note c = pmm_init_counts[OF ok init]
  have "unat (total_pages s') \<le> 2 ^ 52"
    using c memmap_ok_highest[OF ok] by (simp add: pmm_counts_def)
  then show "pmm_inv s'" using c
    by (simp add: pmm_counts_def pmm_inv_def word_le_nat_alt)
  show "free_frames s' = usable_frames entries - bitmap_frames entries - {0}"
    using c by (simp add: pmm_counts_def)
qed

lemma pmm_init_panics:
  "pmm_init entries off s = None \<longleftrightarrow>
   (\<forall>e \<in> set entries. entry_type e = LIMINE_MEMMAP_USABLE \<longrightarrow>
      entry_length e < (((pmm_highest_addr entries + PAGE_SIZE - 1) div PAGE_SIZE + 7) div 8 + PAGE_SIZE - 1)
        div PAGE_SIZE * PAGE_SIZE)"
  unfolding pmm_find_bitmap_None[symmetric] by (simp add: pmm_init_def Let_def split: option.splits)

definition witness_memmap :: "memmap_entry list" where
  "witness_memmap =
     [\<lparr>entry_base = 0, entry_length = 0x3000, entry_type = 0\<rparr>,
      \<lparr>entry_base = 0x3000, entry_length = 0x2000, entry_type = 1\<rparr>,
      \<lparr>entry_base = 0x5000, entry_length = 0xB000, entry_type = 0\<rparr>]"

definition witness_blank :: pmm_state where
  "witness_blank = \<lparr>mem = (\<lambda>_. 0), g_hhdm_offset = 0, bitmap = (\<lambda>_. 0), bitmap_size = 0,
     total_pages = 0, free_pages = 0, usable_pages = 0\<rparr>"


section \<open>Runs of the allocator\<close>

text \<open>
  A run of a client: the pages it holds, in order of allocation. It frees only
  pages it holds. Failed allocations return 0 and are not held.
\<close>

inductive pmm_run :: "'a pmm_state_scheme \<Rightarrow> u64 list \<Rightarrow> 'a pmm_state_scheme \<Rightarrow> bool" for s0 where
  start: "pmm_run s0 [] s0"
| alloc: "pmm_run s0 held s \<Longrightarrow> pmm_alloc s = (a, s') \<Longrightarrow> a \<noteq> PMM_ALLOC_FAILED
    \<Longrightarrow> pmm_run s0 (a # held) s'"
| failed: "pmm_run s0 held s \<Longrightarrow> pmm_alloc s = (PMM_ALLOC_FAILED, s') \<Longrightarrow> pmm_run s0 held s'"
| free: "pmm_run s0 held s \<Longrightarrow> a \<in> set held \<Longrightarrow> pmm_run s0 (remove1 a held) (pmm_free a s)"

lemma avail_card: "pmm_inv s \<Longrightarrow> card (avail_pages s) = card (free_frames s)"
  unfolding avail_pages_def
  by (rule card_image) (auto simp: inj_on_def frame_address_inj free_frames_def pmm_inv_def)

lemma pmm_run_inv:
  assumes "pmm_run s0 held s" "pmm_inv s0"
  shows "pmm_inv s \<and> distinct held \<and> set held \<subseteq> owned_pages s \<and> set held \<inter> avail_pages s = {}
    \<and> avail_pages s \<union> set held = avail_pages s0"
  using assms
proof (induction rule: pmm_run.induct)
  case (alloc held s a s')
  then have ne: "avail_pages s \<noteq> {}"
    using pmm.alloc_zero_iff[of s] by (auto simp: PMM_ALLOC_FAILED_def)
  show ?case
    using alloc pmm.alloc_takes[OF _ ne] pmm.alloc_inv[of s] by (auto simp: insert_absorb)
next
  case (failed held s s')
  then show ?case
    using pmm.alloc_zero_iff[of s] pmm.alloc_fail[of s] by (auto simp: PMM_ALLOC_FAILED_def)
next
  case (free held s a)
  then have "a \<in> owned_pages s" by auto
  then show ?case using free pmm.free_returns[of s a] by (auto simp: distinct_remove1)
qed simp

section \<open>Properties\<close>

text \<open>
  C1. After \<^verbatim>\<open>pmm_init\<close> on a memory map as the boot protocol promises it
  (page-aligned, non-empty, non-overlapping usable regions), the free frames are
  exactly the usable ones other than page 0 and the frames that hold the bitmap,
  and \<^verbatim>\<open>free_pages\<close> counts them.
\<close>

theorem pmm_init_correct:
  assumes "memmap_ok entries" "pmm_init entries off s = Some s'"
  shows "pmm_inv s' \<and> free_frames s' = usable_frames entries - bitmap_frames entries - {0}
    \<and> pmm_get_free_pages s' = of_nat (card (usable_frames entries - bitmap_frames entries - {0}))"
  using pmm_init_inv[OF assms] by (simp add: pmm_inv_def pmm_get_free_pages_def)

theorem pmm_init_correct_witness:
  "memmap_ok witness_memmap
   \<and> free_frames (the (pmm_init witness_memmap 0xFFFF800000000000 witness_blank))
       = {1, 2, 5, 6, 7, 8, 9, 10, 11, 12, 13, 14, 15}"
proof -
  have ok: "memmap_ok witness_memmap" by code_simp
  have "pmm_init witness_memmap 0xFFFF800000000000 witness_blank \<noteq> None" by code_simp
  then have "pmm_init witness_memmap 0xFFFF800000000000 witness_blank
      = Some (the (pmm_init witness_memmap 0xFFFF800000000000 witness_blank))" by simp
  note c = pmm_init_correct[OF ok this]
  have "usable_frames witness_memmap - bitmap_frames witness_memmap - {0}
      = {1, 2, 5, 6, 7, 8, 9, 10, 11, 12, 13, 14, 15}" by code_simp
  then show ?thesis using ok c by simp
qed

text \<open>
  C2. \<^verbatim>\<open>pmm_alloc\<close> returns the lowest free page and takes exactly that one out of
  the free pages, decrementing the counter; it fails with 0, changing nothing,
  exactly when no page is free.
\<close>

theorem pmm_alloc_correct:
  assumes "pmm_inv s"
  shows "if free_frames s = {} then pmm_alloc s = (PMM_ALLOC_FAILED, s)
    else \<exists>p \<in> free_frames s. (\<forall>q \<in> free_frames s. p \<le> q) \<and> p \<noteq> 0
      \<and> fst (pmm_alloc s) = p * PAGE_SIZE \<and> free_frames (snd (pmm_alloc s)) = free_frames s - {p}
      \<and> pmm_get_free_pages (snd (pmm_alloc s)) = pmm_get_free_pages s - 1
      \<and> pmm_inv (snd (pmm_alloc s))"
proof (cases "free_frames s = {}")
  case False
  obtain p where p: "p \<in> free_frames s" "\<forall>q \<in> free_frames s. p \<le> q"
    and eq: "pmm_alloc s = (p * PAGE_SIZE,
       s\<lparr>bitmap := bitmap_mark_used (bitmap s) p, free_pages := free_pages s - 1\<rparr>)"
    using pmm_alloc_Some[OF assms False] by blast
  moreover have "p \<noteq> 0" using p(1) assms by (auto simp: pmm_inv_def)
  ultimately show ?thesis
    using False pmm_inv_alloc[OF assms]
    by (auto simp: eq free_frames_alloc pmm_get_free_pages_def intro!: bexI[of _ p])
qed (simp add: pmm_alloc_None assms)

definition witness_pmm :: pmm_state where
  "witness_pmm = \<lparr>mem = (\<lambda>_. 0), g_hhdm_offset = 0xFFFF800000000000, bitmap = (\<lambda>_. 0)(0 := 0xE9),
     bitmap_size = 1, total_pages = 8, free_pages = 3, usable_pages = 4\<rparr>"

lemma witness_pmm_inv: "pmm_inv witness_pmm \<and> free_frames witness_pmm = {1, 2, 4}"
proof -
  have "free_frames witness_pmm = set (filter (\<lambda>p. \<not> bitmap_is_used (bitmap witness_pmm) p) (map of_nat [0..<8]))"
  proof -
    have "p < 8 \<longleftrightarrow> p \<in> set (map of_nat [0..<8])" for p :: u64
    proof
      assume "p < 8"
      then have "unat p < 8" by (simp add: word_less_nat_alt)
      then have "of_nat (unat p) \<in> (of_nat ` {0..<8} :: u64 set)" by (intro imageI) simp
      then show "p \<in> set (map of_nat [0..<8])" by simp
    qed (auto simp: word_less_nat_alt unat_of_nat)
    then show ?thesis by (auto simp: free_frames_def witness_pmm_def)
  qed
  also have "\<dots> = {1, 2, 4}" by code_simp
  finally have f: "free_frames witness_pmm = {1, 2, 4}" .
  have "card {1, 2, 4 :: u64} = 3" by code_simp
  moreover have "total_pages witness_pmm \<le> 2 ^ 52" "free_pages witness_pmm = 3" by code_simp+
  ultimately show ?thesis using f by (simp add: pmm_inv_def)
qed

theorem pmm_alloc_correct_witness:
  "pmm_inv witness_pmm \<and> (\<exists>p \<in> {1, 2, 4}. (\<forall>q \<in> {1, 2, 4}. p \<le> q) \<and> fst (pmm_alloc witness_pmm) = p * PAGE_SIZE)"
  using pmm_alloc_correct[of witness_pmm] witness_pmm_inv by auto

text \<open>
  C3. \<^verbatim>\<open>pmm_free\<close> gives back a page in use, and only that one. An unaligned address, an
  address outside the managed memory and a double free leave the allocator unchanged.
\<close>

theorem pmm_free_correct:
  assumes "pmm_inv s" "a \<noteq> 0"
  shows "if a \<in> owned_pages s
    then avail_pages (pmm_free a s) = insert a (avail_pages s) \<and> a \<notin> avail_pages s
      \<and> owned_pages (pmm_free a s) = owned_pages s - {a}
      \<and> pmm_get_free_pages (pmm_free a s) = pmm_get_free_pages s + 1 \<and> pmm_inv (pmm_free a s)
    else pmm_free a s = s"
proof (cases "a \<in> owned_pages s")
  case True
  have "free_pages (pmm_free a s) = free_pages s + 1"
  proof -
    have i: "pmm_inv (pmm_free a s)" using pmm.free_returns[OF assms(1) True] by simp
    have "card (avail_pages (pmm_free a s)) = Suc (card (avail_pages s))"
      using pmm_free_owned[OF assms(1) True] by (simp add: avail_pages_def)
    then show ?thesis using i assms(1) by (simp add: avail_card pmm_inv_def)
  qed
  then show ?thesis
    using True pmm_free_owned[OF assms(1) True] owned_pages_free[OF assms(1) True]
    by (simp add: pmm_get_free_pages_def)
next
  case False
  have "pmm_free a s = s"
  proof (cases "4096 dvd unat a \<and> a div PAGE_SIZE < total_pages s")
    case True
    then have "a mod PAGE_SIZE = 0" by (simp add: word_unat_eq_iff unat_mod)
    then have a: "a = a div PAGE_SIZE * PAGE_SIZE" using div_mult_mod_eq[of a PAGE_SIZE] by simp
    then have "0 < a div PAGE_SIZE" using assms(2) by (metis mult_zero_left word_gt_0)
    then have "\<not> bitmap_is_used (bitmap s) (a div PAGE_SIZE)"
      using False True a by (auto simp: owned_pages_def)
    then show ?thesis by (simp add: pmm_free_refused)
  qed (use pmm_free_refused in \<open>auto simp: not_less\<close>)
  then show ?thesis using False by simp
qed

theorem pmm_free_correct_witness:
  "0x3000 \<in> owned_pages witness_pmm \<and> avail_pages (pmm_free 0x3000 witness_pmm) = insert 0x3000 (avail_pages witness_pmm)
   \<and> pmm_free 0x3008 witness_pmm = witness_pmm"
proof -
  have o: "0x3000 \<in> owned_pages witness_pmm"
  proof -
    have "0 < (3 :: u64) \<and> (3 :: u64) < total_pages witness_pmm \<and> bitmap_is_used (bitmap witness_pmm) 3"
      by code_simp
    moreover have "(0x3000 :: u64) = 3 * PAGE_SIZE" by code_simp
    ultimately show ?thesis unfolding owned_pages_def by blast
  qed
  have "(0x3008 :: u64) \<notin> owned_pages witness_pmm"
  proof
    assume "0x3008 \<in> owned_pages witness_pmm"
    then obtain p where p: "0x3008 = p * PAGE_SIZE" "p < total_pages witness_pmm" by (auto simp: owned_pages_def)
    then have "unat p < 8" by (simp add: witness_pmm_def word_less_nat_alt)
    then have "unat (p * PAGE_SIZE) = unat p * 4096" by (simp add: unat_word_ariths)
    then have "4096 dvd unat (0x3008 :: u64)" unfolding p(1) by simp
    then show False by simp
  qed
  then show ?thesis using pmm_free_correct[of witness_pmm "0x3000"] pmm_free_correct[of witness_pmm "0x3008"]
      o witness_pmm_inv by simp
qed

text \<open>
  C4. In every run in which a client frees only pages it holds, no page is handed out
  twice: the held pages are distinct and never free at the same time, together
  with the free pages they are exactly the pages that were free at the start, and
  the counter plus the number of held pages is constant.
\<close>

theorem pmm_run_no_double_allocation:
  assumes "pmm_run s0 held s" "pmm_inv s0"
  shows "distinct held \<and> set held \<inter> avail_pages s = {} \<and> avail_pages s \<union> set held = avail_pages s0
    \<and> pmm_get_free_pages s + of_nat (length held) = pmm_get_free_pages s0"
proof -
  note r = pmm_run_inv[OF assms]
  have "card (avail_pages s) + length held = card (avail_pages s0)"
    using r card_Un_disjoint[of "avail_pages s" "set held"] distinct_card[of held] by (simp add: Int_commute)
  then have "(of_nat (card (free_frames s)) :: u64) + of_nat (length held) = of_nat (card (free_frames s0))"
    using r assms(2) by (metis avail_card of_nat_add)
  then show ?thesis using r assms(2) by (simp add: pmm_inv_def pmm_get_free_pages_def)
qed

theorem pmm_run_no_double_allocation_witness:
  "distinct [8192 :: u64, 4096] \<and> pmm_run witness_pmm [8192, 4096] (snd (pmm_alloc (snd (pmm_alloc witness_pmm))))"
proof -
  have "fst (pmm_alloc witness_pmm) = 4096" "fst (pmm_alloc (snd (pmm_alloc witness_pmm))) = 8192"
    by code_simp+
  then have a: "pmm_alloc witness_pmm = (4096, snd (pmm_alloc witness_pmm))"
    and b: "pmm_alloc (snd (pmm_alloc witness_pmm)) = (8192, snd (pmm_alloc (snd (pmm_alloc witness_pmm))))"
    by (metis prod.collapse)+
  have run: "pmm_run witness_pmm [8192, 4096] (snd (pmm_alloc (snd (pmm_alloc witness_pmm))))"
    by (rule pmm_run.alloc[OF pmm_run.alloc[OF pmm_run.start a] b]) (simp_all add: PMM_ALLOC_FAILED_def)
  show ?thesis using pmm_run_no_double_allocation[OF run] witness_pmm_inv run by simp
qed

text \<open>
  Page 0 is the exception that the client of \<^verbatim>\<open>pmm_free\<close> must avoid: freeing it is
  not refused, and the page then counts as free though \<^verbatim>\<open>pmm_alloc\<close>, whose scan starts
  at frame 1, never hands it out.
\<close>

lemma pmm_free_zero_counts_unallocatable:
  assumes "pmm_inv s" "0 < total_pages s"
  shows "pmm_get_free_pages (pmm_free 0 s) = pmm_get_free_pages s + 1"
    and "fst (pmm_alloc (pmm_free 0 s)) = fst (pmm_alloc s)"
proof -
  have u: "bitmap_is_used (bitmap s) 0" using assms by (auto simp: pmm_inv_def free_frames_def)
  then show "pmm_get_free_pages (pmm_free 0 s) = pmm_get_free_pages s + 1"
    using assms(2) by (simp add: pmm_free_def Let_def pmm_get_free_pages_def)
  have "pmm_scan (bitmap_mark_free (bitmap s) 0) i (total_pages s) = pmm_scan (bitmap s) i (total_pages s)"
    if "0 < i" for i
    using that
  proof (induction "bitmap s" i "total_pages s" rule: pmm_scan.induct)
    case (1 i)
    have "i < total_pages s \<Longrightarrow> 0 < i + 1"
      using unat_suc_less[of i "total_pages s"] by (auto simp: word_less_nat_alt)
    then show ?case using 1
      by (subst pmm_scan.simps, subst (2) pmm_scan.simps) auto
  qed
  then have "pmm_scan (bitmap_mark_free (bitmap s) 0) 1 (total_pages s) = pmm_scan (bitmap s) 1 (total_pages s)"
    by simp
  then show "fst (pmm_alloc (pmm_free 0 s)) = fst (pmm_alloc s)"
    using u assms(2) by (auto simp: pmm_free_def pmm_alloc_def Let_def split: option.splits)
qed

end
