(* ===== verification/Page.thy ===== *)
theory Page
  imports Pmm
begin

text \<open>
  Page reference counts, \<^verbatim>\<open>mm/page.c\<close>: one byte per physical page, 255 meaning
  pinned. \<open>page_info = None\<close> is the NULL pointer before \<^verbatim>\<open>page_init\<close>. The
  initialisation itself allocates from the kernel heap and is in the theory of
  the heap.
\<close>

record page_state = pmm_state +
  page_info :: "bytes option"
  max_pages :: u64

definition page_ref :: "u64 \<Rightarrow> 'a page_state_scheme \<Rightarrow> 'a page_state_scheme" where
  "page_ref phys s =
     (case page_info s of None \<Rightarrow> s
      | Some info \<Rightarrow>
          let page_num = phys div PAGE_SIZE in
          if page_num \<ge> max_pages s then s
          else if info page_num < 255
          then s\<lparr>page_info := Some (info(page_num := info page_num + 1))\<rparr> else s)"

definition page_unref :: "u64 \<Rightarrow> 'a page_state_scheme \<Rightarrow> 'a page_state_scheme" where
  "page_unref phys s =
     (case page_info s of None \<Rightarrow> s
      | Some info \<Rightarrow>
          let page_num = phys div PAGE_SIZE in
          if page_num \<ge> max_pages s then s
          else if info page_num = 0 then s
          else if info page_num = 255 then s
          else let info' = info(page_num := info page_num - 1); s' = s\<lparr>page_info := Some info'\<rparr> in
            if info' page_num = 0 then pmm_free phys s' else s')"

definition page_get_refcount :: "u64 \<Rightarrow> 'a page_state_scheme \<Rightarrow> u8" where
  "page_get_refcount phys s =
     (case page_info s of None \<Rightarrow> 0
      | Some info \<Rightarrow> let page_num = phys div PAGE_SIZE in
          if page_num \<ge> max_pages s then 0 else info page_num)"

definition page_set_refcount :: "u64 \<Rightarrow> u8 \<Rightarrow> 'a page_state_scheme \<Rightarrow> 'a page_state_scheme" where
  "page_set_refcount phys count s =
     (case page_info s of None \<Rightarrow> s
      | Some info \<Rightarrow> let page_num = phys div PAGE_SIZE in
          if page_num \<ge> max_pages s then s
          else s\<lparr>page_info := Some (info(page_num := count))\<rparr>)"

section \<open>Counting\<close>

definition page_tracked :: "u64 \<Rightarrow> 'a page_state_scheme \<Rightarrow> bool" where
  "page_tracked phys s \<longleftrightarrow> page_info s \<noteq> None \<and> phys div PAGE_SIZE < max_pages s"

lemma pmm_free_page_frame [frame_simps]:
  "page_info (pmm_free a s) = page_info s" "max_pages (pmm_free a s) = max_pages s"
  "page_state.more (pmm_free a s) = page_state.more s"
  by (simp_all add: pmm_free_def Let_def)

lemma pmm_alloc_page_frame [frame_simps]:
  "page_info (snd (pmm_alloc s)) = page_info s" "max_pages (snd (pmm_alloc s)) = max_pages s"
  "page_state.more (snd (pmm_alloc s)) = page_state.more s"
  by (simp_all add: pmm_alloc_def split: option.splits)

lemma page_tracked_ops [simp]:
  "page_tracked b (page_ref a s) = page_tracked b s"
  "page_tracked b (page_unref a s) = page_tracked b s"
  "page_tracked b (page_set_refcount a c s) = page_tracked b s"
  by (auto simp: page_tracked_def page_ref_def page_unref_def page_set_refcount_def Let_def frame_simps
      split: option.splits)

lemma page_get_set_refcount:
  "page_get_refcount b (page_set_refcount a c s) =
     (if page_tracked a s \<and> a div PAGE_SIZE = b div PAGE_SIZE then c else page_get_refcount b s)"
  by (auto simp: page_get_refcount_def page_set_refcount_def page_tracked_def Let_def split: option.splits)

text \<open>\<^verbatim>\<open>page_ref\<close> and \<^verbatim>\<open>page_unref\<close> in terms of the counter alone.\<close>

lemma page_ref_set:
  "page_ref a s = (if page_tracked a s \<and> page_get_refcount a s < 255
     then page_set_refcount a (page_get_refcount a s + 1) s else s)"
  by (auto simp: page_ref_def page_get_refcount_def page_set_refcount_def page_tracked_def Let_def
      split: option.splits)

lemma page_unref_set:
  "page_unref a s = (let r = page_get_refcount a s in
     if \<not> page_tracked a s \<or> r = 0 \<or> r = 255 then s
     else if r = 1 then pmm_free a (page_set_refcount a 0 s) else page_set_refcount a (r - 1) s)"
  by (auto simp: page_unref_def page_get_refcount_def page_set_refcount_def page_tracked_def Let_def
      split: option.splits)

lemma page_set_set [simp]:
  "page_set_refcount a c (page_set_refcount a d s) = page_set_refcount a c s"
  by (auto simp: page_set_refcount_def Let_def split: option.splits)

lemma page_set_same: "page_set_refcount a (page_get_refcount a s) s = s"
  by (auto simp: page_set_refcount_def page_get_refcount_def Let_def split: option.splits)

lemma page_ref_repeat:
  assumes "page_tracked a s" "page_get_refcount a s = 0" "k \<le> 255"
  shows "(page_ref a ^^ k) s = page_set_refcount a (of_nat k) s"
  using assms(3)
proof (induction k)
  case 0
  then show ?case using page_set_same[of a s] assms(2) by simp
next
  case (Suc k)
  have "(of_nat k :: u8) < 255" using Suc.prems by (simp add: word_less_nat_alt unat_of_nat)
  then show ?case using Suc assms(1)
    by (simp add: page_ref_set page_get_set_refcount add.commute)
qed

lemma page_unref_repeat:
  assumes "page_tracked a s" "j < k" "k < 255"
  shows "(page_unref a ^^ j) (page_set_refcount a (of_nat k) s) = page_set_refcount a (of_nat (k - j)) s"
  using assms(2)
proof (induction j)
  case (Suc j)
  have r: "unat (of_nat (k - j) :: u8) = k - j" using assms(3) by (simp add: unat_of_nat)
  have "(of_nat (k - j) :: u8) \<noteq> 0" "(of_nat (k - j) :: u8) \<noteq> 1" "(of_nat (k - j) :: u8) \<noteq> 255"
    using r Suc.prems assms(3) by (auto simp: word_unat_eq_iff)
  moreover have "k - j = Suc (k - Suc j)" using Suc.prems by simp
  then have "(of_nat (k - j) :: u8) - 1 = of_nat (k - Suc j)" by simp
  ultimately have "page_unref a (page_set_refcount a (of_nat (k - j)) s) = page_set_refcount a (of_nat (k - Suc j)) s"
    using assms(1) by (simp only: page_unref_set page_get_set_refcount Let_def page_tracked_ops page_set_set) simp
  then show ?case using Suc by simp
qed simp

section \<open>Properties\<close>

text \<open>
  C5. The life of a counted page: after \<open>k\<close> references (fewer than the pinning value 255), the
  page stays allocated under any smaller number of \<^verbatim>\<open>page_unref\<close> calls, with the
  count going down by one each, and the last one resets the count and gives the page back to
  the page allocator.
\<close>

theorem page_refcount_lifetime:
  assumes "page_tracked a s" "page_get_refcount a s = 0" "j \<le> k" "0 < k" "k < 255"
  shows "(page_unref a ^^ j) ((page_ref a ^^ k) s)
    = (if j < k then page_set_refcount a (of_nat (k - j)) s else pmm_free a s)"
proof (cases "j < k")
  case True
  then show ?thesis using assms by (simp add: page_ref_repeat page_unref_repeat)
next
  case False
  then obtain i where j: "j = Suc i" "k = Suc i" using assms(3,4) by (cases j) auto
  have "(page_unref a ^^ i) ((page_ref a ^^ k) s) = page_set_refcount a (of_nat (Suc 0)) s"
    using page_unref_repeat[OF assms(1), of i k] page_ref_repeat[OF assms(1,2), of k] assms(5) j
    by (simp del: funpow.simps of_nat_Suc)
  then show ?thesis
    using j assms(1,2) page_set_same[of a s]
    by (simp add: page_unref_set page_get_set_refcount)
qed

definition witness_page :: page_state where
  "witness_page = pmm_state.extend witness_pmm (page_state.fields (Some (\<lambda>_. 0)) 8)"

theorem page_refcount_lifetime_witness:
  "page_get_refcount 0x3000 ((page_unref 0x3000 ^^ 1) ((page_ref 0x3000 ^^ 2) witness_page)) = 1
   \<and> (page_unref 0x3000 ^^ 2) ((page_ref 0x3000 ^^ 2) witness_page) = pmm_free 0x3000 witness_page"
proof -
  have t: "page_tracked 0x3000 witness_page" "page_get_refcount 0x3000 witness_page = 0" by code_simp+
  have "(2 :: nat) < 255" "(1 :: nat) \<le> 2" "(0 :: nat) < 2" by simp_all
  then show ?thesis
    using page_refcount_lifetime[OF t, of 1 2] page_refcount_lifetime[OF t, of 2 2] t(1)
    by (simp add: page_get_set_refcount del: funpow.simps)
qed

text \<open>
  A pinned page is never given back, whatever the number of releases.
\<close>

lemma page_pinned_stays: "page_get_refcount a s = 255 \<Longrightarrow> (page_unref a ^^ n) s = s"
  by (induction n) (simp_all add: page_unref_set Let_def)

end
