(* ===== verification/Vmm.thy ===== *)
theory Vmm
  imports Page
begin

text \<open>
  The virtual memory manager, \<^verbatim>\<open>mm/vmm.c\<close>: four-level page tables in physical
  memory, reached through the direct map. A table is the physical address of
  its page and entry \<open>i\<close> is the 64-bit little-endian word at \<open>8 * i\<close> in it.

  The three blocks of \<^verbatim>\<open>vmm_map_page\<close> that descend one level, allocating the
  next table when it is missing, are the definition \<open>next_table\<close>; the nested loops of
  \<^verbatim>\<open>vmm_free_user_address_space\<close> and \<^verbatim>\<open>vmm_copy_address_space_cow\<close> share one
  definition per kind of loop (\<open>free_entries\<close>, \<open>copy_entries\<close>), which the levels
  instantiate with the loop of the level below. TLB invalidation has no counterpart: the model reads the tables
  themselves.
\<close>

section \<open>State, flags and indices\<close>

record vmm_state = page_state +
  kernel_pml4_phys :: u64
  cr3 :: u64

definition PTE_PRESENT :: u64 where "PTE_PRESENT = 1"
definition PTE_WRITABLE :: u64 where "PTE_WRITABLE = 2"
definition PTE_USER :: u64 where "PTE_USER = 4"
definition PTE_HUGE :: u64 where "PTE_HUGE = 0x80"
definition PTE_COW :: u64 where "PTE_COW = 0x200"
definition PTE_NX :: u64 where "PTE_NX = 0x8000000000000000"
definition PTE_ADDR_MASK :: u64 where "PTE_ADDR_MASK = 0x000FFFFFFFFFF000"

definition USER_SPACE_TOP :: u64 where "USER_SPACE_TOP = 0x0000800000000000"
definition KERNEL_PML4_START :: nat where "KERNEL_PML4_START = 256"
definition PAGE_TABLE_ENTRIES :: nat where "PAGE_TABLE_ENTRIES = 512"
definition PAGE_TABLE_ENTRIES_USER :: nat where "PAGE_TABLE_ENTRIES_USER = 256"

definition PML4_INDEX :: "u64 \<Rightarrow> u64" where "PML4_INDEX va = drop_bit 39 va AND 0x1FF"
definition PDPT_INDEX :: "u64 \<Rightarrow> u64" where "PDPT_INDEX va = drop_bit 30 va AND 0x1FF"
definition PD_INDEX :: "u64 \<Rightarrow> u64" where "PD_INDEX va = drop_bit 21 va AND 0x1FF"
definition PT_INDEX :: "u64 \<Rightarrow> u64" where "PT_INDEX va = drop_bit 12 va AND 0x1FF"

text \<open>Reading and writing \<^verbatim>\<open>table[i]\<close> through the direct map.\<close>

definition get_entry :: "'a pmm_state_scheme \<Rightarrow> u64 \<Rightarrow> u64 \<Rightarrow> u64" where
  "get_entry s table i = load64 (mem s) (table + 8 * i)"

definition set_entry :: "u64 \<Rightarrow> u64 \<Rightarrow> u64 \<Rightarrow> 'a pmm_state_scheme \<Rightarrow> 'a pmm_state_scheme" where
  "set_entry table i v s = s\<lparr>mem := store64 (mem s) (table + 8 * i) v\<rparr>"

definition present :: "u64 \<Rightarrow> bool" where
  "present e \<longleftrightarrow> e AND PTE_PRESENT \<noteq> 0"

section \<open>Operations\<close>

definition zero_table :: "u64 \<Rightarrow> 'a pmm_state_scheme \<Rightarrow> 'a pmm_state_scheme" where
  "zero_table table s = fold (\<lambda>i. set_entry table (of_nat i) 0) [0..<PAGE_TABLE_ENTRIES] s"

definition alloc_page_table :: "'a pmm_state_scheme \<Rightarrow> u64 \<times> 'a pmm_state_scheme" where
  "alloc_page_table s =
     (let (phys, s1) = pmm_alloc s in
      if phys = PMM_ALLOC_FAILED then (0, s1) else (phys, zero_table phys s1))"

definition vmm_validate_user_range :: "u64 \<Rightarrow> u64 \<Rightarrow> bool" where
  "vmm_validate_user_range addr len =
     (if addr = 0 then False
      else if addr \<ge> USER_SPACE_TOP then False
      else if len = 0 then False
      else let end = addr + len in
        if end < addr \<or> end > USER_SPACE_TOP then False else True)"

definition vmm_get_physical :: "u64 \<Rightarrow> u64 \<Rightarrow> 'a pmm_state_scheme \<Rightarrow> u64" where
  "vmm_get_physical pml4 virt s =
     (let e4 = get_entry s pml4 (PML4_INDEX virt) in
      if \<not> present e4 then 0
      else let pdpt = e4 AND PTE_ADDR_MASK; e3 = get_entry s pdpt (PDPT_INDEX virt) in
      if \<not> present e3 then 0
      else let pd = e3 AND PTE_ADDR_MASK; e2 = get_entry s pd (PD_INDEX virt) in
      if \<not> present e2 then 0
      else let pt = e2 AND PTE_ADDR_MASK; e1 = get_entry s pt (PT_INDEX virt) in
      if \<not> present e1 then 0
      else e1 AND PTE_ADDR_MASK)"

definition vmm_get_pte_flags :: "u64 \<Rightarrow> u64 \<Rightarrow> 'a pmm_state_scheme \<Rightarrow> u64" where
  "vmm_get_pte_flags pml4 virt s =
     (let e4 = get_entry s pml4 (PML4_INDEX virt) in
      if \<not> present e4 then 0
      else let pdpt = e4 AND PTE_ADDR_MASK; e3 = get_entry s pdpt (PDPT_INDEX virt) in
      if \<not> present e3 then 0
      else let pd = e3 AND PTE_ADDR_MASK; e2 = get_entry s pd (PD_INDEX virt) in
      if \<not> present e2 then 0
      else let pt = e2 AND PTE_ADDR_MASK; e1 = get_entry s pt (PT_INDEX virt) in
      if \<not> present e1 then 0
      else e1 AND NOT PTE_ADDR_MASK)"

definition vmm_set_pte_flags ::
  "u64 \<Rightarrow> u64 \<Rightarrow> u64 \<Rightarrow> 'a pmm_state_scheme \<Rightarrow> int \<times> 'a pmm_state_scheme" where
  "vmm_set_pte_flags pml4 virt flags s =
     (let e4 = get_entry s pml4 (PML4_INDEX virt) in
      if \<not> present e4 then (-1, s)
      else let pdpt = e4 AND PTE_ADDR_MASK; e3 = get_entry s pdpt (PDPT_INDEX virt) in
      if \<not> present e3 then (-1, s)
      else let pd = e3 AND PTE_ADDR_MASK; e2 = get_entry s pd (PD_INDEX virt) in
      if \<not> present e2 then (-1, s)
      else let pt = e2 AND PTE_ADDR_MASK; e1 = get_entry s pt (PT_INDEX virt) in
      if \<not> present e1 then (-1, s)
      else let phys = e1 AND PTE_ADDR_MASK in
        (0, set_entry pt (PT_INDEX virt) (phys OR flags) s))"

definition vmm_unmap_page :: "u64 \<Rightarrow> u64 \<Rightarrow> 'a pmm_state_scheme \<Rightarrow> int \<times> 'a pmm_state_scheme" where
  "vmm_unmap_page pml4 virt s =
     (let e4 = get_entry s pml4 (PML4_INDEX virt) in
      if \<not> present e4 then (-1, s)
      else let pdpt = e4 AND PTE_ADDR_MASK; e3 = get_entry s pdpt (PDPT_INDEX virt) in
      if \<not> present e3 then (-1, s)
      else if e3 AND PTE_HUGE \<noteq> 0 then (-1, s)
      else let pd = e3 AND PTE_ADDR_MASK; e2 = get_entry s pd (PD_INDEX virt) in
      if \<not> present e2 then (-1, s)
      else if e2 AND PTE_HUGE \<noteq> 0 then (-1, s)
      else let pt = e2 AND PTE_ADDR_MASK in
        (0, set_entry pt (PT_INDEX virt) 0 s))"

text \<open>
  The page loop of \<^verbatim>\<open>user_range_check\<close>. It would not end for an \<open>end\<close> in the last page of the
  address space, so it is a partial function; the range is validated first.
\<close>

partial_function (option) user_range_loop ::
  "u64 \<Rightarrow> u64 \<Rightarrow> u64 \<Rightarrow> u64 \<Rightarrow> u64 \<Rightarrow> 'a pmm_state_scheme \<Rightarrow> bool option" where
  [code]: "user_range_loop pml4 va end require alt s =
     (if va < end
      then let flags = vmm_get_pte_flags pml4 va s in
        if flags AND PTE_PRESENT = 0 then Some False
        else if flags AND PTE_USER = 0 then Some False
        else if require \<noteq> 0 \<and> flags AND require = 0 \<and> \<not> (alt \<noteq> 0 \<and> flags AND alt \<noteq> 0) then Some False
        else user_range_loop pml4 (va + PAGE_SIZE) end require alt s
      else Some True)"

definition user_range_check ::
  "u64 \<Rightarrow> u64 \<Rightarrow> u64 \<Rightarrow> u64 \<Rightarrow> u64 \<Rightarrow> 'a pmm_state_scheme \<Rightarrow> bool option" where
  "user_range_check pml4 ptr len require alt s =
     (if \<not> vmm_validate_user_range ptr len then Some False
      else user_range_loop pml4 (ptr AND NOT (PAGE_SIZE - 1)) (ptr + len) require alt s)"

definition vmm_user_range_readable :: "u64 \<Rightarrow> u64 \<Rightarrow> u64 \<Rightarrow> 'a pmm_state_scheme \<Rightarrow> bool option" where
  "vmm_user_range_readable pml4 ptr len s = user_range_check pml4 ptr len 0 0 s"

definition vmm_user_range_writable :: "u64 \<Rightarrow> u64 \<Rightarrow> u64 \<Rightarrow> 'a pmm_state_scheme \<Rightarrow> bool option" where
  "vmm_user_range_writable pml4 ptr len s = user_range_check pml4 ptr len PTE_WRITABLE PTE_COW s"

text \<open>
  One level of the descent of \<^verbatim>\<open>vmm_map_page\<close>: the next table, and the newly allocated one
  (\<^verbatim>\<open>new_*_phys\<close>) or 0. \<open>None\<close> is a failed allocation.
\<close>

definition intermediate_flags :: "u64 \<Rightarrow> u64" where
  "intermediate_flags flags =
     (let f = PTE_PRESENT OR PTE_WRITABLE in if flags AND PTE_USER \<noteq> 0 then f OR PTE_USER else f)"

definition next_table ::
  "u64 \<Rightarrow> u64 \<Rightarrow> u64 \<Rightarrow> 'a pmm_state_scheme \<Rightarrow> (u64 \<times> u64) option \<times> 'a pmm_state_scheme" where
  "next_table table idx flags s =
     (let e = get_entry s table idx in
      if present e
      then (Some (e AND PTE_ADDR_MASK, 0),
            if flags AND PTE_USER \<noteq> 0 \<and> e AND PTE_USER = 0
            then set_entry table idx (e OR PTE_USER) s else s)
      else let (new_phys, s1) = alloc_page_table s in
        if new_phys = 0 then (None, s1)
        else (Some (new_phys, new_phys), set_entry table idx (new_phys OR intermediate_flags flags) s1))"

text \<open>Undoing a fresh table on the failure paths.\<close>

definition drop_table :: "u64 \<Rightarrow> u64 \<Rightarrow> u64 \<Rightarrow> 'a pmm_state_scheme \<Rightarrow> 'a pmm_state_scheme" where
  "drop_table table idx new_phys s =
     (if new_phys \<noteq> 0 then pmm_free new_phys (set_entry table idx 0 s) else s)"

definition vmm_map_page ::
  "u64 \<Rightarrow> u64 \<Rightarrow> u64 \<Rightarrow> u64 \<Rightarrow> 'a pmm_state_scheme \<Rightarrow> int \<times> 'a pmm_state_scheme" where
  "vmm_map_page pml4 virt phys flags s =
     (let pml4_idx = PML4_INDEX virt; pdpt_idx = PDPT_INDEX virt;
          pd_idx = PD_INDEX virt; pt_idx = PT_INDEX virt in
      case next_table pml4 pml4_idx flags s of
        (None, s1) \<Rightarrow> (-1, s1)
      | (Some (pdpt, new_pdpt_phys), s1) \<Rightarrow>
      (case next_table pdpt pdpt_idx flags s1 of
        (None, s2) \<Rightarrow> (-1, drop_table pml4 pml4_idx new_pdpt_phys s2)
      | (Some (pd, new_pd_phys), s2) \<Rightarrow>
      (case next_table pd pd_idx flags s2 of
        (None, s3) \<Rightarrow>
          (-1, drop_table pml4 pml4_idx new_pdpt_phys (drop_table pdpt pdpt_idx new_pd_phys s3))
      | (Some (pt, _), s3) \<Rightarrow>
          (0, set_entry pt pt_idx ((phys AND PTE_ADDR_MASK) OR flags) s3))))"

definition vmm_init :: "'a vmm_state_scheme \<Rightarrow> 'a vmm_state_scheme" where
  "vmm_init s = s\<lparr>kernel_pml4_phys := cr3 s AND PTE_ADDR_MASK\<rparr>"

definition vmm_switch_address_space :: "u64 \<Rightarrow> 'a vmm_state_scheme \<Rightarrow> 'a vmm_state_scheme" where
  "vmm_switch_address_space pml4 s = s\<lparr>cr3 := pml4\<rparr>"

definition vmm_get_kernel_pml4 :: "'a vmm_state_scheme \<Rightarrow> u64" where
  "vmm_get_kernel_pml4 s = kernel_pml4_phys s"

text \<open>The copy of the kernel half (entries 256 to 511).\<close>

definition copy_kernel_half :: "u64 \<Rightarrow> u64 \<Rightarrow> 'a pmm_state_scheme \<Rightarrow> 'a pmm_state_scheme" where
  "copy_kernel_half src dst s =
     fold (\<lambda>i s. set_entry dst (of_nat i) (get_entry s src (of_nat i)) s)
       [KERNEL_PML4_START..<PAGE_TABLE_ENTRIES] s"

text \<open>With no page for the PML4 the kernel panics, which halts the processor: there is no result.\<close>

definition vmm_create_address_space :: "'a vmm_state_scheme \<Rightarrow> (u64 \<times> 'a vmm_state_scheme) option" where
  "vmm_create_address_space s =
     (let (new_pml4, s1) = alloc_page_table s in
      if new_pml4 = 0 then None
      else Some (new_pml4, copy_kernel_half (kernel_pml4_phys s1) new_pml4 s1))"

text \<open>Releasing an address space: every mapped page, then its tables bottom-up.\<close>

definition free_pt :: "u64 \<Rightarrow> 'a pmm_state_scheme \<Rightarrow> 'a pmm_state_scheme" where
  "free_pt pt s =
     fold (\<lambda>l s. let e = get_entry s pt (of_nat l) in
             if present e then pmm_free (e AND PTE_ADDR_MASK) s else s)
       [0..<PAGE_TABLE_ENTRIES] s"

definition free_entries ::
  "nat \<Rightarrow> (u64 \<Rightarrow> 'a pmm_state_scheme \<Rightarrow> 'a pmm_state_scheme) \<Rightarrow> u64 \<Rightarrow> 'a pmm_state_scheme
     \<Rightarrow> 'a pmm_state_scheme" where
  "free_entries n free_next table s =
     fold (\<lambda>i s. if \<not> present (get_entry s table (of_nat i)) then s
             else let s1 = free_next (get_entry s table (of_nat i) AND PTE_ADDR_MASK) s in
               pmm_free (get_entry s1 table (of_nat i) AND PTE_ADDR_MASK) s1)
       [0..<n] s"

definition vmm_free_user_address_space :: "u64 \<Rightarrow> 'a pmm_state_scheme \<Rightarrow> 'a pmm_state_scheme" where
  "vmm_free_user_address_space pml4 s =
     pmm_free pml4
       (free_entries PAGE_TABLE_ENTRIES_USER
         (free_entries PAGE_TABLE_ENTRIES (free_entries PAGE_TABLE_ENTRIES free_pt)) pml4 s)"

text \<open>
  The copy-on-write copy. The loops carry a flag that is \<open>False\<close> once an allocation
  has failed (\<^verbatim>\<open>goto fail\<close>); the remaining iterations then do nothing.
\<close>

definition cow_flags :: "u64 \<Rightarrow> u64" where
  "cow_flags flags =
     (if flags AND PTE_WRITABLE \<noteq> 0 then (flags AND NOT PTE_WRITABLE) OR PTE_COW else flags)"

definition copy_pte :: "u64 \<Rightarrow> u64 \<Rightarrow> u64 \<Rightarrow> 'a page_state_scheme \<Rightarrow> 'a page_state_scheme" where
  "copy_pte src_pt dst_pt l s =
     (let pte = get_entry s src_pt l in
      if \<not> present pte then s
      else let phys_addr = pte AND PTE_ADDR_MASK;
               new_flags = cow_flags (pte AND NOT PTE_ADDR_MASK);
               s1 = set_entry src_pt l (phys_addr OR new_flags) s;
               s2 = set_entry dst_pt l (phys_addr OR new_flags) s1
           in page_ref phys_addr s2)"

definition copy_pt :: "u64 \<Rightarrow> u64 \<Rightarrow> 'a page_state_scheme \<Rightarrow> bool \<times> 'a page_state_scheme" where
  "copy_pt src_pt dst_pt s =
     (True, fold (\<lambda>l. copy_pte src_pt dst_pt (of_nat l)) [0..<PAGE_TABLE_ENTRIES] s)"

definition copy_entry ::
  "(u64 \<Rightarrow> u64 \<Rightarrow> 'a page_state_scheme \<Rightarrow> bool \<times> 'a page_state_scheme) \<Rightarrow> u64 \<Rightarrow> u64 \<Rightarrow> u64
     \<Rightarrow> 'a page_state_scheme \<Rightarrow> bool \<times> 'a page_state_scheme" where
  "copy_entry copy_next src dst i s =
     (if \<not> present (get_entry s src i) then (True, s)
      else let (dst_next, s1) = alloc_page_table s in
        if dst_next = 0 then (False, s1)
        else let s2 = set_entry dst i (dst_next OR (get_entry s1 src i AND NOT PTE_ADDR_MASK)) s1 in
          copy_next (get_entry s2 src i AND PTE_ADDR_MASK) dst_next s2)"

definition copy_entries ::
  "nat \<Rightarrow> (u64 \<Rightarrow> u64 \<Rightarrow> 'a page_state_scheme \<Rightarrow> bool \<times> 'a page_state_scheme) \<Rightarrow> u64 \<Rightarrow> u64
     \<Rightarrow> 'a page_state_scheme \<Rightarrow> bool \<times> 'a page_state_scheme" where
  "copy_entries n copy_next src dst s =
     fold (\<lambda>i (ok, s). if ok then copy_entry copy_next src dst (of_nat i) s else (False, s))
       [0..<n] (True, s)"

definition vmm_copy_address_space_cow :: "u64 \<Rightarrow> 'a page_state_scheme \<Rightarrow> u64 \<times> 'a page_state_scheme" where
  "vmm_copy_address_space_cow src_pml4 s =
     (let (dst_pml4, s1) = alloc_page_table s in
      if dst_pml4 = 0 then (0, s1)
      else let s2 = copy_kernel_half src_pml4 dst_pml4 s1;
               (ok, s3) = copy_entries PAGE_TABLE_ENTRIES_USER
                 (copy_entries PAGE_TABLE_ENTRIES (copy_entries PAGE_TABLE_ENTRIES copy_pt))
                 src_pml4 dst_pml4 s2
           in if ok then (dst_pml4, s3) else (0, vmm_free_user_address_space dst_pml4 s3))"

end
