(* ===== verification/Vmm_Tables.thy ===== *)
theory Vmm_Tables
  imports Vmm
begin

text \<open>
  The tree of page tables behind \<^verbatim>\<open>mm/vmm.c\<close>. Physical memory is abstracted to a
  function from table page and index to entry (\<open>tabs\<close>); \<open>walk\<close> follows a list of
  indices from a PML4 and \<open>pte\<close> is the leaf entry at the end of four. The well-formedness \<open>pt_wf\<close> (no table
  reached twice, no table available to the allocator) is what makes a change of one
  entry affect only the addresses below it; the lemmas state this for each
  kind of change the code makes: relabelling, linking a fresh table, cutting a table off, writing a leaf.
\<close>

section \<open>The tables as a function\<close>

abbreviation page_addr :: "u64 \<Rightarrow> bool" where
  "page_addr a \<equiv> 4096 dvd unat a"

text \<open>
  The abstraction of physical memory the proofs work with: entry \<open>i\<close> of the
  table in page \<open>t\<close>, restricted to page addresses and the 512 entries.
\<close>

definition tabs :: "'a pmm_state_scheme \<Rightarrow> u64 \<Rightarrow> u64 \<Rightarrow> u64" where
  "tabs s t i = (if page_addr t \<and> i < 512 then get_entry s t i else 0)"

lemma page_addr_room:
  assumes "page_addr a" "n < 4096"
  shows "unat a + n < 2 ^ 64"
proof -
  obtain q where q: "unat a = 4096 * q" using assms(1) by auto
  then have "4096 * q < 4096 * 4503599627370496" using unat_u64_less[of a] by simp
  then have "q < 4503599627370496" by simp
  then show ?thesis using q assms(2) by simp
qed

lemma entry_offset:
  assumes "page_addr t" "i < 512" "k < 8"
  shows "unat (t + 8 * i + of_nat k) = unat t + 8 * unat i + k"
proof -
  have i: "unat i < 512" using assms(2) by (simp add: word_less_nat_alt)
  have "t + 8 * i + of_nat k = t + of_nat (8 * unat i + k)" by simp
  moreover have "unat t + (8 * unat i + k) < 2 ^ 64"
    using i assms(3) by (intro page_addr_room[OF assms(1)]) simp
  ultimately show ?thesis using unat_plus_offset[of t "8 * unat i + k"] by (simp add: add.assoc)
qed

lemma entry_addr_unat:
  "page_addr t \<Longrightarrow> i < 512 \<Longrightarrow> unat (t + 8 * i) = unat t + 8 * unat i"
  using entry_offset[of t i 0] by simp

lemma entry_addr_inj:
  assumes "page_addr t" "page_addr u" "i < 512" "j < 512"
  shows "t + 8 * i = u + 8 * j \<longleftrightarrow> t = u \<and> i = j"
proof
  assume "t + 8 * i = u + 8 * j"
  then have eq: "unat t + 8 * unat i = unat u + 8 * unat j"
    using entry_addr_unat[OF assms(1,3)] entry_addr_unat[OF assms(2,4)] by simp
  have "unat i < 512" "unat j < 512" using assms(3,4) by (simp_all add: word_less_nat_alt)
  then have "unat t = unat u" using eq assms(1,2) by (auto elim!: dvdE)
  then show "t = u \<and> i = j" using eq by (simp add: word_unat_eq_iff)
qed simp

lemma entry_addr_aligned: "page_addr t \<Longrightarrow> i < 512 \<Longrightarrow> (t + 8 * i) AND 7 = 0"
  by (auto simp: aligned8_iff entry_addr_unat intro: dvd_trans[of 8 4096] dvd_add)

lemma get_set_entry:
  assumes "page_addr t" "page_addr u" "i < 512" "j < 512"
  shows "get_entry (set_entry t i v s) u j = (if u = t \<and> j = i then v else get_entry s u j)"
  using entry_addr_inj[OF assms] entry_addr_aligned[OF assms(1,3)] entry_addr_aligned[OF assms(2,4)]
  by (auto simp: get_entry_def set_entry_def load64_store64_other)

lemma tabs_set_entry:
  assumes "page_addr t" "i < 512"
  shows "tabs (set_entry t i v s) = (tabs s)(t := (tabs s t)(i := v))"
  using assms by (intro ext) (auto simp add: tabs_def get_set_entry)

lemma tabs_cong: "mem s = mem s' \<Longrightarrow> tabs s = tabs s'"
  by (intro ext) (simp add: tabs_def get_entry_def)

lemma small_index: "i < 512 \<Longrightarrow> (of_nat i :: u64) < 512"
  by (simp add: word_less_nat_alt unat_of_nat)

lemma tabs_set_entries:
  assumes "page_addr t" "n \<le> 512"
  shows "tabs (fold (\<lambda>i. set_entry t (of_nat i) 0) [0..<n] s)
    = (tabs s)(t := \<lambda>i. if unat i < n then 0 else tabs s t i)"
  using assms(2)
proof (induction n)
  case (Suc n)
  then have "(unat i < Suc n) = (unat i < n \<or> i = of_nat n)" for i :: u64
    by (auto simp: word_unat_eq_iff unat_of_nat less_Suc_eq)
  then show ?case using Suc
    by (simp add: tabs_set_entry[OF assms(1)] small_index fun_eq_iff)
qed simp

lemma tabs_zero_table:
  assumes "page_addr t"
  shows "tabs (zero_table t s) = (tabs s)(t := \<lambda>_. 0)"
  unfolding zero_table_def PAGE_TABLE_ENTRIES_def tabs_set_entries[OF assms order.refl]
  by (auto simp: fun_eq_iff tabs_def word_less_nat_alt)

lemma tabs_copy_kernel_half:
  assumes "page_addr src" "page_addr dst" "src \<noteq> dst"
  shows "tabs (copy_kernel_half src dst s)
    = (tabs s)(dst := \<lambda>i. if 256 \<le> i then tabs s src i else tabs s dst i)"
proof -
  have "tabs (fold (\<lambda>i s. set_entry dst (of_nat i) (get_entry s src (of_nat i)) s) [256..<n] s)
    = (tabs s)(dst := \<lambda>i. if 256 \<le> i \<and> unat i < n then tabs s src i else tabs s dst i)"
    if "256 \<le> n" "n \<le> 512" for n
    using that
  proof (induction n rule: dec_induct)
    case (step n)
    let ?s = "fold (\<lambda>i s. set_entry dst (of_nat i) (get_entry s src (of_nat i)) s) [256..<n] s"
    have "get_entry ?s src (of_nat n) = tabs ?s src (of_nat n)"
      using assms(1) step(2) step.prems by (simp add: tabs_def small_index)
    moreover have "(256 \<le> i \<and> unat i < Suc n) = (256 \<le> i \<and> unat i < n \<or> i = of_nat n)" for i :: u64
      using step by (auto simp: word_unat_eq_iff unat_of_nat less_Suc_eq word_le_nat_alt)
    ultimately show ?case using step assms
      by (simp add: tabs_set_entry small_index fun_eq_iff)
  qed (auto simp: fun_eq_iff word_le_nat_alt)
  moreover have "256 \<le> (512 :: nat)" "(512 :: nat) \<le> 512" by simp_all
  ultimately have "tabs (copy_kernel_half src dst s)
      = (tabs s)(dst := \<lambda>i. if 256 \<le> i \<and> unat i < 512 then tabs s src i else tabs s dst i)"
    unfolding copy_kernel_half_def KERNEL_PML4_START_def PAGE_TABLE_ENTRIES_def by blast
  then show ?thesis by (auto simp: fun_eq_iff tabs_def word_less_nat_alt)
qed

section \<open>Walks\<close>

fun walk :: "(u64 \<Rightarrow> u64 \<Rightarrow> u64) \<Rightarrow> u64 \<Rightarrow> u64 list \<Rightarrow> u64 option" where
  "walk T t [] = Some t"
| "walk T t (i # is) = (if present (T t i) then walk T (T t i AND PTE_ADDR_MASK) is else None)"

definition vpath :: "u64 \<Rightarrow> u64 list" where
  "vpath va = [PML4_INDEX va, PDPT_INDEX va, PD_INDEX va]"

definition vidx :: "u64 \<Rightarrow> u64 list" where
  "vidx va = vpath va @ [PT_INDEX va]"

text \<open>The leaf entry for a list of four indices, 0 when an intermediate table is missing.\<close>

definition pte :: "(u64 \<Rightarrow> u64 \<Rightarrow> u64) \<Rightarrow> u64 \<Rightarrow> u64 list \<Rightarrow> u64" where
  "pte T r ix = (case walk T r (butlast ix) of None \<Rightarrow> 0 | Some pt \<Rightarrow> T pt (last ix))"

lemma present_0 [simp]: "\<not> present 0"
  by (simp add: present_def)

lemma index_small [simp]:
  "PML4_INDEX va < 512" "PDPT_INDEX va < 512" "PD_INDEX va < 512" "PT_INDEX va < 512"
proof -
  have "x AND 0x1FF < 512" for x :: u64
  proof -
    have "x AND 0x1FF = take_bit 9 x" by (simp add: take_bit_eq_mask mask_eq_exp_minus_1)
    then have "unat (x AND 0x1FF) = unat x mod 512" by (simp add: unsigned_take_bit_eq take_bit_nat_def)
    then show ?thesis by (simp add: word_less_nat_alt)
  qed
  then show "PML4_INDEX va < 512" "PDPT_INDEX va < 512" "PD_INDEX va < 512" "PT_INDEX va < 512"
    by (simp_all add: PML4_INDEX_def PDPT_INDEX_def PD_INDEX_def PT_INDEX_def)
qed

lemma mask_page_addr [simp]: "page_addr (e AND PTE_ADDR_MASK)"
proof -
  have "(e AND PTE_ADDR_MASK) AND (PAGE_SIZE - 1) = 0"
    by (simp add: PTE_ADDR_MASK_def PAGE_SIZE_def and.assoc)
  then show ?thesis by (simp add: page_aligned_iff)
qed

lemma walk_append: "walk T t (p @ q) = Option.bind (walk T t p) (\<lambda>u. walk T u q)"
  by (induction p arbitrary: t) auto

lemma walk_page_addr: "walk T t p = Some u \<Longrightarrow> page_addr t \<Longrightarrow> page_addr u"
  by (induction p arbitrary: t) (auto split: if_splits)

lemma get_entry_tabs: "page_addr t \<Longrightarrow> i < 512 \<Longrightarrow> get_entry s t i = tabs s t i"
  by (simp add: tabs_def)

lemma vmm_get_physical_pte:
  assumes "page_addr r"
  shows "vmm_get_physical r va s =
    (let e = pte (tabs s) r (vidx va) in if present e then e AND PTE_ADDR_MASK else 0)"
  using assms by (simp add: vmm_get_physical_def pte_def vidx_def vpath_def Let_def get_entry_tabs)

lemma vmm_get_pte_flags_pte:
  assumes "page_addr r"
  shows "vmm_get_pte_flags r va s =
    (let e = pte (tabs s) r (vidx va) in if present e then e AND NOT PTE_ADDR_MASK else 0)"
  using assms by (simp add: vmm_get_pte_flags_def pte_def vidx_def vpath_def Let_def get_entry_tabs)

section \<open>Well-formed table trees\<close>

text \<open>
  A set \<open>D\<close> of top-level slots (PML4 page and index) names the part of the tables a
  statement is about: the user halves of all address spaces, or the slots of
  the kernel heap. Within it every table page is reached along one path only and is
  never a page the allocator may hand out.
\<close>

definition on_path :: "(u64 \<times> u64) set \<Rightarrow> u64 \<Rightarrow> u64 list \<Rightarrow> bool" where
  "on_path D r p \<longleftrightarrow> length p \<le> 3 \<and> (\<forall>i \<in> set p. i < 512)
     \<and> (case p of [] \<Rightarrow> r \<in> fst ` D | i # _ \<Rightarrow> (r, i) \<in> D)"

definition pt_wf :: "(u64 \<times> u64) set \<Rightarrow> u64 set \<Rightarrow> (u64 \<Rightarrow> u64 \<Rightarrow> u64) \<Rightarrow> bool" where
  "pt_wf D A T \<longleftrightarrow>
     (\<forall>r p r' p' t. on_path D r p \<longrightarrow> on_path D r' p' \<longrightarrow> walk T r p = Some t \<longrightarrow> walk T r' p' = Some t
        \<longrightarrow> r = r' \<and> p = p')
     \<and> (\<forall>r p t. on_path D r p \<longrightarrow> walk T r p = Some t \<longrightarrow> page_addr t \<and> t \<notin> A)"

definition vm_inv :: "(u64 \<times> u64) set \<Rightarrow> 'a pmm_state_scheme \<Rightarrow> bool" where
  "vm_inv D s \<longleftrightarrow> pmm_inv s \<and> total_pages s \<le> 2 ^ 40 \<and> pt_wf D (avail_pages s) (tabs s)"

text \<open>The user half of an address space.\<close>

definition user_slots :: "u64 \<Rightarrow> (u64 \<times> u64) set" where
  "user_slots r = {(r, i) | i. i < 256}"

lemma pt_wfD:
  assumes "pt_wf D A T" "on_path D r p" "walk T r p = Some t"
  shows "page_addr t" "t \<notin> A"
    and "on_path D r' p' \<Longrightarrow> walk T r' p' = Some t \<Longrightarrow> r' = r \<and> p' = p"
  using assms unfolding pt_wf_def by blast+

lemma on_path_snoc: "on_path D r (p @ [i]) \<Longrightarrow> on_path D r p \<and> i < 512 \<and> length p \<le> 2"
  by (cases p) (auto simp: on_path_def image_iff intro: bexI[of _ "(r, i)"])

definition on_leaf :: "(u64 \<times> u64) set \<Rightarrow> u64 \<Rightarrow> u64 list \<Rightarrow> bool" where
  "on_leaf D r ix \<longleftrightarrow> length ix = 4 \<and> (\<forall>i \<in> set ix. i < 512) \<and> (r, hd ix) \<in> D"

lemma on_leaf_path: "on_leaf D r ix \<Longrightarrow> on_path D r (butlast ix) \<and> length (butlast ix) = 3 \<and> last ix < 512"
  by (cases ix) (auto simp: on_leaf_def on_path_def dest: in_set_butlastD split: list.splits)

lemma on_leaf_snoc: "on_path D r p \<Longrightarrow> length p = 3 \<Longrightarrow> i < 512 \<Longrightarrow> on_leaf D r (p @ [i])"
  by (cases p) (auto simp: on_leaf_def on_path_def)

lemma on_leaf_vidx: "(r, PML4_INDEX va) \<in> D \<Longrightarrow> on_leaf D r (vidx va)"
  by (simp add: on_leaf_def vidx_def vpath_def)

lemma on_path_vpath: "(r, PML4_INDEX va) \<in> D \<Longrightarrow> on_path D r (vpath va)"
  by (simp add: on_path_def vpath_def)

lemma leaf_eq_iff: "length ix = 4 \<Longrightarrow> ix = p @ [i] \<longleftrightarrow> butlast ix = p \<and> last ix = i"
  by (cases ix rule: rev_cases) auto

lemma walk_snoc:
  "walk T r (p @ [i]) = (case walk T r p of None \<Rightarrow> None
     | Some t \<Rightarrow> if present (T t i) then Some (T t i AND PTE_ADDR_MASK) else None)"
  by (auto simp: walk_append split: option.splits)

text \<open>Changing an entry without changing where it leads.\<close>

lemma walk_relabel:
  assumes "present v = present (T t i)" "v AND PTE_ADDR_MASK = T t i AND PTE_ADDR_MASK"
  shows "walk (T(t := (T t)(i := v))) r q = walk T r q"
  using assms by (induction q arbitrary: r) auto

text \<open>Changing a page that is no table.\<close>

lemma walk_other_page:
  assumes wf: "pt_wf D A T" and a: "a \<in> A" and q: "on_path D r q"
  shows "walk (T(a := f)) r q = walk T r q"
  using q
proof (induction q rule: rev_induct)
  case (snoc j q)
  note pq = on_path_snoc[OF snoc.prems]
  show ?case
  proof (cases "walk T r q")
    case (Some t)
    then have "t \<noteq> a" using pt_wfD(2)[OF wf _ Some] pq a by blast
    then show ?thesis using snoc.IH pq Some by (simp add: walk_snoc)
  qed (use snoc.IH pq in \<open>simp add: walk_snoc\<close>)
qed simp

text \<open>Changing the entry at the end of a path only affects the walks through it.\<close>

lemma walk_update:
  assumes wf: "pt_wf D A T" and p: "on_path D r p" "walk T r p = Some t"
    and q: "on_path D r' q" "\<not> (r' = r \<and> (\<exists>q'. q = p @ [i] @ q'))"
  shows "walk (T(t := (T t)(i := v))) r' q = walk T r' q"
  using q
proof (induction q rule: rev_induct)
  case (snoc j q)
  note pq = on_path_snoc[OF snoc.prems(1)]
  have nq: "\<not> (r' = r \<and> (\<exists>q'. q = p @ [i] @ q'))" using snoc.prems(2) by auto
  show ?case
  proof (cases "walk T r' q")
    case (Some u)
    have "\<not> (u = t \<and> j = i)"
    proof
      assume "u = t \<and> j = i"
      then have "r' = r \<and> q = p" "j = i" using pt_wfD(3)[OF wf p] pq Some by auto
      then show False using snoc.prems(2) by auto
    qed
    then show ?thesis using snoc.IH[OF _ nq] pq Some by (auto simp: walk_snoc)
  qed (use snoc.IH[OF _ nq] pq in \<open>simp add: walk_snoc\<close>)
qed simp

text \<open>Linking a fresh, empty table.\<close>

lemma walk_link:
  assumes wf: "pt_wf D A T" and p: "on_path D r (p @ [i])" "walk T r p = Some t" "\<not> present (T t i)"
    and a: "a \<in> A" "page_addr a" and v: "present v" "v AND PTE_ADDR_MASK = a" and q: "on_path D r' q"
  shows "walk ((T(a := \<lambda>_. 0))(t := (T t)(i := v))) r' q
    = (if r' = r \<and> q = p @ [i] then Some a else walk T r' q)"
proof -
  let ?T1 = "T(a := \<lambda>_. 0)"
  note pp = on_path_snoc[OF p(1)]
  have at: "a \<noteq> t" using pt_wfD(2)[OF wf _ p(2)] pp a(1) by blast
  have wf1: "pt_wf D A ?T1" using wf walk_other_page[OF wf a(1)] unfolding pt_wf_def by metis
  have w1: "on_path D r' q' \<Longrightarrow> walk ?T1 r' q' = walk T r' q'" for r' q'
    by (rule walk_other_page[OF wf a(1)])
  have eq: "(T(a := \<lambda>_. 0))(t := (T t)(i := v)) = ?T1(t := (?T1 t)(i := v))"
    using at by (simp add: fun_eq_iff)
  have pt1: "walk ?T1 r p = Some t" using w1 pp p(2) by simp
  note upd = walk_update[OF wf1 _ pt1, of _ _ i v]
  show ?thesis unfolding eq
  proof (cases "r' = r \<and> (\<exists>q'. q = p @ [i] @ q')")
    case True
    then obtain q' where q': "r' = r" "q = p @ [i] @ q'" by blast
    have "walk (?T1(t := (?T1 t)(i := v))) r p = Some t"
      using upd[of r p] pp pt1 by simp
    then have "walk (?T1(t := (?T1 t)(i := v))) r' q = walk (?T1(t := (?T1 t)(i := v))) a q'"
      using v q' at by (simp add: walk_append)
    also have "\<dots> = (if q' = [] then Some a else None)"
      using at by (cases q') auto
    finally show "walk (?T1(t := (?T1 t)(i := v))) r' q
        = (if r' = r \<and> q = p @ [i] then Some a else walk T r' q)"
      using q' p(2,3) by (cases q') (auto simp: walk_append)
  next
    case False
    then have "\<not> (r' = r \<and> q = p @ [i])" by auto
    then show "walk (?T1(t := (?T1 t)(i := v))) r' q
        = (if r' = r \<and> q = p @ [i] then Some a else walk T r' q)"
      using upd[of r' q] False pp q w1[OF q] by auto
  qed
qed

lemma pt_wf_link:
  assumes wf: "pt_wf D A T" and p: "on_path D r (p @ [i])" "walk T r p = Some t" "\<not> present (T t i)"
    and a: "a \<in> A" "page_addr a" and v: "present v" "v AND PTE_ADDR_MASK = a"
  shows "pt_wf D (A - {a}) ((T(a := \<lambda>_. 0))(t := (T t)(i := v)))"
proof -
  note w = walk_link[OF wf p a v]
  have old: "on_path D r' q \<Longrightarrow> walk T r' q = Some u \<Longrightarrow> u \<noteq> a \<and> u \<notin> A \<and> page_addr u" for r' q u
    using pt_wfD[OF wf] a(1) by metis
  have old2: "on_path D r1 q1 \<Longrightarrow> on_path D r2 q2 \<Longrightarrow> walk T r1 q1 = Some u \<Longrightarrow> walk T r2 q2 = Some u
      \<Longrightarrow> r1 = r2 \<and> q1 = q2" for r1 q1 r2 q2 u
    using wf unfolding pt_wf_def by blast
  show ?thesis unfolding pt_wf_def
    by (auto simp: w old a(2) split: if_splits dest: old old2)
qed

text \<open>Cutting a table off.\<close>

lemma walk_unlink:
  assumes wf: "pt_wf D A T" and p: "on_path D r (p @ [i])" "walk T r p = Some t" and q: "on_path D r' q"
  shows "walk (T(t := (T t)(i := 0))) r' q
    = (if r' = r \<and> (\<exists>q'. q = p @ [i] @ q') then None else walk T r' q)"
proof (cases "r' = r \<and> (\<exists>q'. q = p @ [i] @ q')")
  case True
  then obtain q' where q': "r' = r" "q = p @ [i] @ q'" by blast
  have "walk (T(t := (T t)(i := 0))) r p = Some t"
    using walk_update[OF wf _ p(2), of r p i 0] on_path_snoc[OF p(1)] p(2) by simp
  then show ?thesis using q' by (simp add: walk_append)
next
  case False
  then show ?thesis using walk_update[OF wf _ p(2) q False] on_path_snoc[OF p(1)] by auto
qed

lemma pt_wf_unlink:
  assumes wf: "pt_wf D A T" and p: "on_path D r (p @ [i])" "walk T r p = Some t"
    and a: "walk T r (p @ [i]) = Some a"
  shows "pt_wf D (insert a A) (T(t := (T t)(i := 0)))"
proof -
  note w = walk_unlink[OF wf p]
  have old: "on_path D r' q \<Longrightarrow> walk T r' q = Some u \<Longrightarrow> u \<notin> A \<and> page_addr u" for r' q u
    using pt_wfD[OF wf] by metis
  have old2: "on_path D r1 q1 \<Longrightarrow> on_path D r2 q2 \<Longrightarrow> walk T r1 q1 = Some u \<Longrightarrow> walk T r2 q2 = Some u
      \<Longrightarrow> r1 = r2 \<and> q1 = q2" for r1 q1 r2 q2 u
    using wf unfolding pt_wf_def by blast
  have na: "on_path D r' q \<Longrightarrow> walk T r' q = Some a \<Longrightarrow> r' = r \<and> q = p @ [i]" for r' q
    using old2[OF _ p(1) _ a] by blast
  show ?thesis unfolding pt_wf_def
    by (auto simp: w split: if_splits dest: old old2 na)
qed

text \<open>Changing a leaf entry.\<close>

lemma walk_leaf:
  assumes wf: "pt_wf D A T" and p: "on_path D r p" "walk T r p = Some t" "length p = 3" and q: "on_path D r' q"
  shows "walk (T(t := (T t)(i := v))) r' q = walk T r' q"
  by (rule walk_update[OF wf p(1,2) q]) (use q p(3) in \<open>auto simp: on_path_def\<close>)

lemma pt_wf_leaf:
  assumes wf: "pt_wf D A T" and p: "on_path D r p" "walk T r p = Some t" "length p = 3"
  shows "pt_wf D A (T(t := (T t)(i := v)))"
  using wf walk_leaf[OF wf p] unfolding pt_wf_def by metis

lemma pte_leaf:
  assumes wf: "pt_wf D A T" and p: "on_path D r p" "walk T r p = Some t" "length p = 3"
    and q: "on_leaf D r' ix"
  shows "pte (T(t := (T t)(i := v))) r' ix = (if r' = r \<and> ix = p @ [i] then v else pte T r' ix)"
proof -
  note l = on_leaf_path[OF q]
  have l4: "length ix = 4" using q by (simp add: on_leaf_def)
  note w = walk_leaf[OF wf p conjunct1[OF l]]
  show ?thesis
  proof (cases "walk T r' (butlast ix)")
    case (Some u)
    then have "u = t \<longleftrightarrow> r' = r \<and> butlast ix = p"
      using pt_wfD(3)[OF wf p(1,2) conjunct1[OF l]] p(2) by auto
    then show ?thesis using w Some by (auto simp: pte_def leaf_eq_iff[OF l4])
  qed (use w p(2) in \<open>auto simp: pte_def leaf_eq_iff[OF l4]\<close>)
qed

section \<open>What a change of the tables leaves alone\<close>

definition same_view :: "(u64 \<times> u64) set \<Rightarrow> (u64 \<Rightarrow> u64 \<Rightarrow> u64) \<Rightarrow> (u64 \<Rightarrow> u64 \<Rightarrow> u64) \<Rightarrow> bool" where
  "same_view D T T' \<longleftrightarrow> (\<forall>r ix. on_leaf D r ix \<longrightarrow> pte T' r ix = pte T r ix)"

lemma same_view_refl [simp]: "same_view D T T"
  by (simp add: same_view_def)

lemma same_view_trans: "same_view D T T' \<Longrightarrow> same_view D T' T'' \<Longrightarrow> same_view D T T''"
  by (simp add: same_view_def)

lemma leaf_table_other:
  assumes wf: "pt_wf D A T" and p: "on_path D r p" "walk T r p = Some t" "length p \<le> 2"
    and q: "on_leaf D r' ix" "walk T r' (butlast ix) = Some u"
  shows "u \<noteq> t"
  using pt_wfD(3)[OF wf p(1,2)] on_leaf_path[OF q(1)] q(2) p(3) by fastforce

lemma pte_relabel:
  assumes "present v = present (T t i)" "v AND PTE_ADDR_MASK = T t i AND PTE_ADDR_MASK"
    and wf: "pt_wf D A T" and p: "on_path D r (p @ [i])" "walk T r p = Some t"
  shows "same_view D T (T(t := (T t)(i := v)))"
proof -
  note pp = on_path_snoc[OF p(1)]
  have "pte (T(t := (T t)(i := v))) r' ix = pte T r' ix" if q: "on_leaf D r' ix" for r' ix
  proof (cases "walk T r' (butlast ix)")
    case (Some u)
    then have "u \<noteq> t" using leaf_table_other[OF wf _ p(2) _ q] pp by blast
    then show ?thesis using Some walk_relabel[of v T t i, OF assms(1,2)] by (simp add: pte_def)
  qed (use walk_relabel[of v T t i, OF assms(1,2)] in \<open>simp add: pte_def\<close>)
  then show ?thesis by (simp add: same_view_def)
qed

lemma pte_link:
  assumes wf: "pt_wf D A T" and p: "on_path D r (p @ [i])" "walk T r p = Some t" "\<not> present (T t i)"
    and a: "a \<in> A" "page_addr a" and v: "present v" "v AND PTE_ADDR_MASK = a"
  shows "same_view D T ((T(a := \<lambda>_. 0))(t := (T t)(i := v)))"
proof -
  note pp = on_path_snoc[OF p(1)]
  have at: "a \<noteq> t" using pt_wfD(2)[OF wf _ p(2)] pp a(1) by blast
  have "pte ((T(a := \<lambda>_. 0))(t := (T t)(i := v))) r' ix = pte T r' ix"
    if q: "on_leaf D r' ix" for r' ix
  proof (cases "r' = r \<and> butlast ix = p @ [i]")
    case True
    then have "walk T r' (butlast ix) = None" using p(2,3) by (simp add: walk_snoc)
    then show ?thesis
      using True walk_link[OF wf p a v conjunct1[OF on_leaf_path[OF q]]] at by (simp add: pte_def)
  next
    case False
    note w = walk_link[OF wf p a v conjunct1[OF on_leaf_path[OF q]]]
    show ?thesis
    proof (cases "walk T r' (butlast ix)")
      case (Some u)
      then have "u \<noteq> t" using leaf_table_other[OF wf _ p(2) _ q] pp by blast
      moreover have "u \<noteq> a" using pt_wfD(2)[OF wf conjunct1[OF on_leaf_path[OF q]] Some] a(1) by blast
      ultimately show ?thesis using w False Some by (simp add: pte_def)
    qed (use w False in \<open>auto simp: pte_def\<close>)
  qed
  then show ?thesis by (simp add: same_view_def)
qed

end
