(* ===== verification/Vmm_Map.thy ===== *)
theory Vmm_Map
  imports Vmm_Tables
begin

text \<open>
  Mapping, unmapping and checking pages (\<^verbatim>\<open>vmm_map_page\<close>, \<^verbatim>\<open>vmm_unmap_page\<close>,
  \<^verbatim>\<open>vmm_set_pte_flags\<close>, \<^verbatim>\<open>user_range_check\<close> of \<^verbatim>\<open>mm/vmm.c\<close>) in terms of the table tree: a mapping changes
  one leaf, takes at most three pages, and a failed one gives back all it took.
\<close>

section \<open>Entries and addresses\<close>

lemma addr_mask_split: "PTE_ADDR_MASK = mask 52 AND NOT (mask 12)"
  by (simp add: PTE_ADDR_MASK_def mask_eq_exp_minus_1)

lemma take_bit_52_unat: "unat (take_bit 52 (a :: u64)) = unat a mod 2 ^ 52"
  by (simp add: unsigned_take_bit_eq take_bit_nat_def)

lemma addr_mask_small [simp]: "(x :: u64) AND PTE_ADDR_MASK < 4503599627370496"
proof -
  have "x AND PTE_ADDR_MASK = take_bit 52 (x AND NOT (mask 12))"
    by (simp only: addr_mask_split take_bit_eq_mask and.assoc and.commute[of "mask 52"])
  then have "unat (x AND PTE_ADDR_MASK) < 2 ^ 52" by (simp only: take_bit_52_unat) simp
  then show ?thesis by (simp add: word_less_nat_alt)
qed

lemma addr_mask_id:
  assumes "page_addr a" "a < 2 ^ 52"
  shows "a AND PTE_ADDR_MASK = a"
proof -
  have "unat (take_bit 52 a) = unat a"
    using assms(2) by (simp only: take_bit_52_unat) (simp add: word_less_nat_alt)
  then have m52: "a AND mask 52 = a" by (simp add: take_bit_eq_mask word_unat_eq_iff)
  have m12: "a AND mask 12 = 0"
    using assms(1) page_aligned_iff[of a] by (simp add: PAGE_SIZE_def mask_eq_exp_minus_1)
  have "a = (a AND NOT (mask 12)) OR (a AND mask 12)"
    by (simp only: bit.conj_disj_distrib[symmetric]) simp
  then have "a AND NOT (mask 12) = a" using m12 by simp
  then show ?thesis using m52 by (simp only: addr_mask_split and.assoc[symmetric])
qed

lemma addr_mask_or:
  assumes "page_addr a" "a < 2 ^ 52" "f AND PTE_ADDR_MASK = 0"
  shows "(a OR f) AND PTE_ADDR_MASK = a"
  using assms addr_mask_id[OF assms(1,2)] by (simp add: bit.conj_disj_distrib2)

lemma flag_bits [simp]:
  "PTE_USER AND PTE_ADDR_MASK = 0" "intermediate_flags f AND PTE_ADDR_MASK = 0"
  "PTE_COW AND PTE_ADDR_MASK = 0" "PTE_WRITABLE AND PTE_ADDR_MASK = 0"
  by (simp_all add: PTE_USER_def PTE_ADDR_MASK_def intermediate_flags_def PTE_PRESENT_def PTE_WRITABLE_def
      PTE_COW_def Let_def)

lemma present_or [simp]: "present (a OR b) \<longleftrightarrow> present a \<or> present b"
  by (auto simp: present_def bit.conj_disj_distrib2 PTE_PRESENT_def bit_eq_iff bit_simps)

lemma present_intermediate [simp]: "present (intermediate_flags f)"
  by (simp add: present_def intermediate_flags_def PTE_PRESENT_def PTE_WRITABLE_def PTE_USER_def Let_def)

section \<open>Changes of memory only\<close>

lemma pmm_view_mem [simp]:
  "free_frames (s\<lparr>mem := m\<rparr>) = free_frames s" "avail_pages (s\<lparr>mem := m\<rparr>) = avail_pages s"
  "owned_pages (s\<lparr>mem := m\<rparr>) = owned_pages s" "pmm_inv (s\<lparr>mem := m\<rparr>) = pmm_inv s"
  by (simp_all add: free_frames_def avail_pages_def owned_pages_def pmm_inv_def)

lemma pmm_view_set_entry [simp]:
  "avail_pages (set_entry t i v s) = avail_pages s" "owned_pages (set_entry t i v s) = owned_pages s"
  "pmm_inv (set_entry t i v s) = pmm_inv s" "total_pages (set_entry t i v s) = total_pages s"
  by (simp_all add: set_entry_def)

lemma zero_table_mem: "\<exists>m. zero_table t s = s\<lparr>mem := m\<rparr>"
proof -
  have "\<exists>m. fold (\<lambda>i. set_entry t (of_nat i) 0) xs s = s\<lparr>mem := m\<rparr>" for xs and s :: "'a pmm_state_scheme"
  proof (induction xs arbitrary: s)
    case Nil
    show ?case by (auto intro: exI[of _ "mem s"])
  next
    case (Cons x xs)
    obtain m where m: "fold (\<lambda>i. set_entry t (of_nat i) 0) xs (set_entry t (of_nat x) 0 s)
        = (set_entry t (of_nat x) 0 s)\<lparr>mem := m\<rparr>" using Cons.IH by blast
    have "(set_entry t (of_nat x) 0 s)\<lparr>mem := m\<rparr> = s\<lparr>mem := m\<rparr>" by (simp add: set_entry_def)
    then show ?case using m by auto
  qed
  then show ?thesis by (simp add: zero_table_def)
qed

lemma pmm_view_zero_table [simp]:
  "avail_pages (zero_table t s) = avail_pages s" "owned_pages (zero_table t s) = owned_pages s"
  "pmm_inv (zero_table t s) = pmm_inv s" "total_pages (zero_table t s) = total_pages s"
  using zero_table_mem[of t s] by auto

lemma tabs_pmm [simp]: "tabs (snd (pmm_alloc s)) = tabs s" "tabs (pmm_free a s) = tabs s"
  by (rule tabs_cong, simp add: frame_simps)+

section \<open>Allocating a table\<close>

lemma avail_page_small:
  assumes "vm_inv D s" "a \<in> avail_pages s"
  shows "a < 2 ^ 52"
proof -
  obtain p where p: "p < total_pages s" "a = p * PAGE_SIZE"
    using assms(2) by (auto simp: avail_pages_def free_frames_def)
  have "p < 2 ^ 40" using p(1) assms(1) by (auto simp: vm_inv_def)
  then have "unat p < 2 ^ 40" by (simp add: word_less_nat_alt)
  then have "unat (p * PAGE_SIZE) < 2 ^ 52" by (simp add: unat_word_ariths)
  then show ?thesis by (simp add: p(2) word_less_nat_alt)
qed

lemma alloc_page_table_None:
  assumes "pmm_inv s" "avail_pages s = {}"
  shows "alloc_page_table s = (0, s)"
  using pmm.alloc_fail[OF assms] by (simp add: alloc_page_table_def PMM_ALLOC_FAILED_def)

lemma alloc_page_table_Some:
  assumes inv: "vm_inv D s" and ne: "avail_pages s \<noteq> {}"
  obtains a s' where "alloc_page_table s = (a, s')" "a \<in> avail_pages s" "a \<noteq> 0" "page_addr a" "a < 2 ^ 52"
    "pmm_inv s'" "avail_pages s' = avail_pages s - {a}" "owned_pages s' = insert a (owned_pages s)"
    "tabs s' = (tabs s)(a := \<lambda>_. 0)" "total_pages s' = total_pages s"
proof -
  have i: "pmm_inv s" using inv by (simp add: vm_inv_def)
  obtain a s1 where a: "pmm_alloc s = (a, s1)" by (cases "pmm_alloc s")
  note t = pmm.alloc_takes[OF i ne]
  note p = pmm.avail_page[OF i conjunct1[OF t]]
  have pa: "page_addr a" using p a by simp
  have eq: "alloc_page_table s = (a, zero_table a s1)"
    using a p by (simp add: alloc_page_table_def PMM_ALLOC_FAILED_def)
  have tb: "tabs (zero_table a s1) = (tabs s)(a := \<lambda>_. 0)"
    using tabs_zero_table[OF pa, of s1] tabs_pmm(1)[of s] a by simp
  have tp: "total_pages s1 = total_pages s" using pmm_alloc_frame(3)[of s] a by simp
  show thesis
    by (rule that[OF eq]) (use t p a pmm.alloc_inv[OF i] avail_page_small[OF inv] tb tp in auto)
qed

section \<open>Descending one level\<close>

text \<open>
  The state \<open>s'\<close> differs from \<open>s\<close> by a set \<open>F\<close> of pages taken from the allocator,
  with every leaf entry as it was.
\<close>

definition extends :: "(u64 \<times> u64) set \<Rightarrow> 'a pmm_state_scheme \<Rightarrow> u64 set \<Rightarrow> 'a pmm_state_scheme \<Rightarrow> bool" where
  "extends D s F s' \<longleftrightarrow> vm_inv D s' \<and> same_view D (tabs s) (tabs s') \<and> F \<subseteq> avail_pages s \<and> F \<inter> owned_pages s = {}
     \<and> avail_pages s' = avail_pages s - F \<and> owned_pages s' = owned_pages s \<union> F"

text \<open>The table \<open>n\<close> is at the end of path \<open>q\<close>: it was there (\<open>new = 0\<close>) or has been linked.\<close>

definition descended ::
  "(u64 \<times> u64) set \<Rightarrow> u64 \<Rightarrow> u64 list \<Rightarrow> 'a pmm_state_scheme \<Rightarrow> u64 \<Rightarrow> u64 \<Rightarrow> 'a pmm_state_scheme \<Rightarrow> bool" where
  "descended D r q s n new s' \<longleftrightarrow> extends D s (if new = 0 then {} else {new}) s'
     \<and> (\<forall>r' q'. on_path D r' q' \<longrightarrow>
          walk (tabs s') r' q' = (if r' = r \<and> q' = q then Some n else walk (tabs s) r' q'))
     \<and> (if new = 0 then walk (tabs s) r q = Some n else new = n \<and> walk (tabs s) r q = None)"

lemma extends_refl: "vm_inv D s \<Longrightarrow> extends D s {} s"
  by (simp add: extends_def)

lemma extends_trans:
  "extends D s F s1 \<Longrightarrow> extends D s1 G s2 \<Longrightarrow> extends D s (F \<union> G) s2 \<and> F \<inter> G = {}"
  by (auto simp: extends_def intro: same_view_trans)

lemma next_table_spec:
  assumes inv: "vm_inv D s" and p: "on_path D r (p @ [i])" "walk (tabs s) r p = Some t"
    and nt: "next_table t i flags s = (res, s')"
  shows "case res of None \<Rightarrow> s' = s \<and> avail_pages s = {}
    | Some (n, new) \<Rightarrow> descended D r (p @ [i]) s n new s'"
proof -
  let ?T = "tabs s"
  note pp = on_path_snoc[OF p(1)]
  have wf: "pt_wf D (avail_pages s) ?T" and pi: "pmm_inv s" and tp: "total_pages s \<le> 2 ^ 40"
    using inv by (auto simp: vm_inv_def)
  have pt: "page_addr t" using pt_wfD(1)[OF wf _ p(2)] pp by blast
  have e: "get_entry s t i = ?T t i" by (rule get_entry_tabs[OF pt]) (use pp in simp)
  show ?thesis
  proof (cases "present (?T t i)")
    case True
    define v where "v = ?T t i OR PTE_USER"
    have v: "present v = present (?T t i)" "v AND PTE_ADDR_MASK = ?T t i AND PTE_ADDR_MASK"
      using True by (simp_all add: v_def bit.conj_disj_distrib2)
    have w: "walk ?T r (p @ [i]) = Some (?T t i AND PTE_ADDR_MASK)" using True p(2) by (simp add: walk_snoc)
    note rl = walk_relabel[of v ?T t i, OF v]
    have wf': "pt_wf D (avail_pages s) (?T(t := (?T t)(i := v)))" using wf by (simp add: pt_wf_def rl)
    note view = pte_relabel[OF v wf p]
    show ?thesis using nt True e w wf' view pi tp wf inv rl
      by (auto simp: next_table_def Let_def v_def[symmetric] vm_inv_def descended_def extends_def
          tabs_set_entry[OF pt] pp split: if_splits)
  next
    case False
    have w: "walk ?T r (p @ [i]) = None" using False p(2) by (simp add: walk_snoc)
    show ?thesis
    proof (cases "avail_pages s = {}")
      case True
      then show ?thesis using nt False e alloc_page_table_None[OF pi True]
        by (auto simp: next_table_def Let_def)
    next
      case ne: False
      obtain a s1 where a: "alloc_page_table s = (a, s1)" "a \<in> avail_pages s" "a \<noteq> 0" "page_addr a" "a < 2 ^ 52"
        "pmm_inv s1" "avail_pages s1 = avail_pages s - {a}" "owned_pages s1 = insert a (owned_pages s)"
        "tabs s1 = ?T(a := \<lambda>_. 0)" "total_pages s1 = total_pages s"
        using alloc_page_table_Some[OF inv ne] by blast
      define v where "v = a OR intermediate_flags flags"
      have v: "present v" "v AND PTE_ADDR_MASK = a"
        using addr_mask_or[OF a(4,5)] by (simp_all add: v_def)
      have at: "a \<noteq> t" using pt_wfD(2)[OF wf _ p(2)] pp a(2) by blast
      have res: "res = Some (a, a)" "s' = set_entry t i v s1"
        using nt False e a(1,3) by (auto simp: next_table_def Let_def v_def)
      have T': "tabs s' = (?T(a := \<lambda>_. 0))(t := (?T t)(i := v))"
        using res(2) tabs_set_entry[OF pt, of i v s1] pp a(9) at by simp
      show ?thesis
        using walk_link[OF wf p False a(2,4) v] pt_wf_link[OF wf p False a(2,4) v]
          pte_link[OF wf p False a(2,4) v] res a T' tp w at pmm.avail_page[OF pi a(2)]
        by (simp add: vm_inv_def descended_def extends_def)
    qed
  qed
qed

text \<open>Undoing a fresh table.\<close>

lemma drop_table_spec:
  assumes ex: "extends D s0 F s" and p: "on_path D r (p @ [i])" "walk (tabs s) r p = Some t" "length p \<le> 1"
    and a: "walk (tabs s) r (p @ [i]) = Some a" "a \<in> F" "a \<noteq> 0"
    and below: "\<And>j q. on_path D r (p @ [i] @ j # q) \<Longrightarrow> walk (tabs s) r (p @ [i] @ j # q) = None"
  shows "extends D s0 (F - {a}) (drop_table t i a s)"
    and "on_path D r' q \<Longrightarrow> walk (tabs (drop_table t i a s)) r' q
         = (if r' = r \<and> q = p @ [i] then None else walk (tabs s) r' q)"
proof -
  let ?T = "tabs s" and ?s = "drop_table t i a s"
  note pp = on_path_snoc[OF p(1)]
  have inv: "vm_inv D s" and own: "a \<in> owned_pages s" and av: "a \<notin> avail_pages s"
    using ex a(2) by (auto simp: extends_def)
  have wf: "pt_wf D (avail_pages s) ?T" and pi: "pmm_inv s" and tp: "total_pages s \<le> 2 ^ 40"
    using inv by (auto simp: vm_inv_def)
  have pt: "page_addr t" using pt_wfD(1)[OF wf _ p(2)] pp by blast
  have i: "i < 512" using pp by blast
  have T': "tabs ?s = ?T(t := (?T t)(i := 0))"
    using a(3) tabs_set_entry[OF pt i] by (simp add: drop_table_def)
  have pi1: "pmm_inv (set_entry t i 0 s)" and a1: "a \<in> owned_pages (set_entry t i 0 s)"
    using pi own by simp_all
  note fr = pmm.free_returns[OF pi1 a1]
  show w: "walk (tabs ?s) r' q = (if r' = r \<and> q = p @ [i] then None else walk ?T r' q)"
    if q: "on_path D r' q" for r' q
  proof -
    have "r' = r \<and> (\<exists>q'. q = p @ [i] @ q') \<Longrightarrow> q = p @ [i] \<or> walk ?T r' q = None"
      using below q by (metis append_Nil2 neq_Nil_conv)
    then show ?thesis unfolding T' using walk_unlink[OF wf p(1,2) q] by auto
  qed
  have "pte (tabs ?s) r' ix = pte ?T r' ix" if q: "on_leaf D r' ix" for r' ix
  proof (cases "walk ?T r' (butlast ix)")
    case (Some u)
    note l = on_leaf_path[OF q]
    have "u \<noteq> t" using leaf_table_other[OF wf _ p(2) _ q Some] pp by blast
    then have "tabs ?s u = ?T u" by (simp add: T')
    moreover have "butlast ix \<noteq> p @ [i]"
    proof
      assume "butlast ix = p @ [i]"
      then have "length (p @ [i]) = 3" using l by metis
      then show False using p(3) by simp
    qed
    ultimately show ?thesis using w[OF conjunct1[OF l]] Some by (auto simp: pte_def)
  qed (use w[OF conjunct1[OF on_leaf_path[OF q]]] in \<open>simp add: pte_def\<close>)
  moreover have "pt_wf D (insert a (avail_pages s)) (tabs ?s)"
    unfolding T' by (rule pt_wf_unlink[OF wf p(1,2) a(1)])
  moreover have "a \<in> avail_pages s0" "a \<notin> owned_pages s0" using ex a(2) by (auto simp: extends_def)
  ultimately show "extends D s0 (F - {a}) (drop_table t i a s)"
    using fr tp a(3) ex by (auto simp add: drop_table_def vm_inv_def same_view_def frame_simps extends_def)
qed

section \<open>Virtual pages\<close>

definition same_vpage :: "u64 \<Rightarrow> u64 \<Rightarrow> bool" where
  "same_vpage va va' \<longleftrightarrow> va AND 0xFFFFFFFFF000 = va' AND 0xFFFFFFFFF000"

lemma index_bits: "drop_bit n x AND 0x1FF = drop_bit n (y :: u64) AND 0x1FF
    \<longleftrightarrow> (\<forall>k < 9. n + k < 64 \<longrightarrow> bit x (n + k) = bit y (n + k))"
proof -
  have "z AND 0x1FF = take_bit 9 z" for z :: u64 by (simp add: take_bit_eq_mask mask_eq_exp_minus_1)
  then have "drop_bit n x AND 0x1FF = drop_bit n y AND 0x1FF \<longleftrightarrow> take_bit 9 (drop_bit n x) = take_bit 9 (drop_bit n y)"
    by simp
  also have "\<dots> \<longleftrightarrow> (\<forall>k < 9. bit x (n + k) = bit y (n + k))"
    by (auto simp: bit_eq_iff bit_simps) (metis less_trans numeral_less_iff semiring_norm(76,78,81))+
  also have "\<dots> \<longleftrightarrow> (\<forall>k < 9. n + k < 64 \<longrightarrow> bit x (n + k) = bit y (n + k))"
    using bit_imp_le_length[of x] bit_imp_le_length[of y] by fastforce
  finally show ?thesis .
qed

lemma same_vpage_iff: "same_vpage va va' \<longleftrightarrow> vidx va = vidx va'"
proof -
  have m: "(0xFFFFFFFFF000 :: u64) = mask 48 AND NOT (mask 12)" by (simp add: mask_eq_exp_minus_1)
  have "same_vpage va va' \<longleftrightarrow> (\<forall>n. 12 \<le> n \<and> n < 48 \<longrightarrow> bit va n = bit va' n)"
    unfolding same_vpage_def m
    apply (auto simp: bit_eq_iff bit_simps)
    subgoal for n by (drule spec[of _ n]) simp
    subgoal for n by (drule spec[of _ n]) simp
    done
  moreover have "12 \<le> n \<and> n < 48 \<longleftrightarrow> (\<exists>k < 9. n = 12 + k \<or> n = 21 + k \<or> n = 30 + k \<or> n = 39 + k)" for n :: nat
    by presburger
  moreover have "(\<forall>n. (\<exists>k < 9. n = 12 + k \<or> n = 21 + k \<or> n = 30 + k \<or> n = 39 + k) \<longrightarrow> bit va n = bit va' n)
    \<longleftrightarrow> (\<forall>k < 9. bit va (39 + k) = bit va' (39 + k)) \<and> (\<forall>k < 9. bit va (30 + k) = bit va' (30 + k))
      \<and> (\<forall>k < 9. bit va (21 + k) = bit va' (21 + k)) \<and> (\<forall>k < 9. bit va (12 + k) = bit va' (12 + k))"
    by blast
  ultimately show ?thesis
    by (simp add: vidx_def vpath_def PML4_INDEX_def PDPT_INDEX_def PD_INDEX_def PT_INDEX_def index_bits)
qed

section \<open>Mapping a page\<close>


section \<open>Mapping a page\<close>

lemma descended_vm_inv: "descended D r q s n new s' \<Longrightarrow> vm_inv D s'"
  by (simp add: descended_def extends_def)

lemma descended_walk:
  "descended D r q s n new s' \<Longrightarrow> on_path D r' q' \<Longrightarrow>
   walk (tabs s') r' q' = (if r' = r \<and> q' = q then Some n else walk (tabs s) r' q')"
  by (simp add: descended_def)

text \<open>Undoing one level, whether or not its table is fresh.\<close>

lemma drop_descended:
  assumes d: "descended D r (p @ [i]) s n new s1" and ex: "extends D s1 {} s2"
    and p: "on_path D r (p @ [i])" "walk (tabs s1) r p = Some t" "length p \<le> 1"
    and same: "\<And>r' q. on_path D r' q \<Longrightarrow> walk (tabs s2) r' q = walk (tabs s1) r' q"
  shows "extends D s {} (drop_table t i new s2)"
    and "on_path D r' q \<Longrightarrow> walk (tabs (drop_table t i new s2)) r' q = walk (tabs s) r' q"
proof -
  note pp = on_path_snoc[OF p(1)]
  have e: "extends D s (if new = 0 then {} else {new}) s1" using d by (simp add: descended_def)
  have e2: "extends D s (if new = 0 then {} else {new}) s2" using extends_trans[OF e ex] by simp
  have w2: "on_path D r' q' \<Longrightarrow> walk (tabs s2) r' q' = (if r' = r \<and> q' = p @ [i] then Some n else walk (tabs s) r' q')"
    for r' q' using same descended_walk[OF d] by simp
  have pw: "walk (tabs s2) r p = Some t" using same pp p(2) by simp
  have "extends D s {} (drop_table t i new s2) \<and>
    (\<forall>r' q. on_path D r' q \<longrightarrow> walk (tabs (drop_table t i new s2)) r' q = walk (tabs s) r' q)"
  proof (cases "new = 0")
    case True
    then show ?thesis using e2 w2 d by (auto simp: drop_table_def descended_def)
  next
    case False
    then have n: "n = new" "walk (tabs s) r (p @ [i]) = None" using d by (auto simp: descended_def)
    have below: "walk (tabs s2) r (p @ [i] @ j # q) = None" if "on_path D r (p @ [i] @ j # q)" for j q
      using w2[OF that] n(2) by (auto simp: walk_append bind_eq_None_conv split: option.splits if_splits)
    have a: "walk (tabs s2) r (p @ [i]) = Some new" using w2[OF p(1)] n by simp
    have e2': "extends D s {new} s2" using e2 False by simp
    note dr = drop_table_spec[OF e2' p(1) pw p(3) a _ False below]
    show ?thesis using dr(1) dr(2) w2 n by auto
  qed
  then show "extends D s {} (drop_table t i new s2)"
    "on_path D r' q \<Longrightarrow> walk (tabs (drop_table t i new s2)) r' q = walk (tabs s) r' q"
    by blast+
qed

lemma extends_undone:
  assumes "extends D s {} s'"
  shows "vm_inv D s' \<and> same_view D (tabs s) (tabs s') \<and> avail_pages s' = avail_pages s \<and> owned_pages s' = owned_pages s"
  using assms by (simp add: extends_def)

lemma map_leaf:
  assumes ex: "extends D s F s3" and va: "(r, PML4_INDEX va) \<in> D" and w: "walk (tabs s3) r (vpath va) = Some pt"
    and F: "card F \<le> 3" and s'_def: "s' = set_entry pt (PT_INDEX va) v s3"
  shows "vm_inv D s'
      \<and> (\<forall>r' ix. on_leaf D r' ix \<longrightarrow> pte (tabs s') r' ix
           = (if r' = r \<and> ix = vidx va then v else pte (tabs s) r' ix))
      \<and> avail_pages s' \<subseteq> avail_pages s \<and> card (avail_pages s - avail_pages s') \<le> 3
      \<and> owned_pages s' = owned_pages s \<union> (avail_pages s - avail_pages s')"
proof -
  have inv: "vm_inv D s3" using ex by (simp add: extends_def)
  then have wf: "pt_wf D (avail_pages s3) (tabs s3)" by (simp add: vm_inv_def)
  note pth = on_path_vpath[OF va]
  have pt: "page_addr pt" by (rule pt_wfD(1)[OF wf pth w])
  have l: "length (vpath va) = 3" by (simp add: vpath_def)
  have T': "tabs s' = (tabs s3)(pt := (tabs s3 pt)(PT_INDEX va := v))"
    by (simp add: s'_def tabs_set_entry[OF pt])
  have "vm_inv D s'" using pt_wf_leaf[OF wf pth w l] inv by (simp add: T' vm_inv_def) (simp add: s'_def)
  moreover have "pte (tabs s') r' ix = (if r' = r \<and> ix = vidx va then v else pte (tabs s) r' ix)"
    if "on_leaf D r' ix" for r' ix
    using pte_leaf[OF wf pth w l that] ex that by (simp add: T' vidx_def extends_def same_view_def)
  moreover have "avail_pages s - avail_pages s' = F" "avail_pages s' \<subseteq> avail_pages s"
    "owned_pages s' = owned_pages s \<union> F"
    using ex by (auto simp: extends_def s'_def)
  ultimately show ?thesis using F by auto
qed

lemma vmm_map_page_spec:
  assumes inv: "vm_inv D s" and va: "(r, PML4_INDEX va) \<in> D"
    and mp: "vmm_map_page r va phys flags s = (rc, s')"
  shows "rc = 0 \<and> vm_inv D s'
      \<and> (\<forall>r' ix. on_leaf D r' ix \<longrightarrow> pte (tabs s') r' ix
           = (if r' = r \<and> ix = vidx va then (phys AND PTE_ADDR_MASK) OR flags else pte (tabs s) r' ix))
      \<and> avail_pages s' \<subseteq> avail_pages s \<and> card (avail_pages s - avail_pages s') \<le> 3
      \<and> owned_pages s' = owned_pages s \<union> (avail_pages s - avail_pages s')
    \<or> rc = -1 \<and> vm_inv D s' \<and> same_view D (tabs s) (tabs s')
      \<and> avail_pages s' = avail_pages s \<and> owned_pages s' = owned_pages s \<and> card (avail_pages s) \<le> 2"
    (is "?ok \<or> ?fail")
proof -
  let ?i4 = "PML4_INDEX va" and ?i3 = "PDPT_INDEX va" and ?i2 = "PD_INDEX va"
  have p1: "on_path D r ([] @ [?i4])" and p2: "on_path D r ([?i4] @ [?i3])" and p3: "on_path D r ([?i4, ?i3] @ [?i2])"
    using va by (auto simp: on_path_def)
  obtain res1 s1 where n1: "next_table r ?i4 flags s = (res1, s1)" by (cases "next_table r ?i4 flags s")
  note N1 = next_table_spec[OF inv p1 _ n1]
  consider "res1 = None" | pdpt new1 where "res1 = Some (pdpt, new1)" by (cases res1) auto
  then show ?thesis
  proof cases
    case 1
    then show ?thesis using N1 mp n1 inv by (simp add: vmm_map_page_def)
  next
    case (2 pdpt new1)
    then have d1: "descended D r ([] @ [?i4]) s pdpt new1 s1" using N1 by simp
    have w1: "walk (tabs s1) r [?i4] = Some pdpt" using descended_walk[OF d1 p1] by simp
    have e1: "extends D s (if new1 = 0 then {} else {new1}) s1" using d1 by (simp add: descended_def)
    obtain res2 s2 where n2: "next_table pdpt ?i3 flags s1 = (res2, s2)" by (cases "next_table pdpt ?i3 flags s1")
    note N2 = next_table_spec[OF descended_vm_inv[OF d1] p2 w1 n2]
    consider "res2 = None" | pd new2 where "res2 = Some (pd, new2)" by (cases res2) auto
    then show ?thesis
    proof cases
      case 1
      then have e: "s2 = s1" "avail_pages s1 = {}" using N2 by auto
      have s': "rc = -1" "s' = drop_table r ?i4 new1 s1"
        using mp n1 n2 2 1 e by (simp_all add: vmm_map_page_def)
      note u = drop_descended(1)[OF d1 extends_refl[OF descended_vm_inv[OF d1]] p1]
      have "extends D s {} s'" unfolding s' by (rule u) auto
      moreover have "card (avail_pages s) \<le> 2"
      proof -
        have "avail_pages s \<subseteq> {new1}" using e1 e(2) by (auto simp: extends_def split: if_splits)
        then have "card (avail_pages s) \<le> card {new1}" by (rule card_mono[OF finite_u64])
        then show ?thesis by simp
      qed
      ultimately show ?thesis using s'(1) extends_undone by blast
    next
      case (2 pd new2)
      then have d2: "descended D r ([?i4] @ [?i3]) s1 pd new2 s2" using N2 by simp
      have w2: "walk (tabs s2) r [?i4, ?i3] = Some pd" using descended_walk[OF d2 p2] by simp
      have e2: "extends D s1 (if new2 = 0 then {} else {new2}) s2" using d2 by (simp add: descended_def)
      obtain res3 s3 where n3: "next_table pd ?i2 flags s2 = (res3, s3)" by (cases "next_table pd ?i2 flags s2")
      note N3 = next_table_spec[OF descended_vm_inv[OF d2] p3 w2 n3]
      consider "res3 = None" | pt new3 where "res3 = Some (pt, new3)" by (cases res3) auto
      then show ?thesis
      proof cases
        case 1
        then have e: "s3 = s2" "avail_pages s2 = {}" using N3 by auto
        let ?x = "drop_table pdpt ?i3 new2 s2"
        have s': "rc = -1" "s' = drop_table r ?i4 new1 ?x"
          using mp n1 n2 n3 \<open>res1 = _\<close> \<open>res2 = _\<close> 1 e by (simp_all add: vmm_map_page_def)
        note u2 = drop_descended[OF d2 extends_refl[OF descended_vm_inv[OF d2]] p2]
        have "on_path D r [?i4]" using p1 by simp
        then have w21: "walk (tabs s2) r [?i4] = Some pdpt"
          using descended_walk[OF d2] w1 by (simp del: walk.simps)
        have x: "extends D s1 {} ?x" by (rule u2(1)[OF w21]) simp_all
        have xw: "on_path D r' q \<Longrightarrow> walk (tabs ?x) r' q = walk (tabs s1) r' q" for r' q
          by (rule u2(2)[OF w21]) simp_all
        have "extends D s {} s'" unfolding s' by (rule drop_descended(1)[OF d1 x p1]) (use xw in auto)
        moreover have "card (avail_pages s) \<le> 2"
        proof -
          have "avail_pages s \<subseteq> {new1, new2}" using e1 e2 e(2) by (auto simp: extends_def split: if_splits)
          then have "card (avail_pages s) \<le> card {new1, new2}" by (rule card_mono[OF finite_u64])
          also have "\<dots> \<le> 2" by (simp add: card_insert_if)
          finally show ?thesis .
        qed
        ultimately show ?thesis using s'(1) extends_undone by blast
      next
        case (2 pt new3)
        then have d3: "descended D r ([?i4, ?i3] @ [?i2]) s2 pt new3 s3" using N3 by simp
        have w3: "walk (tabs s3) r (vpath va) = Some pt" using descended_walk[OF d3 p3] by (simp add: vpath_def)
        have e3: "extends D s2 (if new3 = 0 then {} else {new3}) s3" using d3 by (simp add: descended_def)
        let ?F = "(if new1 = 0 then {} else {new1}) \<union> (if new2 = 0 then {} else {new2}) \<union> (if new3 = 0 then {} else {new3})"
        have ex: "extends D s ?F s3" using extends_trans[OF _ e3] extends_trans[OF e1 e2] by blast
        have "card ?F \<le> card {new1, new2, new3}" by (rule card_mono[OF finite_u64]) auto
        also have "\<dots> \<le> 3" by (simp add: card_insert_if)
        finally have F: "card ?F \<le> 3" .
        have s': "rc = 0" "s' = set_entry pt (PT_INDEX va) ((phys AND PTE_ADDR_MASK) OR flags) s3"
          using mp n1 n2 n3 \<open>res1 = _\<close> \<open>res2 = _\<close> 2 by (simp_all add: vmm_map_page_def)
        show ?thesis using map_leaf[OF ex va w3 F s'(2)] s'(1) by blast
      qed
    qed
  qed
qed

section \<open>Unmapping and changing flags\<close>

lemma vmm_unmap_page_cases:
  assumes "page_addr r"
  shows "vmm_unmap_page r va s = (-1, s) \<or>
    (\<exists>pt. walk (tabs s) r (vpath va) = Some pt \<and> vmm_unmap_page r va s = (0, set_entry pt (PT_INDEX va) 0 s))"
  using assms by (auto simp: vmm_unmap_page_def Let_def vpath_def get_entry_tabs)

lemma vmm_set_pte_flags_cases:
  assumes "page_addr r"
  shows "(if present (pte (tabs s) r (vidx va))
     then \<exists>pt. walk (tabs s) r (vpath va) = Some pt \<and> vmm_set_pte_flags r va flags s
       = (0, set_entry pt (PT_INDEX va) ((pte (tabs s) r (vidx va) AND PTE_ADDR_MASK) OR flags) s)
     else vmm_set_pte_flags r va flags s = (-1, s))"
  using assms by (auto simp: vmm_set_pte_flags_def Let_def vpath_def get_entry_tabs pte_def vidx_def)

lemma set_leaf_spec:
  assumes inv: "vm_inv D s" and va: "(r, PML4_INDEX va) \<in> D" and w: "walk (tabs s) r (vpath va) = Some pt"
  shows "vm_inv D (set_entry pt (PT_INDEX va) v s)
    \<and> (\<forall>r' ix. on_leaf D r' ix \<longrightarrow> pte (tabs (set_entry pt (PT_INDEX va) v s)) r' ix
         = (if r' = r \<and> ix = vidx va then v else pte (tabs s) r' ix))"
  using map_leaf[OF extends_refl[OF inv] va w _ refl, of v] by simp

lemma vm_inv_root: "vm_inv D s \<Longrightarrow> (r, i) \<in> D \<Longrightarrow> page_addr r"
  using pt_wfD(1)[of D "avail_pages s" "tabs s" r "[]" r]
  by (force simp: vm_inv_def on_path_def image_iff)

text \<open>What a rewritten leaf entry means for the translations.\<close>

lemma leaf_update_view:
  assumes inv: "vm_inv D s" and va: "(r, PML4_INDEX va) \<in> D"
    and P: "\<And>r' ix. on_leaf D r' ix \<Longrightarrow> pte (tabs s') r' ix
        = (if r' = r \<and> ix = vidx va then (phys AND PTE_ADDR_MASK) OR flags else pte (tabs s) r' ix)"
    and f: "flags AND PTE_PRESENT \<noteq> 0" "flags AND PTE_ADDR_MASK = 0"
  shows "vmm_get_physical r va s' = phys AND PTE_ADDR_MASK" "vmm_get_pte_flags r va s' = flags"
    and "(r', PML4_INDEX va') \<in> D \<Longrightarrow> \<not> (r' = r \<and> same_vpage va' va) \<Longrightarrow>
      vmm_get_physical r' va' s' = vmm_get_physical r' va' s \<and> vmm_get_pte_flags r' va' s' = vmm_get_pte_flags r' va' s"
proof -
  let ?v = "(phys AND PTE_ADDR_MASK) OR flags"
  have ra: "page_addr r'" if "(r', i) \<in> D" for r' i by (rule vm_inv_root[OF inv that])
  have v: "present ?v" using f(1) by (simp only: present_or) (simp add: present_def)
  have vm: "?v AND PTE_ADDR_MASK = phys AND PTE_ADDR_MASK" by (simp add: bit.conj_disj_distrib2 f(2))
  have "flags = (flags AND PTE_ADDR_MASK) OR (flags AND NOT PTE_ADDR_MASK)"
    by (simp only: bit.conj_disj_distrib[symmetric]) simp
  then have vf: "?v AND NOT PTE_ADDR_MASK = flags" using f(2) by (simp add: bit.conj_disj_distrib2 and.assoc)
  show "vmm_get_physical r va s' = phys AND PTE_ADDR_MASK" "vmm_get_pte_flags r va s' = flags"
    using P[OF on_leaf_vidx[OF va]] v vm vf by (simp_all add: vmm_get_physical_pte vmm_get_pte_flags_pte ra[OF va] Let_def)
  show "vmm_get_physical r' va' s' = vmm_get_physical r' va' s \<and> vmm_get_pte_flags r' va' s' = vmm_get_pte_flags r' va' s"
    if "(r', PML4_INDEX va') \<in> D" "\<not> (r' = r \<and> same_vpage va' va)"
    using P[OF on_leaf_vidx[OF that(1)]] that ra[OF that(1)]
    by (auto simp: vmm_get_physical_pte vmm_get_pte_flags_pte Let_def same_vpage_iff)
qed

section \<open>Checking user ranges\<close>

lemma vmm_validate_user_range_iff:
  "vmm_validate_user_range addr len \<longleftrightarrow> 0 < addr \<and> 0 < len \<and> unat addr + unat len \<le> 2 ^ 47"
proof -
  have top: "unat USER_SPACE_TOP = 2 ^ 47" by (simp add: USER_SPACE_TOP_def)
  show ?thesis
  proof (cases "unat addr + unat len < 2 ^ 64")
    case True
    then have "unat (addr + len) = unat addr + unat len" by (simp add: unat_word_ariths)
    moreover obtain k where "len = 0 \<or> unat len = Suc k" by (cases "unat len") (auto simp: unat_eq_zero)
    ultimately show ?thesis using top
      by (auto simp: vmm_validate_user_range_def Let_def word_le_nat_alt word_less_nat_alt unat_gt_0)
  next
    case False
    have "addr + len < addr \<or> addr = 0 \<and> len = 0"
    proof -
      have "(unat addr + unat len) mod 2 ^ 64 = unat addr + unat len - 2 ^ 64"
        using False unat_u64_lt[of addr] unat_u64_lt[of len] by (subst le_mod_geq, linarith, subst mod_less) linarith+
      then have "unat (addr + len) = unat addr + unat len - 2 ^ 64" by (simp add: unat_word_ariths)
      then have "unat (addr + len) < unat addr" using unat_u64_lt[of len] False by linarith
      then show ?thesis by (simp add: word_less_nat_alt)
    qed
    then show ?thesis using False by (auto simp: vmm_validate_user_range_def Let_def)
  qed
qed

text \<open>The condition the loop checks for one page.\<close>

definition user_page_ok :: "u64 \<Rightarrow> u64 \<Rightarrow> u64 \<Rightarrow> bool" where
  "user_page_ok require alt flags \<longleftrightarrow> flags AND PTE_PRESENT \<noteq> 0 \<and> flags AND PTE_USER \<noteq> 0
     \<and> (require = 0 \<or> flags AND require \<noteq> 0 \<or> alt \<noteq> 0 \<and> flags AND alt \<noteq> 0)"

lemma user_range_loop_spec:
  assumes "unat va + 4096 * n = N" "unat end \<le> N" "N < 2 ^ 64"
  shows "user_range_loop r va end require alt s
    = Some (\<forall>k < n. unat va + 4096 * k < unat end \<longrightarrow>
        user_page_ok require alt (vmm_get_pte_flags r (va + of_nat (4096 * k)) s))"
  using assms
proof (induction n arbitrary: va)
  case 0
  then have "\<not> va < end" by (simp add: word_less_nat_alt)
  then show ?case by (subst user_range_loop.simps) simp
next
  case (Suc n)
  have nx: "unat (va + PAGE_SIZE) = unat va + 4096"
    using unat_plus_offset[of va 4096] Suc.prems by (simp add: PAGE_SIZE_def)
  have IH: "user_range_loop r (va + PAGE_SIZE) end require alt s
    = Some (\<forall>k < n. unat (va + PAGE_SIZE) + 4096 * k < unat end \<longrightarrow>
        user_page_ok require alt (vmm_get_pte_flags r (va + PAGE_SIZE + of_nat (4096 * k)) s))"
    by (rule Suc.IH) (use Suc.prems nx in auto)
  have sh: "(\<forall>k < Suc n. unat va + 4096 * k < unat end \<longrightarrow>
        user_page_ok require alt (vmm_get_pte_flags r (va + of_nat (4096 * k)) s))
    \<longleftrightarrow> (unat va < unat end \<longrightarrow> user_page_ok require alt (vmm_get_pte_flags r va s))
      \<and> (\<forall>k < n. unat (va + PAGE_SIZE) + 4096 * k < unat end \<longrightarrow>
        user_page_ok require alt (vmm_get_pte_flags r (va + PAGE_SIZE + of_nat (4096 * k)) s))"
    unfolding nx by (simp add: All_less_Suc2 PAGE_SIZE_def algebra_simps)
  show ?case
  proof (cases "va < end")
    case True
    then show ?thesis unfolding sh using IH
      by (subst user_range_loop.simps) (auto simp: Let_def user_page_ok_def word_less_nat_alt)
  next
    case False
    then show ?thesis unfolding sh
      by (subst user_range_loop.simps) (auto simp: nx word_less_nat_alt)
  qed
qed


lemma vpath_page_offset:
  assumes "unat a div 4096 = unat b div 4096"
  shows "same_vpage a b"
proof -
  have "drop_bit 12 a = drop_bit 12 b"
    using assms by (simp add: word_unat_eq_iff unat_drop_bit_eq drop_bit_nat_def)
  then have "bit a (12 + n) = bit b (12 + n)" for n by (metis bit_drop_bit_eq comp_apply)
  then have "bit a n = bit b n" if "12 \<le> n" for n using that by (metis le_add_diff_inverse)
  then have "(a AND (mask 48 AND NOT (mask 12))) = (b AND (mask 48 AND NOT (mask 12)))"
    by (auto simp: bit_eq_iff bit_simps not_less)
  then show ?thesis by (simp add: same_vpage_def mask_eq_exp_minus_1)
qed

lemma vmm_get_pte_flags_page:
  "page_addr r \<Longrightarrow> same_vpage a b \<Longrightarrow> vmm_get_pte_flags r a s = vmm_get_pte_flags r b s"
  by (simp add: vmm_get_pte_flags_pte same_vpage_iff)

lemma page_base_unat: "unat (a AND NOT (PAGE_SIZE - 1)) = 4096 * (unat a div 4096)"
proof -
  let ?off = "a AND (PAGE_SIZE - 1)"
  have "(a AND NOT (PAGE_SIZE - 1)) + ?off = (a AND NOT (PAGE_SIZE - 1)) OR ?off"
    by (rule disjunctive_add) (auto simp: bit_simps)
  also have "\<dots> = a" by (simp only: bit.conj_disj_distrib[symmetric]) simp
  finally have "a AND NOT (PAGE_SIZE - 1) = a - ?off" by (simp add: eq_diff_eq)
  moreover have "?off \<le> a" by (simp add: word_le_nat_alt page_offset_unat)
  ultimately have "unat (a AND NOT (PAGE_SIZE - 1)) = unat a - unat a mod 4096"
    by (simp add: unat_sub page_offset_unat)
  then show ?thesis by (simp add: minus_mod_eq_mult_div)
qed

lemma user_range_check_spec:
  assumes r: "page_addr r"
  shows "user_range_check r ptr len require alt s
    = Some (vmm_validate_user_range ptr len \<and>
        (\<forall>a. ptr \<le> a \<and> a < ptr + len \<longrightarrow> user_page_ok require alt (vmm_get_pte_flags r a s)))"
proof (cases "vmm_validate_user_range ptr len")
  case True
  then have b: "0 < unat len" "unat ptr + unat len \<le> 2 ^ 47"
    by (auto simp: vmm_validate_user_range_iff word_less_nat_alt)
  have e: "unat (ptr + len) = unat ptr + unat len"
    using b(2) by (simp add: unat_word_ariths)
  define p0 where "p0 = ptr AND NOT (PAGE_SIZE - 1)"
  have p0: "unat p0 = 4096 * (unat ptr div 4096)"
    by (simp add: p0_def page_base_unat)
  define n where "n = unat len div 4096 + 2"
  have cover: "unat (ptr + len) \<le> unat p0 + 4096 * n" "unat p0 + 4096 * n < 2 ^ 64"
    using b(2) by (auto simp: e p0 n_def)
  have loop: "user_range_loop r p0 (ptr + len) require alt s
    = Some (\<forall>k < n. unat p0 + 4096 * k < unat (ptr + len) \<longrightarrow>
        user_page_ok require alt (vmm_get_pte_flags r (p0 + of_nat (4096 * k)) s))"
    by (rule user_range_loop_spec[OF refl cover])
  have "(\<forall>k < n. unat p0 + 4096 * k < unat (ptr + len) \<longrightarrow>
        user_page_ok require alt (vmm_get_pte_flags r (p0 + of_nat (4096 * k)) s))
    \<longleftrightarrow> (\<forall>a. ptr \<le> a \<and> a < ptr + len \<longrightarrow> user_page_ok require alt (vmm_get_pte_flags r a s))"
    (is "?L \<longleftrightarrow> ?R")
  proof
    assume L: ?L
    show ?R
    proof (intro allI impI)
      fix a assume a: "ptr \<le> a \<and> a < ptr + len"
      define k where "k = unat a div 4096 - unat ptr div 4096"
      have ua: "unat ptr \<le> unat a" "unat a < unat ptr + unat len"
        using a e by (simp_all add: word_le_nat_alt word_less_nat_alt)
      then have m: "unat ptr div 4096 \<le> unat a div 4096" by (simp add: div_le_mono)
      have pk: "unat p0 + 4096 * k = 4096 * (unat a div 4096)" using m by (simp add: p0 k_def)
      also have "\<dots> \<le> unat a" by simp
      finally have ple: "unat p0 + 4096 * k \<le> unat a" .
      then have "k < n" using ua b p0 by (auto simp: n_def)
      moreover have "unat (p0 + of_nat (4096 * k)) = unat p0 + 4096 * k"
        by (rule unat_plus_offset) (use ple unat_u64_lt[of a] in linarith)
      ultimately have "user_page_ok require alt (vmm_get_pte_flags r (p0 + of_nat (4096 * k)) s)"
        and "same_vpage (p0 + of_nat (4096 * k)) a"
        using L ple ua e pk by (auto intro!: vpath_page_offset)
      then show "user_page_ok require alt (vmm_get_pte_flags r a s)"
        using vmm_get_pte_flags_page[OF r, of "p0 + of_nat (4096 * k)" a s] by simp
    qed
  next
    assume R: ?R
    show ?L
    proof (intro allI impI)
      fix k assume k: "k < n" "unat p0 + 4096 * k < unat (ptr + len)"
      define a where "a = (if k = 0 then ptr else p0 + of_nat (4096 * k))"
      have up: "unat (p0 + of_nat (4096 * k)) = unat p0 + 4096 * k"
        by (rule unat_plus_offset) (use k(2) unat_u64_lt[of "ptr + len"] in linarith)
      have "ptr \<le> a \<and> a < ptr + len \<and> same_vpage a (p0 + of_nat (4096 * k))"
      proof (cases "k = 0")
        case True
        then show ?thesis using b e p0 up
          by (auto simp: a_def word_le_nat_alt word_less_nat_alt intro!: vpath_page_offset)
      next
        case False
        have "unat ptr < 4096 * (unat ptr div 4096) + 4096" by simp
        then have "unat ptr \<le> unat p0 + 4096 * k" using False p0 by linarith
        then show ?thesis using False k(2) up
          by (auto simp: a_def word_le_nat_alt word_less_nat_alt same_vpage_def)
      qed
      then show "user_page_ok require alt (vmm_get_pte_flags r (p0 + of_nat (4096 * k)) s)"
        using R vmm_get_pte_flags_page[OF r, of a "p0 + of_nat (4096 * k)" s] by metis
    qed
  qed
  then show ?thesis using True loop by (simp add: user_range_check_def p0_def)
qed (simp add: user_range_check_def)


section \<open>A concrete address space\<close>

text \<open>
  Sixteen frames, the PML4 in frame 3 and one user page: address 0x400000 mapped to
  frame 9, writable. Frames 1, 2, 4, 8 and 10 are free.
\<close>

definition witness_vm0 :: page_state where
  "witness_vm0 = \<lparr>mem = (\<lambda>_. 0), g_hhdm_offset = 0xFFFF800000000000,
     bitmap = (\<lambda>_. 0)(0 := 0xE9, 1 := 0xFA), bitmap_size = 2, total_pages = 16, free_pages = 5, usable_pages = 15,
     page_info = Some ((\<lambda>_. 0)(9 := 1)), max_pages = 16\<rparr>"

definition witness_vm :: page_state where
  "witness_vm = set_entry 0x3000 0 0x5007 (set_entry 0x5000 0 0x6007 (set_entry 0x6000 2 0x7007
     (set_entry 0x7000 0 0x9007 witness_vm0)))"

lemma load_zero [simp]: "load64 (\<lambda>_. 0) a = 0"
proof -
  have "load_le (\<lambda>_. 0) a n = 0" for a n by (induction n arbitrary: a) simp_all
  then show ?thesis by (simp add: load64_def)
qed

lemma tabs_witness_vm:
  "tabs witness_vm = (\<lambda>_ _. 0)(0x7000 := (\<lambda>_. 0)(0 := 0x9007), 0x6000 := (\<lambda>_. 0)(2 := 0x7007),
     0x5000 := (\<lambda>_. 0)(0 := 0x6007), 0x3000 := (\<lambda>_. 0)(0 := 0x5007))"
proof -
  have "tabs witness_vm0 = (\<lambda>_ _. 0)"
    by (intro ext) (simp add: tabs_def get_entry_def witness_vm0_def)
  then show ?thesis by (simp add: witness_vm_def tabs_set_entry fun_eq_iff)
qed

lemma witness_entries [simp]:
  "present 0x5007" "present 0x6007" "present 0x7007" "present 0x9007"
  "0x5007 AND PTE_ADDR_MASK = 0x5000" "0x6007 AND PTE_ADDR_MASK = 0x6000"
  "0x7007 AND PTE_ADDR_MASK = 0x7000" "0x9007 AND PTE_ADDR_MASK = 0x9000"
  by (simp_all add: present_def PTE_PRESENT_def PTE_ADDR_MASK_def)

lemma walk_witness_vm:
  assumes "walk (tabs witness_vm) 0x3000 p = Some t" "length p \<le> 3"
  shows "(p, t) \<in> {([], 0x3000), ([0], 0x5000), ([0, 0], 0x6000), ([0, 0, 2], 0x7000)}"
  using assms
  by (cases p; cases "tl p"; cases "tl (tl p)"; cases "tl (tl (tl p))")
    (auto simp: tabs_witness_vm split: if_splits)

lemma free_frames_bounded:
  assumes "unat (total_pages s) = n"
  shows "free_frames s = set (filter (\<lambda>p. \<not> bitmap_is_used (bitmap s) p) (map of_nat [0..<n]))"
proof -
  have "p < total_pages s \<longleftrightarrow> p \<in> set (map of_nat [0..<n])" for p
  proof
    assume "p < total_pages s"
    then have "unat p < n" using assms by (simp add: word_less_nat_alt)
    then have "of_nat (unat p) \<in> (of_nat ` {0..<n} :: u64 set)" by (intro imageI) simp
    then show "p \<in> set (map of_nat [0..<n])" by simp
  next
    assume "p \<in> set (map of_nat [0..<n])"
    then obtain k where "k < n" "p = of_nat k" by auto
    then show "p < total_pages s"
      using assms unat_u64_less[of "total_pages s"] by (simp add: word_less_nat_alt unat_of_nat)
  qed
  then show ?thesis by (auto simp: free_frames_def)
qed

lemma free_frames_witness_vm: "free_frames witness_vm = {1, 2, 4, 8, 10}"
proof -
  have "free_frames witness_vm = free_frames witness_vm0"
    by (simp add: witness_vm_def free_frames_def set_entry_def)
  also have "\<dots> = set (filter (\<lambda>p. \<not> bitmap_is_used (bitmap witness_vm0) p) (map of_nat [0..<16]))"
    by (rule free_frames_bounded) (simp add: witness_vm0_def)
  also have "\<dots> = {1, 2, 4, 8, 10}" by code_simp
  finally show ?thesis .
qed

lemma witness_vm_avail: "avail_pages witness_vm = {0x1000, 0x2000, 0x4000, 0x8000, 0xA000}"
  by (simp add: avail_pages_def free_frames_witness_vm PAGE_SIZE_def)

lemma witness_vm_pmm: "pmm_inv witness_vm"
proof -
  have "card {1, 2, 4, 8, 10 :: u64} = 5" by code_simp
  then show ?thesis
    by (simp add: pmm_inv_def free_frames_witness_vm) (simp add: witness_vm_def witness_vm0_def set_entry_def)
qed

lemma witness_vm_inv: "vm_inv (user_slots 0x3000) witness_vm"
proof -
  have r: "r = 0x3000" "length p \<le> 3" if "on_path (user_slots 0x3000) r p" for r p
    using that by (auto simp: on_path_def user_slots_def split: list.splits)
  have w: "(p, t) \<in> {([], 0x3000), ([0], 0x5000), ([0, 0], 0x6000), ([0, 0, 2], 0x7000)}"
    if "on_path (user_slots 0x3000) r p" "walk (tabs witness_vm) r p = Some t" for r p t
    using walk_witness_vm[of p t] r[OF that(1)] that(2) by simp
  have "pt_wf (user_slots 0x3000) (avail_pages witness_vm) (tabs witness_vm)"
    unfolding pt_wf_def witness_vm_avail
  proof (intro conjI allI impI)
    fix r p r' p' t
    assume a: "on_path (user_slots 0x3000) r p" "on_path (user_slots 0x3000) r' p'"
      "walk (tabs witness_vm) r p = Some t" "walk (tabs witness_vm) r' p' = Some t"
    show "r = r'" using r(1)[OF a(1)] r(1)[OF a(2)] by simp
    show "p = p'" using w[OF a(1,3)] w[OF a(2,4)] by auto
  next
    fix r p t assume a: "on_path (user_slots 0x3000) r p" "walk (tabs witness_vm) r p = Some t"
    then show "page_addr t" "t \<notin> {0x1000, 0x2000, 0x4000, 0x8000, 0xA000}" using w[OF a] by auto
  qed
  moreover have "total_pages witness_vm \<le> 2 ^ 40"
    by (simp add: witness_vm_def witness_vm0_def set_entry_def)
  ultimately show ?thesis using witness_vm_pmm by (simp add: vm_inv_def)
qed

section \<open>Properties\<close>

text \<open>
  C6. A successful \<^verbatim>\<open>vmm_map_page\<close> makes exactly the page of \<open>virt\<close> translate to the given
  frame with the given flags; every other page of every address space
  translates as before, and the table tree stays well-formed.
\<close>

theorem vmm_map_page_maps:
  assumes "vm_inv D s" "(r, PML4_INDEX virt) \<in> D" "vmm_map_page r virt phys flags s = (0, s')"
    "flags AND PTE_PRESENT \<noteq> 0" "flags AND PTE_ADDR_MASK = 0"
  shows "vmm_get_physical r virt s' = phys AND PTE_ADDR_MASK \<and> vmm_get_pte_flags r virt s' = flags
    \<and> vm_inv D s'
    \<and> (\<forall>r' va. (r', PML4_INDEX va) \<in> D \<longrightarrow> \<not> (r' = r \<and> same_vpage va virt) \<longrightarrow>
         vmm_get_physical r' va s' = vmm_get_physical r' va s
         \<and> vmm_get_pte_flags r' va s' = vmm_get_pte_flags r' va s)"
proof -
  have inv': "vm_inv D s'" and P: "\<And>r' ix. on_leaf D r' ix \<Longrightarrow>
      pte (tabs s') r' ix = (if r' = r \<and> ix = vidx virt then (phys AND PTE_ADDR_MASK) OR flags else pte (tabs s) r' ix)"
    using vmm_map_page_spec[OF assms(1-3)] by auto
  show ?thesis using inv' leaf_update_view[OF assms(1,2) P assms(4,5)] by blast
qed

theorem vmm_map_page_maps_witness:
  "vmm_get_physical 0x3000 0x40000000 (snd (vmm_map_page 0x3000 0x40000000 0xA000 7 witness_vm)) = 0xA000
   \<and> vmm_get_physical 0x3000 0x400000 (snd (vmm_map_page 0x3000 0x40000000 0xA000 7 witness_vm)) = 0x9000"
proof -
  obtain rc s' where m: "vmm_map_page 0x3000 0x40000000 0xA000 7 witness_vm = (rc, s')"
    by (cases "vmm_map_page 0x3000 0x40000000 0xA000 7 witness_vm")
  have d: "(0x3000, PML4_INDEX 0x40000000) \<in> user_slots 0x3000" "(0x3000, PML4_INDEX 0x400000) \<in> user_slots 0x3000"
    by (simp_all add: user_slots_def PML4_INDEX_def)
  have "card (avail_pages witness_vm) = 5" unfolding witness_vm_avail by code_simp
  then have "rc = 0" using vmm_map_page_spec[OF witness_vm_inv d(1) m] by auto
  then have m0: "vmm_map_page 0x3000 0x40000000 0xA000 7 witness_vm = (0, s')" using m by simp
  have f: "(7 :: u64) AND PTE_PRESENT \<noteq> 0" "(7 :: u64) AND PTE_ADDR_MASK = 0"
    by (simp_all add: PTE_PRESENT_def PTE_ADDR_MASK_def)
  note t = vmm_map_page_maps[OF witness_vm_inv d(1) m0 f]
  have "vmm_get_physical 0x3000 0x400000 witness_vm = 0x9000"
    by (simp add: vmm_get_physical_pte pte_def vidx_def vpath_def Let_def tabs_witness_vm
        PML4_INDEX_def PDPT_INDEX_def PD_INDEX_def PT_INDEX_def)
  moreover have "\<not> same_vpage 0x400000 0x40000000" by (simp add: same_vpage_def)
  moreover have "(0xA000 :: u64) AND PTE_ADDR_MASK = 0xA000" by (simp add: PTE_ADDR_MASK_def)
  ultimately show ?thesis using t d(2) m0 by simp
qed


text \<open>
  C7. A failed \<^verbatim>\<open>vmm_map_page\<close> returns -1 and undoes everything: every translation and the set of
  available pages are as before. It fails only when fewer than three pages are
  available, the most a mapping can need.
\<close>

theorem vmm_map_page_fails_cleanly:
  assumes "vm_inv D s" "(r, PML4_INDEX virt) \<in> D" "vmm_map_page r virt phys flags s = (rc, s')" "rc \<noteq> 0"
  shows "rc = -1 \<and> vm_inv D s' \<and> avail_pages s' = avail_pages s \<and> owned_pages s' = owned_pages s
    \<and> (\<forall>r' va. (r', PML4_INDEX va) \<in> D \<longrightarrow>
         vmm_get_physical r' va s' = vmm_get_physical r' va s
         \<and> vmm_get_pte_flags r' va s' = vmm_get_pte_flags r' va s)
    \<and> card (avail_pages s) < 3"
proof -
  have f: "rc = -1" "vm_inv D s'" "same_view D (tabs s) (tabs s')" "avail_pages s' = avail_pages s"
    "owned_pages s' = owned_pages s" "card (avail_pages s) \<le> 2"
    using vmm_map_page_spec[OF assms(1-3)] assms(4) by auto
  show ?thesis
    using f on_leaf_vidx vm_inv_root[OF assms(1)]
    by (auto simp: same_view_def vmm_get_physical_pte vmm_get_pte_flags_pte)
qed

definition witness_full :: page_state where
  "witness_full = witness_vm\<lparr>bitmap := \<lambda>_. 0xFF, free_pages := 0\<rparr>"

lemma witness_full_inv: "vm_inv (user_slots 0x3000) witness_full" "avail_pages witness_full = {}"
proof -
  have tb: "tabs witness_full = tabs witness_vm" by (rule tabs_cong) (simp add: witness_full_def)
  have u: "bitmap_is_used (\<lambda>_. 0xFF) p" if "p < 16" for p
  proof -
    have "(0xFF :: u8) = mask 8" by (simp add: mask_eq_exp_minus_1)
    then show ?thesis using bitmap_slot_small[of p]
      by (simp only: bitmap_is_used_bit bit_mask_iff) simp
  qed
  have tp: "total_pages witness_full = 16"
    by (simp add: witness_full_def witness_vm_def witness_vm0_def set_entry_def)
  have ff: "free_frames witness_full = {}" using u tp by (auto simp: free_frames_def witness_full_def)
  then show av: "avail_pages witness_full = {}" by (simp add: avail_pages_def)
  have "pmm_inv witness_full" using ff tp by (simp add: pmm_inv_def) (simp add: witness_full_def)
  moreover have "pt_wf (user_slots 0x3000) {} (tabs witness_vm)"
    using witness_vm_inv by (auto simp: vm_inv_def pt_wf_def)
  ultimately show "vm_inv (user_slots 0x3000) witness_full" using tp by (simp add: vm_inv_def tb av)
qed

theorem vmm_map_page_fails_cleanly_witness:
  "fst (vmm_map_page 0x3000 0x40000000 0xA000 7 witness_full) = -1
   \<and> avail_pages (snd (vmm_map_page 0x3000 0x40000000 0xA000 7 witness_full)) = {}"
proof -
  have d: "(0x3000, PML4_INDEX 0x40000000) \<in> user_slots 0x3000"
    by (simp add: user_slots_def PML4_INDEX_def)
  obtain rc s' where m: "vmm_map_page 0x3000 0x40000000 0xA000 7 witness_full = (rc, s')"
    by (cases "vmm_map_page 0x3000 0x40000000 0xA000 7 witness_full")
  have tb: "tabs witness_full = tabs witness_vm" by (rule tabs_cong) (simp add: witness_full_def)
  have "alloc_page_table witness_full = (0, witness_full)"
    by (rule alloc_page_table_None) (use witness_full_inv in \<open>simp_all add: vm_inv_def\<close>)
  then have "rc \<noteq> 0" using m
    by (auto simp: vmm_map_page_def next_table_def Let_def get_entry_tabs tb tabs_witness_vm
        PML4_INDEX_def PDPT_INDEX_def PTE_USER_def drop_table_def)
  from vmm_map_page_fails_cleanly[OF witness_full_inv(1) d m this] show ?thesis
    using m witness_full_inv(2) by simp
qed



text \<open>
  C9. \<^verbatim>\<open>vmm_user_range_readable\<close> and \<^verbatim>\<open>vmm_user_range_writable\<close> always return, and return true exactly when the range
  is non-empty, does not start at 0, ends at or below the top of user space without wrapping, and every byte of it lies
  on a page that is present and user-accessible (and, for writing, writable or copy-on-write).
\<close>

theorem vmm_user_range_correct:
  assumes "page_addr r"
  shows "vmm_user_range_readable r ptr len s
      = Some (0 < ptr \<and> 0 < len \<and> unat ptr + unat len \<le> 2 ^ 47 \<and> (\<forall>a. ptr \<le> a \<and> a < ptr + len \<longrightarrow>
          vmm_get_pte_flags r a s AND PTE_PRESENT \<noteq> 0 \<and> vmm_get_pte_flags r a s AND PTE_USER \<noteq> 0))
    \<and> vmm_user_range_writable r ptr len s
      = Some (0 < ptr \<and> 0 < len \<and> unat ptr + unat len \<le> 2 ^ 47 \<and> (\<forall>a. ptr \<le> a \<and> a < ptr + len \<longrightarrow>
          vmm_get_pte_flags r a s AND PTE_PRESENT \<noteq> 0 \<and> vmm_get_pte_flags r a s AND PTE_USER \<noteq> 0
          \<and> (vmm_get_pte_flags r a s AND PTE_WRITABLE \<noteq> 0 \<or> vmm_get_pte_flags r a s AND PTE_COW \<noteq> 0)))"
  by (auto simp: vmm_user_range_readable_def vmm_user_range_writable_def user_range_check_spec[OF assms]
      vmm_validate_user_range_iff user_page_ok_def PTE_WRITABLE_def PTE_COW_def)

theorem vmm_user_range_correct_witness:
  "vmm_user_range_writable 0x3000 0x400000 16 witness_vm = Some True
   \<and> vmm_user_range_readable 0x3000 0x400FF8 16 witness_vm = Some False"
proof -
  have pa: "page_addr (0x3000 :: u64)" by simp
  have i: "PML4_INDEX 0x400000 = 0" "PDPT_INDEX 0x400000 = 0" "PD_INDEX 0x400000 = 2" "PT_INDEX 0x400000 = 0"
    "PML4_INDEX 0x401000 = 0" "PDPT_INDEX 0x401000 = 0" "PD_INDEX 0x401000 = 2" "PT_INDEX 0x401000 = 1"
    by (simp_all add: PML4_INDEX_def PDPT_INDEX_def PD_INDEX_def PT_INDEX_def)
  have f: "vmm_get_pte_flags 0x3000 0x400000 witness_vm = 7" "vmm_get_pte_flags 0x3000 0x401000 witness_vm = 0"
    by (simp_all add: vmm_get_pte_flags_def Let_def get_entry_tabs tabs_witness_vm i PTE_ADDR_MASK_def present_def PTE_PRESENT_def)
  have same: "vmm_get_pte_flags 0x3000 a witness_vm = 7" if "0x400000 \<le> a \<and> a < 0x400000 + 16" for a
  proof -
    have "unat a div 4096 = 1024"
      by (rule div_nat_eqI) (use that in \<open>simp_all add: word_le_nat_alt word_less_nat_alt\<close>)
    then have "unat a div 4096 = unat (0x400000 :: u64) div 4096" by simp
    then have "same_vpage a 0x400000" by (rule vpath_page_offset)
    show ?thesis unfolding vmm_get_pte_flags_page[OF pa \<open>same_vpage a 0x400000\<close>] by (rule f(1))
  qed
  have w: "vmm_user_range_writable 0x3000 0x400000 16 witness_vm = Some True"
    unfolding conjunct2[OF vmm_user_range_correct[OF pa]]
    by (auto simp: same PTE_PRESENT_def PTE_USER_def PTE_WRITABLE_def)
  have "(0x400FF8 :: u64) \<le> 0x401000 \<and> (0x401000 :: u64) < 0x400FF8 + 16" by simp
  then have "vmm_user_range_readable 0x3000 0x400FF8 16 witness_vm = Some False"
    unfolding conjunct1[OF vmm_user_range_correct[OF pa]] using f(2) by (auto intro!: exI[of _ "0x401000 :: u64"])
  with w show ?thesis by simp
qed

end
