(* ===== verification/Vmm_Space.thy ===== *)
theory Vmm_Space
  imports Vmm_Map
begin

text \<open>
  Address spaces as a whole: \<^verbatim>\<open>vmm_create_address_space\<close>,
  \<^verbatim>\<open>vmm_free_user_address_space\<close> and \<^verbatim>\<open>vmm_copy_address_space_cow\<close> of \<^verbatim>\<open>mm/vmm.c\<close>.
  The nested loops of the copy are verified once for all levels: \<open>copy_ok\<close> is what
  the copy of a subtree promises, the loop over one table keeps it, given that the loop of
  the level below does.
\<close>

section \<open>Creating an address space\<close>

lemma copy_kernel_half_mem: "\<exists>m. copy_kernel_half src dst s = s\<lparr>mem := m\<rparr>"
proof -
  have "\<exists>m. fold (\<lambda>i s. set_entry dst (of_nat i) (get_entry s src (of_nat i)) s) xs s = s\<lparr>mem := m\<rparr>"
    for xs and s :: "'a pmm_state_scheme"
  proof (induction xs arbitrary: s)
    case Nil
    show ?case by (auto intro: exI[of _ "mem s"])
  next
    case (Cons x xs)
    let ?s = "set_entry dst (of_nat x) (get_entry s src (of_nat x)) s"
    obtain m where m: "fold (\<lambda>i s. set_entry dst (of_nat i) (get_entry s src (of_nat i)) s) xs ?s = ?s\<lparr>mem := m\<rparr>"
      using Cons.IH by blast
    have "?s\<lparr>mem := m\<rparr> = s\<lparr>mem := m\<rparr>" by (simp add: set_entry_def)
    then show ?case using m by auto
  qed
  then show ?thesis by (simp add: copy_kernel_half_def)
qed

lemma pmm_view_copy_kernel_half [simp]:
  "avail_pages (copy_kernel_half src dst s) = avail_pages s" "owned_pages (copy_kernel_half src dst s) = owned_pages s"
  "pmm_inv (copy_kernel_half src dst s) = pmm_inv s" "total_pages (copy_kernel_half src dst s) = total_pages s"
  using copy_kernel_half_mem[of src dst s] by auto

lemma new_root_wf:
  assumes wf: "pt_wf D A T" and a: "a \<in> A" "page_addr a" "a \<notin> fst ` D" and f: "\<forall>i. i < 256 \<longrightarrow> \<not> present (f i)"
  shows "pt_wf (D \<union> user_slots a) (A - {a}) (T(a := f))"
    and "on_leaf D r ix \<Longrightarrow> pte (T(a := f)) r ix = pte T r ix"
    and "on_leaf (user_slots a) a ix \<Longrightarrow> pte (T(a := f)) a ix = 0"
proof -
  have w: "walk (T(a := f)) r p = (if r = a then (if p = [] then Some a else None) else walk T r p)"
    if "on_path (D \<union> user_slots a) r p" for r p
  proof (cases "r = a")
    case True
    then show ?thesis using that a(3) f
      by (cases p) (auto simp: on_path_def user_slots_def image_iff)
  next
    case False
    then have "on_path D r p" using that by (auto simp: on_path_def user_slots_def split: list.splits)
    then show ?thesis using False walk_other_page[OF wf a(1)] by simp
  qed
  have op: "on_path (D \<union> user_slots a) r p \<Longrightarrow> r \<noteq> a \<Longrightarrow> on_path D r p" for r p
    by (auto simp: on_path_def user_slots_def split: list.splits)
  have old: "on_path D r' q \<Longrightarrow> walk T r' q = Some u \<Longrightarrow> u \<noteq> a \<and> u \<notin> A \<and> page_addr u" for r' q u
    using pt_wfD[OF wf] a(1) by metis
  have old2: "on_path D r1 q1 \<Longrightarrow> on_path D r2 q2 \<Longrightarrow> walk T r1 q1 = Some u \<Longrightarrow> walk T r2 q2 = Some u
      \<Longrightarrow> r1 = r2 \<and> q1 = q2" for r1 q1 r2 q2 u
    using wf unfolding pt_wf_def by blast
  show "pt_wf (D \<union> user_slots a) (A - {a}) (T(a := f))"
    unfolding pt_wf_def
    by (auto simp: w a(2) split: if_splits dest!: op dest: old old2)
  show "pte (T(a := f)) r ix = pte T r ix" if d: "on_leaf D r ix"
  proof -
    have q: "on_path D r (butlast ix)" using on_leaf_path[OF d] by blast
    show ?thesis
      using walk_other_page[OF wf a(1) q, of f] old[OF q] by (auto simp: pte_def split: option.splits)
  qed
  show "pte (T(a := f)) a ix = 0" if lf: "on_leaf (user_slots a) a ix"
  proof -
    obtain i j q where "ix = i # j # q" "i < 256"
      using lf by (cases ix; cases "tl ix") (auto simp: on_leaf_def user_slots_def)
    then show ?thesis using f by (simp add: pte_def)
  qed
qed

lemma vmm_create_spec:
  assumes inv: "vm_inv D s" and k: "page_addr (kernel_pml4_phys s)" "kernel_pml4_phys s \<notin> avail_pages s"
    and ne: "avail_pages s \<noteq> {}"
  shows "\<exists>r s'. vmm_create_address_space s = Some (r, s') \<and> r \<noteq> 0 \<and> page_addr r \<and> r \<in> avail_pages s
    \<and> vm_inv (D \<union> user_slots r) s' \<and> avail_pages s' = avail_pages s - {r} \<and> owned_pages s' = insert r (owned_pages s)
    \<and> same_view D (tabs s) (tabs s')
    \<and> (\<forall>i. tabs s' r i = (if 256 \<le> i then tabs s (kernel_pml4_phys s) i else 0))
    \<and> (\<forall>t. t \<noteq> r \<longrightarrow> tabs s' t = tabs s t)"
proof -
  obtain a s1 where a: "alloc_page_table s = (a, s1)" "a \<in> avail_pages s" "a \<noteq> 0" "page_addr a" "a < 2 ^ 52"
    "pmm_inv s1" "avail_pages s1 = avail_pages s - {a}" "owned_pages s1 = insert a (owned_pages s)"
    "tabs s1 = (tabs s)(a := \<lambda>_. 0)" "total_pages s1 = total_pages s"
    using alloc_page_table_Some[OF inv ne] by blast
  have kp: "kernel_pml4_phys s1 = kernel_pml4_phys s"
  proof -
    have "s1 = zero_table a (snd (pmm_alloc s)) \<or> s1 = snd (pmm_alloc s)"
      using a(1) by (auto simp: alloc_page_table_def split: prod.splits if_splits)
    then show ?thesis using zero_table_mem[of a "snd (pmm_alloc s)"]
      by (auto simp: pmm_alloc_def split: option.splits)
  qed
  let ?s = "copy_kernel_half (kernel_pml4_phys s) a s1"
  have ka: "kernel_pml4_phys s \<noteq> a" using k(2) a(2) by blast
  let ?f = "\<lambda>i. if 256 \<le> i then tabs s (kernel_pml4_phys s) i else 0"
  have T': "tabs ?s = (tabs s)(a := ?f)"
    using ka by (simp add: tabs_copy_kernel_half[OF k(1) a(4) ka] a(9) fun_eq_iff)
  have eq: "vmm_create_address_space s = Some (a, ?s)"
    using a(1,3) kp by (simp add: vmm_create_address_space_def)
  have wf: "pt_wf D (avail_pages s) (tabs s)" and tp: "total_pages s \<le> 2 ^ 40" using inv by (simp_all add: vm_inv_def)
  have aD: "a \<notin> fst ` D" using pt_wfD(2)[OF wf, of a "[]" a] a(2) by (auto simp: on_path_def)
  have f: "\<forall>i. i < 256 \<longrightarrow> \<not> present (?f i)" by auto
  note n = new_root_wf[where f = ?f, OF wf a(2,4) aD f]
  have "vm_inv (D \<union> user_slots a) ?s" using n(1) a(6,7,10) tp by (simp add: vm_inv_def T')
  then show ?thesis using eq a n(2) by (auto simp: T' same_view_def)
qed

section \<open>Releasing an address space\<close>

text \<open>Giving a set of pages back: those in use become available, nothing else changes.\<close>

definition released :: "u64 set \<Rightarrow> 'a pmm_state_scheme \<Rightarrow> 'a pmm_state_scheme \<Rightarrow> bool" where
  "released X s s' \<longleftrightarrow> pmm_inv s' \<and> mem s' = mem s \<and> total_pages s' = total_pages s
     \<and> avail_pages s' = avail_pages s \<union> (X \<inter> owned_pages s) \<and> owned_pages s' = owned_pages s - X"

lemma released_refl: "pmm_inv s \<Longrightarrow> released {} s s"
  by (simp add: released_def)

lemma released_trans: "released X s s1 \<Longrightarrow> released Y s1 s2 \<Longrightarrow> released (X \<union> Y) s s2"
  by (auto simp: released_def)

lemma pmm_free_not_owned:
  assumes "a \<noteq> 0" "a \<notin> owned_pages s"
  shows "pmm_free a s = s"
proof (cases "4096 dvd unat a \<and> a div PAGE_SIZE < total_pages s")
  case True
  then have "a mod PAGE_SIZE = 0" by (simp add: word_unat_eq_iff unat_mod)
  then have a: "a = a div PAGE_SIZE * PAGE_SIZE" using div_mult_mod_eq[of a PAGE_SIZE] by simp
  then have "0 < a div PAGE_SIZE" using assms(1) by (metis mult_zero_left word_gt_0)
  then have "\<not> bitmap_is_used (bitmap s) (a div PAGE_SIZE)"
    using assms(2) True a by (auto simp: owned_pages_def)
  then show ?thesis by (simp add: pmm_free_refused)
qed (use pmm_free_refused in \<open>auto simp: not_less\<close>)

lemma released_pmm_free:
  assumes "pmm_inv s" "a \<noteq> 0"
  shows "released {a} s (pmm_free a s)"
proof (cases "a \<in> owned_pages s")
  case True
  then show ?thesis using pmm.free_returns[OF assms(1) True] by (auto simp: released_def frame_simps)
qed (use assms pmm_free_not_owned[of a s] in \<open>auto simp: released_def\<close>)

text \<open>Where the first \<open>n\<close> entries of a table lead.\<close>

definition targets :: "(u64 \<Rightarrow> u64 \<Rightarrow> u64) \<Rightarrow> u64 \<Rightarrow> nat \<Rightarrow> u64 set" where
  "targets T t n = {T t (of_nat i) AND PTE_ADDR_MASK | i. i < n \<and> present (T t (of_nat i))}"

definition user_pages :: "(u64 \<Rightarrow> u64 \<Rightarrow> u64) \<Rightarrow> u64 \<Rightarrow> u64 set" where
  "user_pages T r = {r} \<union> (\<Union>u3 \<in> targets T r 256. {u3} \<union> (\<Union>u2 \<in> targets T u3 512. {u2} \<union>
     (\<Union>u1 \<in> targets T u2 512. {u1} \<union> targets T u1 512)))"

lemma targets_Suc:
  "targets T t (Suc n) = targets T t n \<union>
     (if present (T t (of_nat n)) then {T t (of_nat n) AND PTE_ADDR_MASK} else {})"
  by (auto simp: targets_def less_Suc_eq)

lemma targets_0 [simp]: "targets T t 0 = {}"
  by (simp add: targets_def)

lemma targets_page_addr: "u \<in> targets T t n \<Longrightarrow> page_addr u"
  by (auto simp: targets_def)

lemma targets_mono: "m \<le> n \<Longrightarrow> targets T t m \<subseteq> targets T t n"
  by (auto simp: targets_def intro: less_le_trans)

lemma free_pt_released:
  assumes inv: "pmm_inv s" and pt: "page_addr pt" and nz: "0 \<notin> targets (tabs s) pt 512"
  shows "released (targets (tabs s) pt 512) s (free_pt pt s)"
proof -
  have "released (targets (tabs s) pt n) s
      (fold (\<lambda>l s. let e = get_entry s pt (of_nat l) in
             if present e then pmm_free (e AND PTE_ADDR_MASK) s else s) [0..<n] s)" (is "released _ s (?f n)")
    if "n \<le> 512" for n
    using that
  proof (induction n)
    case (Suc n)
    then have IH: "released (targets (tabs s) pt n) s (?f n)" by simp
    have T: "tabs (?f n) = tabs s" by (rule tabs_cong) (use IH in \<open>simp add: released_def\<close>)
    have e: "get_entry (?f n) pt (of_nat n) = tabs s pt (of_nat n)"
      using get_entry_tabs[OF pt small_index, of n "?f n"] Suc.prems T by simp
    have "tabs s pt (of_nat n) AND PTE_ADDR_MASK \<noteq> 0" if "present (tabs s pt (of_nat n))"
    proof -
      have "tabs s pt (of_nat n) AND PTE_ADDR_MASK \<in> targets (tabs s) pt (Suc n)"
        using that by (simp add: targets_Suc)
      then have "tabs s pt (of_nat n) AND PTE_ADDR_MASK \<in> targets (tabs s) pt 512"
        using targets_mono[OF Suc.prems] by blast
      then show ?thesis using nz by metis
    qed
    then have "present (tabs s pt (of_nat n)) \<Longrightarrow>
        released {tabs s pt (of_nat n) AND PTE_ADDR_MASK} (?f n) (pmm_free (tabs s pt (of_nat n) AND PTE_ADDR_MASK) (?f n))"
      by (intro released_pmm_free) (use IH in \<open>simp_all add: released_def\<close>)
    moreover have step: "?f (Suc n) = (if present (tabs s pt (of_nat n))
        then pmm_free (tabs s pt (of_nat n) AND PTE_ADDR_MASK) (?f n) else ?f n)"
      by (simp add: e Let_def[of "tabs s pt (of_nat n)"])
    ultimately show ?case unfolding step using IH released_trans[OF IH]
      by (simp add: targets_Suc del: Un_insert_right)
  qed (simp add: released_refl inv)
  then show ?thesis unfolding free_pt_def PAGE_TABLE_ENTRIES_def by blast
qed

lemma free_entries_released:
  assumes inv: "pmm_inv s" and t: "page_addr t" and n: "n \<le> 512" and nz: "0 \<notin> targets (tabs s) t n"
    and f: "\<And>u x. u \<in> targets (tabs s) t n \<Longrightarrow> pmm_inv x \<Longrightarrow> tabs x = tabs s \<Longrightarrow> released (R u) x (f u x)"
  shows "released (\<Union>u \<in> targets (tabs s) t n. {u} \<union> R u) s (free_entries n f t s)"
proof -
  have "released (\<Union>u \<in> targets (tabs s) t m. {u} \<union> R u) s
      (fold (\<lambda>i s. if \<not> present (get_entry s t (of_nat i)) then s
             else let s1 = f (get_entry s t (of_nat i) AND PTE_ADDR_MASK) s in
               pmm_free (get_entry s1 t (of_nat i) AND PTE_ADDR_MASK) s1) [0..<m] s)" (is "released _ s (?g m)")
    if "m \<le> n" for m
    using that
  proof (induction m)
    case (Suc m)
    then have IH: "released (\<Union>u \<in> targets (tabs s) t m. {u} \<union> R u) s (?g m)" by simp
    let ?x = "?g m" and ?e = "tabs s t (of_nat m)"
    have T: "tabs ?x = tabs s" by (rule tabs_cong) (use IH in \<open>simp add: released_def\<close>)
    have ge: "get_entry x t (of_nat m) = tabs x t (of_nat m)" for x :: "'a pmm_state_scheme"
      by (rule get_entry_tabs[OF t small_index]) (use Suc.prems n in simp)
    show ?case
    proof (cases "present ?e")
      case True
      let ?u = "?e AND PTE_ADDR_MASK"
      have "?u \<in> targets (tabs s) t (Suc m)" using True by (simp add: targets_Suc)
      then have u: "?u \<in> targets (tabs s) t n" using targets_mono[OF Suc.prems] by blast
      then have u0: "?u \<noteq> 0" using nz by metis
      have r1: "released (R ?u) ?x (f ?u ?x)" by (rule f[OF u _ T]) (use IH in \<open>simp add: released_def\<close>)
      have T1: "tabs (f ?u ?x) = tabs s" using tabs_cong[of "f ?u ?x" ?x] r1 T by (simp add: released_def)
      have r2: "released {?u} (f ?u ?x) (pmm_free ?u (f ?u ?x))"
        by (rule released_pmm_free[OF _ u0]) (use r1 in \<open>simp add: released_def\<close>)
      have "?g (Suc m) = pmm_free ?u (f ?u ?x)" using True by (simp add: ge T T1 Let_def)
      moreover have "(\<Union>u \<in> targets (tabs s) t (Suc m). {u} \<union> R u)
          = (\<Union>u \<in> targets (tabs s) t m. {u} \<union> R u) \<union> R ?u \<union> {?u}"
        using True by (auto simp: targets_Suc)
      ultimately show ?thesis using released_trans[OF released_trans[OF IH r1] r2] by simp
    next
      case False
      then show ?thesis using IH by (simp add: ge T targets_Suc)
    qed
  qed (simp add: released_refl inv)
  then show ?thesis unfolding free_entries_def by blast
qed

lemma vmm_free_user_released:
  assumes inv: "pmm_inv s" and r: "page_addr r" and nz: "0 \<notin> user_pages (tabs s) r"
  shows "released (user_pages (tabs s) r) s (vmm_free_user_address_space r s)"
proof -
  let ?T = "tabs s"
  have nz1: "0 \<notin> targets ?T u1 512" if "u3 \<in> targets ?T r 256" "u2 \<in> targets ?T u3 512" "u1 \<in> targets ?T u2 512" for u1 u2 u3
    using nz that unfolding user_pages_def by blast
  have nz2: "0 \<notin> targets ?T u2 512" if "u3 \<in> targets ?T r 256" "u2 \<in> targets ?T u3 512" for u2 u3
    using nz that unfolding user_pages_def by blast
  have nz3: "0 \<notin> targets ?T u3 512" if "u3 \<in> targets ?T r 256" for u3
    using nz that unfolding user_pages_def by blast
  have nz4: "0 \<notin> targets ?T r 256" "r \<noteq> 0"
    using nz unfolding user_pages_def by blast+
  have l1: "released (targets ?T u1 512) x (free_pt u1 x)"
    if "u3 \<in> targets ?T r 256" "u2 \<in> targets ?T u3 512" "u1 \<in> targets ?T u2 512" "pmm_inv x" "tabs x = ?T"
    for u1 u2 u3 and x :: "'a pmm_state_scheme"
    using free_pt_released[OF that(4) targets_page_addr[OF that(3)]] nz1[OF that(1-3)] that(5) by simp
  have l2: "released (\<Union>u1 \<in> targets ?T u2 512. {u1} \<union> targets ?T u1 512) x (free_entries 512 free_pt u2 x)"
    if u: "u3 \<in> targets ?T r 256" "u2 \<in> targets ?T u3 512" "pmm_inv x" "tabs x = ?T"
    for u2 u3 and x :: "'a pmm_state_scheme"
    using free_entries_released[OF that(3) targets_page_addr[OF that(2)] order.refl, of "\<lambda>u1. targets ?T u1 512" free_pt]
      nz2[OF that(1,2)] that(4) l1[OF that(1,2)] by simp
  have l3: "released (\<Union>u2 \<in> targets ?T u3 512. {u2} \<union> (\<Union>u1 \<in> targets ?T u2 512. {u1} \<union> targets ?T u1 512)) x
      (free_entries 512 (free_entries 512 free_pt) u3 x)"
    if u: "u3 \<in> targets ?T r 256" "pmm_inv x" "tabs x = ?T" for u3 and x :: "'a pmm_state_scheme"
    using free_entries_released[OF that(2) targets_page_addr[OF that(1)] order.refl,
        of "\<lambda>u2. (\<Union>u1 \<in> targets ?T u2 512. {u1} \<union> targets ?T u1 512)" "free_entries 512 free_pt"]
      nz3[OF that(1)] that(3) l2[OF that(1)] by simp
  have "released (\<Union>u3 \<in> targets ?T r 256. {u3} \<union> (\<Union>u2 \<in> targets ?T u3 512. {u2} \<union>
       (\<Union>u1 \<in> targets ?T u2 512. {u1} \<union> targets ?T u1 512))) s
      (free_entries 256 (free_entries 512 (free_entries 512 free_pt)) r s)" (is "released ?X s ?s")
    using free_entries_released[OF inv r _ nz4(1),
        of "\<lambda>u3. \<Union>u2 \<in> targets ?T u3 512. {u2} \<union> (\<Union>u1 \<in> targets ?T u2 512. {u1} \<union> targets ?T u1 512)"
           "free_entries 512 (free_entries 512 free_pt)"] l3 by simp
  moreover then have "released {r} ?s (pmm_free r ?s)"
    by (intro released_pmm_free nz4(2)) (simp add: released_def)
  ultimately have "released (?X \<union> {r}) s (pmm_free r ?s)" by (rule released_trans)
  then show ?thesis
    by (simp add: user_pages_def vmm_free_user_address_space_def PAGE_TABLE_ENTRIES_USER_def PAGE_TABLE_ENTRIES_def)
qed

section \<open>The copy-on-write copy\<close>

text \<open>The leaves below path \<open>p\<close> whose next index is below \<open>n\<close>: what a loop at \<open>p\<close> has handled after \<open>n\<close> iterations.\<close>

definition in_part :: "u64 list \<Rightarrow> nat \<Rightarrow> u64 list \<Rightarrow> bool" where
  "in_part p n q \<longleftrightarrow> length p < length q \<and> take (length p) q = p \<and> unat (q ! length p) < n"

definition cow :: "u64 \<Rightarrow> u64" where
  "cow e = (if present e then (e AND PTE_ADDR_MASK) OR cow_flags (e AND NOT PTE_ADDR_MASK) else e)"

definition mappings :: "(u64 \<times> u64) set \<Rightarrow> (u64 \<Rightarrow> u64 \<Rightarrow> u64) \<Rightarrow> u64 \<Rightarrow> u64 list \<Rightarrow> nat \<Rightarrow> u64 \<Rightarrow> u64 list set" where
  "mappings D T r p n a = {ix. on_leaf D r ix \<and> in_part p n ix \<and> present (pte T r ix) \<and> pte T r ix AND PTE_ADDR_MASK = a}"

text \<open>The tables of \<open>r\<close> below \<open>p\<close>, by their paths.\<close>

definition tables :: "(u64 \<times> u64) set \<Rightarrow> (u64 \<Rightarrow> u64 \<Rightarrow> u64) \<Rightarrow> u64 \<Rightarrow> u64 list \<Rightarrow> nat \<Rightarrow> u64 list set" where
  "tables D T r p n = {q. on_path D r q \<and> in_part p n q \<and> walk T r q \<noteq> None}"

definition copied ::
  "(u64 \<times> u64) set \<Rightarrow> u64 \<Rightarrow> u64 \<Rightarrow> u64 list \<Rightarrow> nat \<Rightarrow> 'a page_state_scheme \<Rightarrow> 'a page_state_scheme \<Rightarrow> bool" where
  "copied D src dst p n s s' \<longleftrightarrow> vm_inv D s'
     \<and> (\<forall>r ix. on_leaf D r ix \<longrightarrow> pte (tabs s') r ix =
          (if in_part p n ix \<and> r = src then cow (pte (tabs s) src ix)
           else if in_part p n ix \<and> r = dst \<and> present (pte (tabs s) src ix) then cow (pte (tabs s) src ix)
           else pte (tabs s) r ix))
     \<and> (\<forall>r q. on_path D r q \<longrightarrow> \<not> (r = dst \<and> in_part p n q) \<longrightarrow> walk (tabs s') r q = walk (tabs s) r q)
     \<and> (\<forall>r i. r \<in> fst ` D \<longrightarrow> 256 \<le> i \<longrightarrow> tabs s' r i = tabs s r i)
     \<and> avail_pages s' \<subseteq> avail_pages s \<and> owned_pages s' = owned_pages s \<union> (avail_pages s - avail_pages s')
     \<and> card (avail_pages s) = card (avail_pages s') + card (tables D (tabs s) src p n)
     \<and> (\<forall>a. page_tracked a s' = page_tracked a s)
     \<and> (\<forall>a. page_addr a \<longrightarrow> page_tracked a s \<longrightarrow> unat (page_get_refcount a s')
          = min 255 (unat (page_get_refcount a s) + card (mappings D (tabs s) src p n a)))"

text \<open>Nothing is mapped yet in \<open>dst\<close> below \<open>p\<close> from index \<open>n\<close> on.\<close>

definition blank :: "(u64 \<times> u64) set \<Rightarrow> u64 \<Rightarrow> u64 list \<Rightarrow> nat \<Rightarrow> (u64 \<Rightarrow> u64 \<Rightarrow> u64) \<Rightarrow> bool" where
  "blank D dst p n T \<longleftrightarrow>
     (\<forall>ix. on_leaf D dst ix \<longrightarrow> take (length p) ix = p \<longrightarrow> \<not> in_part p n ix \<longrightarrow> pte T dst ix = 0)
     \<and> (\<forall>q. on_path D dst q \<longrightarrow> length p < length q \<longrightarrow> take (length p) q = p \<longrightarrow> \<not> in_part p n q \<longrightarrow> walk T dst q = None)"

lemma in_part_0 [simp]: "\<not> in_part p 0 q"
  by (simp add: in_part_def)

lemma in_part_Suc:
  assumes "n < 512" "\<forall>i \<in> set q. i < 512"
  shows "in_part p (Suc n) q \<longleftrightarrow> in_part p n q \<or> in_part (p @ [of_nat n]) 512 q \<or> q = p @ [of_nat n]"
    and "\<not> (in_part p n q \<and> in_part (p @ [of_nat n]) m q)" "\<not> in_part p n (p @ [of_nat n])"
proof -
  have n: "unat (of_nat n :: u64) = n" using assms(1) by (simp add: unat_of_nat)
  have s: "i < length q \<Longrightarrow> unat (q ! i) < 512" for i using assms(2) by (auto simp: word_less_nat_alt)
  have eq: "unat i = n \<longleftrightarrow> i = of_nat n" for i :: u64 using n by (auto simp: word_unat_eq_iff)
  show "in_part p (Suc n) q \<longleftrightarrow> in_part p n q \<or> in_part (p @ [of_nat n]) 512 q \<or> q = p @ [of_nat n]"
  proof (cases "length p < length q \<and> take (length p) q = p \<and> q ! length p = of_nat n")
    case True
    then have tk: "take (Suc (length p)) q = p @ [of_nat n]" by (simp add: take_Suc_conv_app_nth)
    then have "in_part (p @ [of_nat n]) 512 q \<or> q = p @ [of_nat n]"
      using True s by (cases "length q = Suc (length p)") (auto simp: in_part_def)
    then show ?thesis using True n by (auto simp: in_part_def)
  next
    case False
    then have "\<not> in_part (p @ [of_nat n]) 512 q" "q \<noteq> p @ [of_nat n]"
      by (auto simp: in_part_def take_Suc_conv_app_nth)
    then show ?thesis using False eq by (auto simp: in_part_def less_Suc_eq)
  qed
  show "\<not> (in_part p n q \<and> in_part (p @ [of_nat n]) m q)" "\<not> in_part p n (p @ [of_nat n])"
    using n by (auto simp: in_part_def take_Suc_conv_app_nth nth_append)
qed

lemma on_leaf_bound: "on_leaf D r ix \<Longrightarrow> \<forall>i \<in> set ix. i < 512"
  and on_path_bound: "on_path D r q \<Longrightarrow> \<forall>i \<in> set q. i < 512"
  by (simp_all add: on_leaf_def on_path_def)

lemma finite_mappings [simp]: "finite (mappings D T r p n a)"
proof -
  have "finite {ix :: u64 list. set ix \<subseteq> UNIV \<and> length ix = 4}" by (rule finite_lists_length_eq) simp
  then show ?thesis by (rule rev_finite_subset) (auto simp: mappings_def on_leaf_def)
qed

lemma finite_tables [simp]: "finite (tables D T r p n)"
proof -
  have "finite {q :: u64 list. set q \<subseteq> UNIV \<and> length q \<le> 3}" by (rule finite_lists_length_le) simp
  then show ?thesis by (rule rev_finite_subset) (auto simp: tables_def on_path_def)
qed

lemma tables_0 [simp]: "tables D T r p 0 = {}" "length p = 3 \<Longrightarrow> tables D T r p n = {}"
  by (auto simp: tables_def in_part_def on_path_def)

lemma tables_Suc:
  assumes "n < 512" "on_path D r (p @ [of_nat n])"
  shows "tables D T r p (Suc n) = tables D T r p n \<union> tables D T r (p @ [of_nat n]) 512
    \<union> (if walk T r (p @ [of_nat n]) = None then {} else {p @ [of_nat n]})"
    and "tables D T r p n \<inter> tables D T r (p @ [of_nat n]) 512 = {}"
    and "p @ [of_nat n] \<notin> tables D T r p n \<union> tables D T r (p @ [of_nat n]) 512"
proof -
  note part = in_part_Suc[OF assms(1) on_path_bound]
  show "tables D T r p (Suc n) = tables D T r p n \<union> tables D T r (p @ [of_nat n]) 512
    \<union> (if walk T r (p @ [of_nat n]) = None then {} else {p @ [of_nat n]})"
    using part(1) assms(2) by (auto simp: tables_def)
  show "tables D T r p n \<inter> tables D T r (p @ [of_nat n]) 512 = {}"
    using part(2) by (auto simp: tables_def)
  show "p @ [of_nat n] \<notin> tables D T r p n \<union> tables D T r (p @ [of_nat n]) 512"
    using part(3)[OF assms(2)] by (auto simp: tables_def in_part_def)
qed

lemma card_tables_Suc:
  assumes "n < 512" "on_path D r (p @ [of_nat n])"
  shows "card (tables D T r p (Suc n)) = card (tables D T r p n)
    + (if walk T r (p @ [of_nat n]) = None then 0 else Suc (card (tables D T r (p @ [of_nat n]) 512)))"
proof -
  have "walk T r (p @ [of_nat n]) = None \<Longrightarrow> tables D T r (p @ [of_nat n]) 512 = {}"
  proof -
    assume w: "walk T r (p @ [of_nat n]) = None"
    have "walk T r q = None" if "take (length (p @ [of_nat n])) q = p @ [of_nat n]" for q
      using w that by (metis append_take_drop_id walk_append bind.bind_lzero)
    then show ?thesis by (auto simp: tables_def in_part_def)
  qed
  then show ?thesis
    using card_Un_disjoint[OF _ _ tables_Suc(2)[OF assms, of T]] tables_Suc(3)[OF assms, of T]
    by (auto simp: tables_Suc(1)[OF assms])
qed

lemma copied_refl: "vm_inv D s \<Longrightarrow> copied D src dst p 0 s s"
proof -
  have "unat (c :: u8) \<le> 255" for c using unsigned_less[of c, where 'a = nat] by simp
  moreover have "mappings D T r p 0 a = {}" for T r a by (simp add: mappings_def)
  ultimately show "vm_inv D s \<Longrightarrow> copied D src dst p 0 s s" by (simp add: copied_def min_absorb2)
qed

lemma copied_blank:
  assumes c: "copied D src dst p n s s'" and b: "blank D dst p 0 (tabs s)" and "src \<noteq> dst"
  shows "blank D dst p n (tabs s')"
  using assms by (simp add: copied_def blank_def)

lemma page_ref_view [simp]:
  "avail_pages (page_ref a s) = avail_pages s" "owned_pages (page_ref a s) = owned_pages s"
  "pmm_inv (page_ref a s) = pmm_inv s" "total_pages (page_ref a s) = total_pages s" "mem (page_ref a s) = mem s"
  by (auto simp: page_ref_def Let_def avail_pages_def owned_pages_def pmm_inv_def free_frames_def split: option.splits)

lemma tabs_page_ref [simp]: "tabs (page_ref a s) = tabs s"
  by (rule tabs_cong) simp

lemma set_entry_counts [simp]:
  "page_get_refcount a (set_entry t i v s) = page_get_refcount a s"
  "page_tracked a (set_entry t i v s) = page_tracked a s"
  by (simp_all add: set_entry_def page_get_refcount_def page_tracked_def Let_def cong: option.case_cong)

lemma page_ref_count:
  assumes "page_tracked b s" "page_addr a" "page_addr b"
  shows "unat (page_get_refcount b (page_ref a s)) = min 255 (unat (page_get_refcount b s) + (if a = b then 1 else 0))"
proof -
  have le: "unat (c :: u8) \<le> 255" for c using unsigned_less[of c, where 'a = nat] by simp
  have "a div PAGE_SIZE = b div PAGE_SIZE \<longleftrightarrow> a = b"
    using assms(2,3) by (auto simp: word_unat_eq_iff unat_div elim!: dvdE)
  moreover have "unat (c + 1) = Suc (unat c)" if "c < 255" for c :: u8
    using that by (simp add: word_less_nat_alt unat_word_ariths)
  moreover have "page_tracked a s" if "a = b" using that assms(1) by simp
  ultimately show ?thesis
    using le[of "page_get_refcount b s"]
    by (auto simp: page_ref_set page_get_set_refcount word_less_nat_alt min_def)
qed

lemma present_odd: "present e \<longleftrightarrow> odd e"
  by (simp add: present_def PTE_PRESENT_def and_one_eq odd_iff_mod_2_eq_one)

lemma cow_flags_mask:
  assumes "f AND PTE_ADDR_MASK = 0"
  shows "cow_flags f AND PTE_ADDR_MASK = 0"
proof -
  have "(f AND NOT PTE_WRITABLE) AND PTE_ADDR_MASK = (f AND PTE_ADDR_MASK) AND NOT PTE_WRITABLE"
    by (simp only: and.assoc and.commute[of "NOT PTE_WRITABLE"])
  then show ?thesis using assms by (simp add: cow_flags_def bit.conj_disj_distrib2)
qed

lemma and_not_id:
  assumes "(x :: u64) AND m = 0"
  shows "x AND NOT m = x"
proof -
  have "x = (x AND m) OR (x AND NOT m)" by (simp only: bit.conj_disj_distrib[symmetric]) simp
  then show ?thesis using assms by simp
qed

lemma cow_present [simp]: "present (cow e) = present e" "cow e AND PTE_ADDR_MASK = e AND PTE_ADDR_MASK"
proof -
  have n: "cow_flags (e AND NOT PTE_ADDR_MASK) AND PTE_ADDR_MASK = 0"
    by (rule cow_flags_mask) (simp add: and.assoc)
  then show "cow e AND PTE_ADDR_MASK = e AND PTE_ADDR_MASK"
    by (simp add: cow_def bit.conj_disj_distrib2 and.assoc)
  show "present (cow e) = present e"
    by (auto simp: cow_def cow_flags_def present_odd even_and_iff even_or_iff even_not_iff
        PTE_ADDR_MASK_def PTE_WRITABLE_def PTE_COW_def)
qed

lemma cow_flags_of: "present e \<Longrightarrow> cow e AND NOT PTE_ADDR_MASK = cow_flags (e AND NOT PTE_ADDR_MASK)"
  using and_not_id[OF cow_flags_mask[of "e AND NOT PTE_ADDR_MASK"]]
  by (simp add: cow_def bit.conj_disj_distrib2 and.assoc)

text \<open>One more leaf.\<close>

lemma mappings_snoc:
  assumes "n < 512" "length p = 3"
  shows "mappings D T r p (Suc n) a = mappings D T r p n a \<union>
    (if on_leaf D r (p @ [of_nat n]) \<and> present (pte T r (p @ [of_nat n])) \<and> pte T r (p @ [of_nat n]) AND PTE_ADDR_MASK = a
     then {p @ [of_nat n]} else {})"
    and "p @ [of_nat n] \<notin> mappings D T r p n a"
proof -
  have l: "\<not> in_part (p @ [of_nat n]) 512 ix" if "on_leaf D r ix" for ix
    using that assms(2) by (auto simp: in_part_def on_leaf_def)
  have i: "on_leaf D r ix \<Longrightarrow> in_part p (Suc n) ix \<longleftrightarrow> in_part p n ix \<or> ix = p @ [of_nat n]" for ix
    using in_part_Suc(1)[OF assms(1) on_leaf_bound] l by blast
  show "mappings D T r p (Suc n) a = mappings D T r p n a \<union>
    (if on_leaf D r (p @ [of_nat n]) \<and> present (pte T r (p @ [of_nat n])) \<and> pte T r (p @ [of_nat n]) AND PTE_ADDR_MASK = a
     then {p @ [of_nat n]} else {})"
    unfolding mappings_def using i by auto
  show "p @ [of_nat n] \<notin> mappings D T r p n a"
    using in_part_Suc(3)[OF assms(1), of "[]" p] by (simp add: mappings_def)
qed

lemma copy_pte_step:
  assumes c: "copied D src dst p n s x" and n: "n < 512" and ne: "src \<noteq> dst" and l: "length p = 3"
    and ps: "on_path D src p" "walk (tabs x) src p = Some ts" and pd: "on_path D dst p" "walk (tabs x) dst p = Some td"
    and b: "blank D dst p 0 (tabs s)" and tw: "\<And>i. (dst, i) \<in> D \<Longrightarrow> (src, i) \<in> D"
  shows "copied D src dst p (Suc n) s (copy_pte ts td (of_nat n) x)"
proof -
  let ?i = "of_nat n :: u64" and ?T = "tabs x"
  let ?q = "p @ [?i]"
  have i: "?i < 512" using n by (rule small_index)
  have inv: "vm_inv D x" using c by (simp add: copied_def)
  then have wf: "pt_wf D (avail_pages x) ?T" by (simp add: vm_inv_def)
  have pt: "page_addr ts" "page_addr td" using pt_wfD(1)[OF wf] ps pd by blast+
  have leaf: "on_leaf D src ?q" "on_leaf D dst ?q" using on_leaf_snoc ps(1) pd(1) l i by auto
  have notin: "\<not> in_part p n ?q" using in_part_Suc(3)[OF n, of "[]" p] by simp
  have part: "on_leaf D r ix \<Longrightarrow> in_part p (Suc n) ix \<longleftrightarrow> in_part p n ix \<or> ix = ?q" for r ix
  proof -
    assume lf: "on_leaf D r ix"
    then have "\<not> in_part ?q 512 ix" using l by (auto simp: in_part_def on_leaf_def)
    then show "in_part p (Suc n) ix \<longleftrightarrow> in_part p n ix \<or> ix = ?q"
      using in_part_Suc(1)[OF n on_leaf_bound[OF lf]] by blast
  qed
  have pathpart: "on_path D r q \<Longrightarrow> \<not> in_part p m q" for r q m
    using l by (auto simp: in_part_def on_path_def)
  let ?e = "pte (tabs s) src ?q"
  have e: "?T ts ?i = ?e" "pte ?T dst ?q = 0"
  proof -
    have "pte ?T src ?q = ?e" using c leaf(1) notin by (simp add: copied_def)
    then show "?T ts ?i = ?e" using ps(2) by (simp add: pte_def)
    show "pte ?T dst ?q = 0" using c leaf(2) notin b ne by (auto simp: copied_def blank_def)
  qed
  have ge: "get_entry x ts ?i = ?e" using get_entry_tabs[OF pt(1) i, of x] e(1) by simp
  show ?thesis
  proof (cases "present ?e")
    case False
    have eq: "copy_pte ts td ?i x = x" using False ge by (simp add: copy_pte_def)
    have cw: "cow ?e = ?e" using False by (simp add: cow_def)
    have "mappings D (tabs s) src p (Suc n) a = mappings D (tabs s) src p n a" for a
      using False by (simp add: mappings_snoc(1)[OF n l])
    then show ?thesis unfolding eq using c part pathpart False cw notin e(2)
      by (auto simp: copied_def l)
  next
    case True
    let ?v = "cow ?e" and ?a = "?e AND PTE_ADDR_MASK"
    let ?s1 = "set_entry ts ?i ?v x"
    let ?s2 = "set_entry td ?i ?v ?s1"
    have eq: "copy_pte ts td ?i x = page_ref ?a ?s2"
      using True ge by (simp add: copy_pte_def cow_def Let_def)
    let ?T1 = "?T(ts := (?T ts)(?i := ?v))"
    let ?T2 = "?T1(td := (?T1 td)(?i := ?v))"
    have T2: "tabs ?s2 = ?T2" by (simp add: tabs_set_entry pt i)
    have wf1: "pt_wf D (avail_pages x) ?T1" by (rule pt_wf_leaf[OF wf ps l])
    have pd1: "walk ?T1 dst p = Some td" using walk_leaf[OF wf ps l pd(1)] pd(2) by simp
    have wf2: "pt_wf D (avail_pages x) ?T2" by (rule pt_wf_leaf[OF wf1 pd(1) pd1 l])
    have w2: "on_path D r q \<Longrightarrow> walk ?T2 r q = walk ?T r q" for r q
      using walk_leaf[OF wf1 pd(1) pd1 l] walk_leaf[OF wf ps l] by simp
    have p2: "on_leaf D r ix \<Longrightarrow> pte ?T2 r ix = (if (r = src \<or> r = dst) \<and> ix = ?q then ?v else pte ?T r ix)" for r ix
      using pte_leaf[OF wf1 pd(1) pd1 l] pte_leaf[OF wf ps l] by auto
    have inv': "vm_inv D (page_ref ?a ?s2)" using wf2 inv by (simp add: vm_inv_def T2)
    have cnt: "unat (page_get_refcount b (page_ref ?a ?s2))
        = min 255 (unat (page_get_refcount b s) + card (mappings D (tabs s) src p (Suc n) b))"
      if "page_addr b" "page_tracked b s" for b
    proof -
      have tr: "page_tracked b ?s2" using that c by (simp add: copied_def)
      have "unat (page_get_refcount b ?s2) = min 255 (unat (page_get_refcount b s) + card (mappings D (tabs s) src p n b))"
        using c that by (simp add: copied_def)
      moreover have "card (mappings D (tabs s) src p (Suc n) b)
          = card (mappings D (tabs s) src p n b) + (if ?a = b then 1 else 0)"
        using True leaf(1) mappings_snoc(2)[OF n l, of D "tabs s" src b]
        by (auto simp: mappings_snoc(1)[OF n l])
      ultimately show ?thesis using page_ref_count[OF tr _ that(1), of ?a] by auto
    qed
    have root: "?T2 r j = ?T r j" if "r \<in> fst ` D" for r j
    proof -
      have "on_path D r []" using that by (simp add: on_path_def)
      then have "r \<noteq> ts" "r \<noteq> td" using pt_wfD(3)[OF wf ps] pt_wfD(3)[OF wf pd] l by auto
      then show ?thesis by simp
    qed
    show ?thesis unfolding eq copied_def
      using inv' c cnt part pathpart True notin p2 w2 root
      by (auto simp: copied_def T2 l)
  qed
qed

text \<open>What the copy of a subtree at depth \<open>k\<close> promises.\<close>

definition copy_ok ::
  "(u64 \<times> u64) set \<Rightarrow> u64 \<Rightarrow> u64 \<Rightarrow> nat \<Rightarrow> nat \<Rightarrow>
   (u64 \<Rightarrow> u64 \<Rightarrow> 'a page_state_scheme \<Rightarrow> bool \<times> 'a page_state_scheme) \<Rightarrow> bool" where
  "copy_ok D src dst k n f \<longleftrightarrow> (\<forall>p s ts td. length p = k \<longrightarrow> on_path D src p \<longrightarrow> on_path D dst p \<longrightarrow> vm_inv D s
     \<longrightarrow> walk (tabs s) src p = Some ts \<longrightarrow> walk (tabs s) dst p = Some td \<longrightarrow> blank D dst p 0 (tabs s)
     \<longrightarrow> (fst (f ts td s) \<longrightarrow> copied D src dst p n s (snd (f ts td s)))
       \<and> (card (tables D (tabs s) src p n) \<le> card (avail_pages s) \<longrightarrow> fst (f ts td s)))"

lemma copy_pt_ok:
  assumes ne: "src \<noteq> dst" and tw: "\<And>i. (dst, i) \<in> D \<Longrightarrow> (src, i) \<in> D"
  shows "copy_ok D src dst 3 512 copy_pt"
  unfolding copy_ok_def
proof (intro allI impI)
  fix p ts td and s :: "'a page_state_scheme"
  assume l: "length p = 3" and ps: "on_path D src p" and pd: "on_path D dst p" and inv: "vm_inv D s"
    and ws: "walk (tabs s) src p = Some ts" and wd: "walk (tabs s) dst p = Some td"
    and b: "blank D dst p 0 (tabs s)"
  have "copied D src dst p m s (fold (\<lambda>l. copy_pte ts td (of_nat l)) [0..<m] s)" if "m \<le> 512" for m
    using that
  proof (induction m)
    case 0
    then show ?case using copied_refl[OF inv] by simp
  next
    case (Suc m)
    let ?x = "fold (\<lambda>l. copy_pte ts td (of_nat l)) [0..<m] s"
    have c: "copied D src dst p m s ?x" using Suc by simp
    have "\<not> in_part p m p" by (simp add: in_part_def)
    then have "walk (tabs ?x) src p = Some ts" "walk (tabs ?x) dst p = Some td"
      using c ps pd ws wd by (auto simp: copied_def)
    from copy_pte_step[OF c _ ne l ps this(1) pd this(2) b tw] show ?case using Suc.prems by simp
  qed
  then show "(fst (copy_pt ts td s) \<longrightarrow> copied D src dst p 512 s (snd (copy_pt ts td s)))
      \<and> (card (tables D (tabs s) src p 512) \<le> card (avail_pages s) \<longrightarrow> fst (copy_pt ts td s))"
    unfolding copy_pt_def PAGE_TABLE_ENTRIES_def fst_conv snd_conv by blast
qed

section \<open>One entry of an intermediate table\<close>

lemma alloc_page_table_counts:
  assumes "alloc_page_table s = (a, s1)"
  shows "page_get_refcount b s1 = page_get_refcount b s" "page_tracked b s1 = page_tracked b s"
proof -
  obtain m where "s1 = (snd (pmm_alloc s))\<lparr>mem := m\<rparr>"
  proof -
    have "s1 = snd (pmm_alloc s) \<or> (\<exists>a. s1 = zero_table a (snd (pmm_alloc s)))"
      using assms by (auto simp: alloc_page_table_def split: prod.splits if_splits)
    then have "\<exists>m. s1 = (snd (pmm_alloc s))\<lparr>mem := m\<rparr>"
      using zero_table_mem[of _ "snd (pmm_alloc s)"] by (metis pmm_state.surjective pmm_state.update_convs(1))
    then show thesis using that by blast
  qed
  then have i: "page_info s1 = page_info s" "max_pages s1 = max_pages s" by (simp_all add: frame_simps)
  show "page_get_refcount b s1 = page_get_refcount b s" "page_tracked b s1 = page_tracked b s"
    by (simp_all add: page_get_refcount_def page_tracked_def i cong: option.case_cong)
qed

lemma pte_missing:
  assumes "walk T r (p @ [i]) = None" "take (Suc (length p)) ix = p @ [i]" "length p \<le> 2" "length ix = 4"
  shows "pte T r ix = 0"
proof -
  have "take (Suc (length p)) (butlast ix) = p @ [i]"
    using assms(2-4) by (simp add: take_butlast)
  then obtain q where "butlast ix = (p @ [i]) @ q" by (metis append_take_drop_id)
  then have "walk T r (butlast ix) = None" using assms(1) by (simp only: walk_append) simp
  then show ?thesis by (simp add: pte_def)
qed

lemma leaf_part_Suc:
  assumes "n < 512" "length p \<le> 2" "on_leaf D r ix"
  shows "in_part p (Suc n) ix \<longleftrightarrow> in_part p n ix \<or> in_part (p @ [of_nat n]) 512 ix"
    and "in_part (p @ [of_nat n]) 512 ix \<Longrightarrow> take (Suc (length p)) ix = p @ [of_nat n] \<and> \<not> in_part p n ix"
proof -
  have "ix \<noteq> p @ [of_nat n]" using assms(2,3) by (auto simp: on_leaf_def)
  then show "in_part p (Suc n) ix \<longleftrightarrow> in_part p n ix \<or> in_part (p @ [of_nat n]) 512 ix"
    using in_part_Suc(1)[OF assms(1) on_leaf_bound[OF assms(3)]] by blast
  show "in_part (p @ [of_nat n]) 512 ix \<Longrightarrow> take (Suc (length p)) ix = p @ [of_nat n] \<and> \<not> in_part p n ix"
    using in_part_Suc(2)[OF assms(1) on_leaf_bound[OF assms(3)]] by (auto simp: in_part_def)
qed

lemma mappings_Suc:
  assumes "n < 512" "length p \<le> 2"
  shows "mappings D T r p (Suc n) a = mappings D T r p n a \<union> mappings D T r (p @ [of_nat n]) 512 a"
    and "mappings D T r p n a \<inter> mappings D T r (p @ [of_nat n]) 512 a = {}"
  using leaf_part_Suc[OF assms] by (auto simp: mappings_def)

lemma copied_skip:
  assumes c: "copied D src dst p n s x" and n: "n < 512" and k: "length p \<le> 2" and ne: "src \<noteq> dst"
    and ws: "walk (tabs s) src (p @ [of_nat n]) = None" and ps: "on_path D src (p @ [of_nat n])"
    and tw: "\<And>i. (dst, i) \<in> D \<Longrightarrow> (src, i) \<in> D"
  shows "copied D src dst p (Suc n) s x"
proof -
  note part = leaf_part_Suc[OF n k]
  have z: "pte (tabs s) src ix = 0" if "on_leaf D r ix" "in_part (p @ [of_nat n]) 512 ix" for r ix
    using pte_missing[OF ws _ k] part(2)[OF that] that(1) by (simp add: on_leaf_def)
  have m: "mappings D (tabs s) src p (Suc n) a = mappings D (tabs s) src p n a" for a
    using z by (auto simp: mappings_Suc(1)[OF n k]) (auto simp: mappings_def)
  have w: "\<not> in_part p (Suc n) q \<Longrightarrow> \<not> in_part p n q" for q by (auto simp: in_part_def)
  have cw: "cow 0 = 0" by (simp add: cow_def)
  show ?thesis unfolding copied_def
    using c part(1) z m w cw ws by (auto simp: copied_def card_tables_Suc[OF n ps])
qed


lemma take_snocD:
  assumes "take (Suc (length p)) ix = p @ [i]"
  shows "take (length p) ix = p" "length p < length ix" "ix ! length p = i"
proof -
  obtain q where "ix = (p @ [i]) @ q" by (metis append_take_drop_id assms)
  then show "take (length p) ix = p" "length p < length ix" "ix ! length p = i" by (simp_all add: nth_append)
qed

lemma present_flags [simp]: "present (e AND NOT PTE_ADDR_MASK) = present e"
  by (simp add: present_odd even_and_iff even_not_iff PTE_ADDR_MASK_def)

text \<open>Chaining the entries handled so far, a newly linked table, and the copy of the subtree below it.\<close>

lemma copied_trans:
  assumes c: "copied D src dst p n s x" and n: "n < 512" and k: "length p \<le> 2" and ne: "src \<noteq> dst"
    and "vm_inv D x2"
    and w2: "\<And>r q. on_path D r q \<Longrightarrow>
      walk (tabs x2) r q = (if r = dst \<and> q = p @ [of_nat n] then Some a else walk (tabs x) r q)"
    and p2: "\<And>r ix. on_leaf D r ix \<Longrightarrow> pte (tabs x2) r ix = pte (tabs x) r ix"
    and root: "\<And>r i. r \<in> fst ` D \<Longrightarrow> 256 \<le> i \<Longrightarrow> tabs x2 r i = tabs x r i"
    and pg: "avail_pages x2 = avail_pages x - {a}" "a \<in> avail_pages x" "owned_pages x2 = insert a (owned_pages x)"
    and rc: "\<And>b. page_get_refcount b x2 = page_get_refcount b x" "\<And>b. page_tracked b x2 = page_tracked b x"
    and c2: "copied D src dst (p @ [of_nat n]) 512 x2 y"
    and ps: "on_path D src (p @ [of_nat n])" "walk (tabs s) src (p @ [of_nat n]) \<noteq> None"
    and tw: "\<And>i. (dst, i) \<in> D \<Longrightarrow> (src, i) \<in> D"
  shows "copied D src dst p (Suc n) s y"
proof -
  let ?q = "p @ [of_nat n]"
  note part = leaf_part_Suc[OF n k]
  have srcleaf: "on_leaf D dst ix \<Longrightarrow> on_leaf D src ix" for ix using tw by (simp add: on_leaf_def)
  have old: "pte (tabs x2) src ix = pte (tabs s) src ix" if "on_leaf D src ix" "in_part ?q 512 ix" for ix
    using p2[OF that(1)] c part(2)[OF that] that(1) by (simp add: copied_def)
  have P: "pte (tabs y) r ix = (if in_part p (Suc n) ix \<and> r = src then cow (pte (tabs s) src ix)
           else if in_part p (Suc n) ix \<and> r = dst \<and> present (pte (tabs s) src ix) then cow (pte (tabs s) src ix)
           else pte (tabs s) r ix)" if lf: "on_leaf D r ix" for r ix
  proof (cases "in_part ?q 512 ix")
    case True
    then have np: "\<not> in_part p n ix" "in_part p (Suc n) ix" using part[OF lf] by auto
    have "pte (tabs x2) r ix = pte (tabs s) r ix" using p2[OF lf] c lf np(1) by (simp add: copied_def)
    moreover have "r = dst \<Longrightarrow> pte (tabs x2) src ix = pte (tabs s) src ix" using old srcleaf lf True by blast
    ultimately show ?thesis using c2 lf True np(2) by (auto simp: copied_def)
  next
    case False
    then have "pte (tabs y) r ix = pte (tabs x) r ix" using c2 lf p2[OF lf] by (simp add: copied_def)
    then show ?thesis using c lf False part(1)[OF lf] by (simp add: copied_def)
  qed
  have W: "walk (tabs y) r q = walk (tabs s) r q" if q: "on_path D r q" "\<not> (r = dst \<and> in_part p (Suc n) q)" for r q
  proof -
    have "\<not> (r = dst \<and> (in_part p n q \<or> in_part ?q 512 q \<or> q = ?q))"
      using q in_part_Suc(1)[OF n on_path_bound[OF q(1)]] by blast
    then show ?thesis using c c2 q w2[OF q(1)] by (simp add: copied_def) blast
  qed
  have M: "mappings D (tabs x2) src ?q 512 b = mappings D (tabs s) src ?q 512 b" for b
    using old by (auto simp: mappings_def)
  have C: "unat (page_get_refcount b y) = min 255 (unat (page_get_refcount b s) + card (mappings D (tabs s) src p (Suc n) b))"
    if "page_addr b" "page_tracked b s" for b
  proof -
    have t: "page_tracked b x2" using c that rc by (simp add: copied_def)
    have "unat (page_get_refcount b y) = min 255 (unat (page_get_refcount b x2) + card (mappings D (tabs s) src ?q 512 b))"
      using c2 t that M by (simp add: copied_def)
    moreover have "unat (page_get_refcount b x2) = min 255 (unat (page_get_refcount b s) + card (mappings D (tabs s) src p n b))"
      using c that rc by (simp add: copied_def)
    moreover have "card (mappings D (tabs s) src p (Suc n) b)
        = card (mappings D (tabs s) src p n b) + card (mappings D (tabs s) src ?q 512 b)"
      unfolding mappings_Suc(1)[OF n k] by (rule card_Un_disjoint) (simp_all add: mappings_Suc(2)[OF n k])
    ultimately show ?thesis by (simp add: min_def)
  qed
  have srcw: "on_path D src q \<Longrightarrow> walk (tabs x2) src q = walk (tabs s) src q" for q
    using w2[of src q] c ne by (simp add: copied_def)
  have "tables D (tabs x2) src ?q 512 = tables D (tabs s) src ?q 512"
    using srcw by (auto simp: tables_def)
  then have "card (avail_pages x2) = card (avail_pages y) + card (tables D (tabs s) src ?q 512)"
    using c2 by (simp add: copied_def)
  moreover have "card (avail_pages x) = Suc (card (avail_pages x2))"
    using card.remove[OF finite_u64 pg(2)] by (simp add: pg(1))
  ultimately have N: "card (avail_pages s) = card (avail_pages y) + card (tables D (tabs s) src p (Suc n))"
    using c ps(2) by (simp add: card_tables_Suc[OF n ps(1)] copied_def)
  show ?thesis unfolding copied_def
    using P W C N c c2 root rc pg by (auto simp: copied_def)
qed

lemma copied_entry:
  assumes c: "copied D src dst p n s x" and n: "n < 512" "p = [] \<longrightarrow> n < 256" and k: "length p \<le> 2" and ne: "src \<noteq> dst"
    and ps: "on_path D src (p @ [of_nat n])" "walk (tabs s) src p = Some ts"
    and pd: "on_path D dst (p @ [of_nat n])" "walk (tabs s) dst p = Some td"
    and b: "blank D dst p 0 (tabs s)" and tw: "\<And>i. (dst, i) \<in> D \<Longrightarrow> (src, i) \<in> D"
    and f: "copy_ok D src dst (Suc (length p)) 512 f" and ce: "copy_entry f ts td (of_nat n) x = (ok, y)"
  shows "(ok \<longrightarrow> copied D src dst p (Suc n) s y)
    \<and> (card (tables D (tabs s) src p (Suc n)) \<le> card (avail_pages s) \<longrightarrow> ok)"
proof -
  let ?i = "of_nat n :: u64" and ?T = "tabs x"
  let ?q = "p @ [?i]"
  have i: "?i < 512" using n(1) by (rule small_index)
  have inv: "vm_inv D x" using c by (simp add: copied_def)
  then have wf: "pt_wf D (avail_pages x) ?T" by (simp add: vm_inv_def)
  have pp: "on_path D src p" "on_path D dst p" using on_path_snoc[OF ps(1)] on_path_snoc[OF pd(1)] by blast+
  have np: "\<not> in_part p m p" for m by (simp add: in_part_def)
  have notin: "\<not> in_part p n ?q" using in_part_Suc(3)[OF n(1), of "[]" p] by simp
  have wx: "walk ?T src p = Some ts" "walk ?T dst p = Some td"
    using c pp ps(2) pd(2) np by (auto simp: copied_def)
  have pt: "page_addr ts" "page_addr td" using pt_wfD(1)[OF wf pp(1) wx(1)] pt_wfD(1)[OF wf pp(2) wx(2)] .
  have tt: "ts \<noteq> td" using pt_wfD(3)[OF wf pp(1) wx(1) pp(2)] wx(2) ne by auto
  have wsq: "walk ?T src ?q = walk (tabs s) src ?q" using c ps(1) ne by (simp add: copied_def)
  have bx: "blank D dst p n ?T" by (rule copied_blank[OF c b ne])
  have wdq: "walk ?T dst ?q = None" using bx pd(1) notin by (auto simp: blank_def)
  have ge: "get_entry z ts ?i = tabs z ts ?i" for z :: "'a page_state_scheme" by (rule get_entry_tabs[OF pt(1) i])
  show ?thesis
  proof (cases "present (?T ts ?i)")
    case False
    then have "walk (tabs s) src ?q = None" using wsq wx(1) by (simp add: walk_snoc)
    moreover have "y = x" "ok" using ce False ge by (simp_all add: copy_entry_def)
    ultimately show ?thesis using copied_skip[OF c n(1) k ne _ ps(1) tw] by simp
  next
    case True
    let ?u = "?T ts ?i AND PTE_ADDR_MASK"
    have ws: "walk ?T src ?q = Some ?u" using True wx(1) by (simp add: walk_snoc)
    obtain a x1 where al: "alloc_page_table x = (a, x1)" by (cases "alloc_page_table x")
    have sq: "walk (tabs s) src ?q \<noteq> None" using ws wsq by simp
    have cd: "card (avail_pages s) = card (avail_pages x) + card (tables D (tabs s) src p n)"
      using c by (simp add: copied_def)
    have emp: ?thesis if "avail_pages x = {}"
    proof -
      have "alloc_page_table x = (0, x)" using alloc_page_table_None[OF _ that] inv by (simp add: vm_inv_def)
      then have "\<not> ok" using ce True ge by (auto simp: copy_entry_def)
      moreover have "card (avail_pages s) < card (tables D (tabs s) src p (Suc n))"
        using cd that sq by (simp add: card_tables_Suc[OF n(1) ps(1)])
      ultimately show ?thesis by simp
    qed
    show ?thesis
    proof (cases "avail_pages x = {}")
    case nonempty: False
    then have a: "a \<in> avail_pages x" "page_addr a" "a < 2 ^ 52" "pmm_inv x1" "avail_pages x1 = avail_pages x - {a}"
      "owned_pages x1 = insert a (owned_pages x)" "tabs x1 = ?T(a := \<lambda>_. 0)" "total_pages x1 = total_pages x"
      using alloc_page_table_Some[OF inv] al by (metis Pair_inject)+
    have a0: "a \<noteq> 0" using pmm.avail_page[of x a] a(1) inv by (auto simp: vm_inv_def)
    have at: "a \<noteq> ts" "a \<noteq> td" using pt_wfD(2)[OF wf pp(1) wx(1)] pt_wfD(2)[OF wf pp(2) wx(2)] a(1) by blast+
    let ?v = "a OR (?T ts ?i AND NOT PTE_ADDR_MASK)"
    let ?x2 = "set_entry td ?i ?v x1"
    have v: "present ?v" "?v AND PTE_ADDR_MASK = a"
      using True addr_mask_or[OF a(2,3), of "?T ts ?i AND NOT PTE_ADDR_MASK"]
      by (simp_all add: and.assoc)
    have nd: "\<not> present (?T td ?i)" using wdq wx(2) by (auto simp: walk_snoc split: if_splits)
    have T2: "tabs ?x2 = (?T(a := \<lambda>_. 0))(td := (?T td)(?i := ?v))"
      using at by (simp add: tabs_set_entry[OF pt(2) i] a(7))
    note link = walk_link[OF wf pd(1) wx(2) nd a(1,2) v] pt_wf_link[OF wf pd(1) wx(2) nd a(1,2) v]
      pte_link[OF wf pd(1) wx(2) nd a(1,2) v]
    have inv2: "vm_inv D ?x2" using link(2) a inv by (simp add: vm_inv_def T2)
    have w2: "on_path D r q \<Longrightarrow> walk (tabs ?x2) r q = (if r = dst \<and> q = ?q then Some a else walk ?T r q)" for r q
      using link(1) by (simp add: T2)
    have p2: "on_leaf D r ix \<Longrightarrow> pte (tabs ?x2) r ix = pte ?T r ix" for r ix
      using link(3) by (simp add: T2 same_view_def)
    have b2: "blank D dst ?q 0 (tabs ?x2)"
    proof -
      have "pte ?T dst ix = 0" if "on_leaf D dst ix" "take (Suc (length p)) ix = ?q" for ix
      proof -
        have "take (length p) ix = p" "\<not> in_part p n ix"
          using take_snocD[OF that(2)] n(1) by (auto simp: in_part_def unat_of_nat)
        then show ?thesis using bx that(1) by (auto simp: blank_def)
      qed
      moreover have "walk ?T dst q = None" if q: "on_path D dst q" "take (Suc (length p)) q = ?q" for q
      proof -
        obtain q' where "q = ?q @ q'" using q(2) by (metis append_take_drop_id)
        then show ?thesis using wdq by (simp only: walk_append) simp
      qed
      ultimately show ?thesis using w2 p2 by (auto simp: blank_def)
    qed
    have fy: "f ?u a ?x2 = (ok, y)"
      using ce True al a0 at tt ge by (simp add: copy_entry_def T2 a(7))
    have w2q: "walk (tabs ?x2) src ?q = Some ?u" "walk (tabs ?x2) dst ?q = Some a"
      using w2[OF ps(1)] w2[OF pd(1)] ws ne by auto
    have lq: "length ?q = Suc (length p)" by simp
    have f2: "(fst (f ?u a ?x2) \<longrightarrow> copied D src dst ?q 512 ?x2 (snd (f ?u a ?x2)))
       \<and> (card (tables D (tabs ?x2) src ?q 512) \<le> card (avail_pages ?x2) \<longrightarrow> fst (f ?u a ?x2))"
      using f[unfolded copy_ok_def] lq ps(1) pd(1) inv2 w2q b2 by blast
    have root: "tabs ?x2 r j = ?T r j" if r: "r \<in> fst ` D" and j: "256 \<le> j" for r j
    proof -
      have o: "on_path D r []" using r by (simp add: on_path_def)
      have "r \<noteq> a" using pt_wfD(2)[OF wf o] a(1) by auto
      moreover have "j \<noteq> ?i" if "r = td"
      proof -
        have "p = []" using pt_wfD(3)[OF wf pp(2) wx(2) o] that by simp
        then show ?thesis using n(2) j by (auto simp: word_le_nat_alt unat_of_nat)
      qed
      ultimately show ?thesis by (auto simp: T2)
    qed
    have pg: "avail_pages ?x2 = avail_pages x - {a}" "owned_pages ?x2 = insert a (owned_pages x)"
      using a by simp_all
    have "copied D src dst p (Suc n) s y" if ok
    proof -
      have c2: "copied D src dst ?q 512 ?x2 y" using f2 fy that by simp
      show ?thesis
        by (rule copied_trans[OF c n(1) k ne inv2 w2 p2 root pg(1) a(1) pg(2) _ _ c2 ps(1) sq tw])
          (simp_all add: alloc_page_table_counts[OF al])
    qed
    moreover have ok if m: "card (tables D (tabs s) src p (Suc n)) \<le> card (avail_pages s)"
    proof -
      have "on_path D src q \<Longrightarrow> walk (tabs ?x2) src q = walk (tabs s) src q" for q
        using w2[of src q] c ne by (simp add: copied_def)
      then have "tables D (tabs ?x2) src ?q 512 = tables D (tabs s) src ?q 512" by (auto simp: tables_def)
      moreover have "card (avail_pages x) = Suc (card (avail_pages ?x2))"
        unfolding pg(1) by (rule card.remove[OF finite_u64 a(1)])
      ultimately have "card (tables D (tabs ?x2) src ?q 512) \<le> card (avail_pages ?x2)"
        using m cd sq by (simp add: card_tables_Suc[OF n(1) ps(1)])
      then show ok using f2 fy by simp
    qed
    ultimately show ?thesis by blast
    qed (rule emp)
  qed
qed

lemma copy_entries_ok:
  assumes f: "copy_ok D src dst (Suc k) 512 f" and k: "k \<le> 2" and n: "n \<le> 512" "k = 0 \<longrightarrow> n \<le> 256" and ne: "src \<noteq> dst"
    and tw: "\<And>i. (dst, i) \<in> D \<Longrightarrow> (src, i) \<in> D" and us: "user_slots dst \<subseteq> D"
  shows "copy_ok D src dst k n (copy_entries n f)"
  unfolding copy_ok_def
proof (intro allI impI)
  fix p ts td and s :: "'a page_state_scheme"
  assume l: "length p = k" and ps: "on_path D src p" and pd: "on_path D dst p" and inv: "vm_inv D s"
    and ws: "walk (tabs s) src p = Some ts" and wd: "walk (tabs s) dst p = Some td"
    and b: "blank D dst p 0 (tabs s)"
  let ?g = "\<lambda>m. fold (\<lambda>i (ok, s). if ok then copy_entry f ts td (of_nat i) s else (False, s)) [0..<m] (True, s)"
  have "(fst (?g m) \<longrightarrow> copied D src dst p m s (snd (?g m)))
      \<and> (card (tables D (tabs s) src p m) \<le> card (avail_pages s) \<longrightarrow> fst (?g m))" if "m \<le> n" for m
    using that
  proof (induction m)
    case 0
    then show ?case using copied_refl[OF inv] by simp
  next
    case (Suc m)
    obtain ok x where g: "?g m = (ok, x)" by (cases "?g m")
    have pth: "on_path D r (p @ [of_nat m])" if r: "r = src \<or> r = dst" for r
    proof (cases p)
      case Nil
      then have "m < 256" using Suc.prems n(2) l by simp
      then have "(dst, of_nat m) \<in> D" using us by (auto simp: user_slots_def word_less_nat_alt unat_of_nat)
      then show ?thesis using r tw Nil Suc.prems n(1) by (auto simp: on_path_def small_index)
    next
      case (Cons i q)
      then show ?thesis using r ps pd l k Suc.prems n(1) by (auto simp: on_path_def small_index)
    qed
    show ?case
    proof (cases ok)
      case True
      have c: "copied D src dst p m s x" using Suc g True by simp
      have m: "m < 512" "p = [] \<longrightarrow> m < 256" using Suc.prems n l by auto
      have lk: "length p \<le> 2" using l k by simp
      have fk: "copy_ok D src dst (Suc (length p)) 512 f" using f l by simp
      have "?g (Suc m) = copy_entry f ts td (of_nat m) x" using g True by simp
      then show ?thesis
        using copied_entry[OF c m lk ne pth ws pth wd b tw fk] by (cases "copy_entry f ts td (of_nat m) x") auto
    next
      case False
      have m: "m < 512" using Suc.prems n(1) by simp
      have "card (tables D (tabs s) src p m) \<le> card (tables D (tabs s) src p (Suc m))"
        by (simp add: card_tables_Suc[OF m pth])
      moreover have "\<not> card (tables D (tabs s) src p m) \<le> card (avail_pages s)" using Suc g False by auto
      ultimately show ?thesis using g False by simp
    qed
  qed
  from this[of n] show "(fst (copy_entries n f ts td s) \<longrightarrow> copied D src dst p n s (snd (copy_entries n f ts td s)))
      \<and> (card (tables D (tabs s) src p n) \<le> card (avail_pages s) \<longrightarrow> fst (copy_entries n f ts td s))"
    by (simp add: copy_entries_def)
qed

lemma vmm_copy_spec:
  assumes inv: "vm_inv D s" and us: "user_slots src \<subseteq> D"
    and cp: "vmm_copy_address_space_cow src s = (dst, s')"
  shows "(Suc (card (tables D (tabs s) src [] 256)) \<le> card (avail_pages s) \<longrightarrow> dst \<noteq> 0) \<and> (dst \<noteq> 0 \<longrightarrow>
    dst \<in> avail_pages s \<and> dst \<noteq> src \<and> vm_inv (D \<union> user_slots dst) s'
    \<and> (\<forall>r ix. on_leaf D r ix \<longrightarrow> pte (tabs s') r ix
         = (if r = src \<and> hd ix < 256 then cow (pte (tabs s) src ix) else pte (tabs s) r ix))
    \<and> (\<forall>ix. on_leaf (user_slots src) src ix \<longrightarrow> pte (tabs s') dst ix
         = (if present (pte (tabs s) src ix) then cow (pte (tabs s) src ix) else 0))
    \<and> (\<forall>i. 256 \<le> i \<longrightarrow> tabs s' dst i = tabs s src i \<and> tabs s' src i = tabs s src i)
    \<and> avail_pages s' \<subseteq> avail_pages s \<and> owned_pages s' = owned_pages s \<union> (avail_pages s - avail_pages s')
    \<and> card (avail_pages s) = Suc (card (avail_pages s') + card (tables D (tabs s) src [] 256))
    \<and> (\<forall>a. page_addr a \<longrightarrow> page_tracked a s \<longrightarrow> unat (page_get_refcount a s')
         = min 255 (unat (page_get_refcount a s) + card (mappings D (tabs s) src [] 256 a))))"
proof (cases "avail_pages s = {}")
  case True
  then show ?thesis using alloc_page_table_None[of s] inv cp
    by (auto simp: vm_inv_def vmm_copy_address_space_cow_def)
next
  case False
  obtain d s1 where al: "alloc_page_table s = (d, s1)" by (cases "alloc_page_table s")
  then have a: "d \<in> avail_pages s" "page_addr d" "pmm_inv s1" "avail_pages s1 = avail_pages s - {d}"
    "owned_pages s1 = insert d (owned_pages s)" "tabs s1 = (tabs s)(d := \<lambda>_. 0)" "total_pages s1 = total_pages s" "d \<noteq> 0"
    using alloc_page_table_Some[OF inv False] by (metis Pair_inject)+
  have wf: "pt_wf D (avail_pages s) (tabs s)" and tp: "total_pages s \<le> 2 ^ 40" using inv by (simp_all add: vm_inv_def)
  have s0: "(src, 0) \<in> D" using us by (auto simp: user_slots_def)
  have psrc: "page_addr src" by (rule vm_inv_root[OF inv s0])
  have osrc: "on_path D src []" using s0 by (force simp: on_path_def)
  have sd: "src \<noteq> d" using pt_wfD(2)[OF wf osrc] a(1) by auto
  have dD: "d \<notin> fst ` D" using pt_wfD(2)[OF wf, of d "[]" d] a(1) by (auto simp: on_path_def)
  let ?s2 = "copy_kernel_half src d s1" and ?D = "D \<union> user_slots d"
  let ?f = "\<lambda>i. if 256 \<le> i then tabs s src i else 0"
  have T2: "tabs ?s2 = (tabs s)(d := ?f)"
    using sd by (simp add: tabs_copy_kernel_half[OF psrc a(2) sd] a(6) fun_eq_iff)
  have f: "\<forall>i. i < 256 \<longrightarrow> \<not> present (?f i)" by auto
  note nr = new_root_wf[where f = ?f, OF wf a(1,2) dD f]
  have inv2: "vm_inv ?D ?s2" using nr(1) a tp by (simp add: vm_inv_def T2)
  have tw: "(d, i) \<in> ?D \<Longrightarrow> (src, i) \<in> ?D" for i using us dD by (force simp: user_slots_def)
  have k3: "copy_ok ?D src d 3 512 copy_pt" by (rule copy_pt_ok[OF sd tw])
  have k2: "copy_ok ?D src d 2 512 (copy_entries 512 copy_pt)"
    by (rule copy_entries_ok[OF _ _ _ _ sd tw]) (use k3 in \<open>auto simp: numeral_3_eq_3 numeral_2_eq_2\<close>)
  have k1: "copy_ok ?D src d 1 512 (copy_entries 512 (copy_entries 512 copy_pt))"
    by (rule copy_entries_ok[OF _ _ _ _ sd tw]) (use k2 in \<open>auto simp: numeral_2_eq_2\<close>)
  have k0: "copy_ok ?D src d 0 256 (copy_entries 256 (copy_entries 512 (copy_entries 512 copy_pt)))"
    by (rule copy_entries_ok[OF _ _ _ _ sd tw]) (use k1 in auto)
  have "(d, 0) \<in> ?D" by (simp add: user_slots_def)
  then have paths: "on_path ?D src []" "on_path ?D d []"
    using s0 by (force simp: on_path_def)+
  have leafd: "on_leaf ?D d ix \<Longrightarrow> on_leaf (user_slots d) d ix" for ix
    using dD by (force simp: on_leaf_def)
  have bl: "blank ?D d [] 0 (tabs ?s2)"
  proof -
    have "walk (tabs ?s2) d q = None" if "on_path ?D d q" "q \<noteq> []" for q
      using that dD f by (cases q) (force simp: on_path_def user_slots_def T2)+
    then show ?thesis using nr(3) leafd by (auto simp: blank_def T2)
  qed
  let ?copy = "copy_entries 256 (copy_entries 512 (copy_entries 512 copy_pt)) src d ?s2"
  have cp': "(dst, s') = (if fst ?copy then (d, snd ?copy) else (0, vmm_free_user_address_space d (snd ?copy)))"
    using cp al a(8) by (auto simp: vmm_copy_address_space_cow_def PAGE_TABLE_ENTRIES_def PAGE_TABLE_ENTRIES_USER_def
        Let_def split: prod.splits if_splits)
  have k: "(fst ?copy \<longrightarrow> copied ?D src d [] 256 ?s2 (snd ?copy))
       \<and> (card (tables ?D (tabs ?s2) src [] 256) \<le> card (avail_pages ?s2) \<longrightarrow> fst ?copy)"
    using k0[unfolded copy_ok_def] paths inv2 bl by (metis list.size(3) walk.simps(1))
  have srcw: "on_path D src q \<Longrightarrow> walk (tabs ?s2) src q = walk (tabs s) src q" for q
    unfolding T2 by (rule walk_other_page[OF wf a(1)])
  have src_path: "on_path ?D src q \<longleftrightarrow> on_path D src q" for q
    using sd osrc by (auto simp: on_path_def user_slots_def split: list.splits)
  have tb: "tables ?D (tabs ?s2) src [] 256 = tables D (tabs s) src [] 256"
    using srcw by (auto simp: tables_def src_path)
  have av2: "card (avail_pages s) = Suc (card (avail_pages ?s2))"
    using card.remove[OF finite_u64 a(1)] a(4) by simp
  show ?thesis
  proof (cases "fst ?copy")
  case False
  then show ?thesis using k tb av2 cp' by auto
  next
  case ok: True
  define s3 where "s3 = snd ?copy"
  have eq: "dst = d" "s' = s3" using cp' ok by (simp_all add: s3_def)
  have c: "copied ?D src d [] 256 ?s2 s3" using k ok by (simp add: s3_def)
  have part: "on_leaf E r ix \<Longrightarrow> in_part [] 256 ix \<longleftrightarrow> hd ix < 256" for E r ix
    by (cases ix) (auto simp: in_part_def on_leaf_def word_less_nat_alt)
  have lift: "on_leaf D r ix \<Longrightarrow> on_leaf ?D r ix \<and> r \<noteq> d" for r ix
    using dD by (force simp: on_leaf_def)
  have src_leaf: "on_leaf ?D src ix \<longleftrightarrow> on_leaf D src ix" for ix
    using sd by (auto simp: on_leaf_def user_slots_def)
  have old: "on_leaf D r ix \<Longrightarrow> pte (tabs ?s2) r ix = pte (tabs s) r ix" for r ix using nr(2) by (simp add: T2)
  have A: "\<forall>r ix. on_leaf D r ix \<longrightarrow> pte (tabs s') r ix
         = (if r = src \<and> hd ix < 256 then cow (pte (tabs s) src ix) else pte (tabs s) r ix)"
    using c lift old part unfolding copied_def eq by (metis (no_types, lifting))
  have B: "pte (tabs s') dst ix = (if present (pte (tabs s) src ix) then cow (pte (tabs s) src ix) else 0)"
    if lf: "on_leaf (user_slots src) src ix" for ix
  proof -
    have l: "on_leaf ?D d ix" "on_leaf D src ix" "hd ix < 256" using lf us by (auto simp: on_leaf_def user_slots_def)
    have "pte (tabs ?s2) d ix = 0" using nr(3)[OF leafd[OF l(1)]] by (simp add: T2)
    then show ?thesis using c l old[OF l(2)] part[OF l(1)] sd unfolding copied_def eq by auto
  qed
  have K: "tabs s' dst i = tabs s src i \<and> tabs s' src i = tabs s src i" if "256 \<le> i" for i
  proof -
    have "d \<in> fst ` ?D" "src \<in> fst ` ?D" using paths by (auto simp: on_path_def)
    then have "tabs s3 d i = tabs ?s2 d i" "tabs s3 src i = tabs ?s2 src i"
      using c that unfolding copied_def by blast+
    then show ?thesis using that sd by (simp add: eq T2)
  qed
  have R: "page_get_refcount b ?s2 = page_get_refcount b s" "page_tracked b ?s2 = page_tracked b s" for b
  proof -
    obtain m where m: "?s2 = s1\<lparr>mem := m\<rparr>" using copy_kernel_half_mem by blast
    have "page_info ?s2 = page_info s1" "max_pages ?s2 = max_pages s1" by (simp_all add: m)
    then show "page_get_refcount b ?s2 = page_get_refcount b s" "page_tracked b ?s2 = page_tracked b s"
      using alloc_page_table_counts[OF al, of b]
      by (simp_all add: page_get_refcount_def page_tracked_def cong: option.case_cong)
  qed
  have M: "mappings ?D (tabs ?s2) src [] 256 b = mappings D (tabs s) src [] 256 b" for b
    using old by (auto simp: mappings_def src_leaf)
  have C: "\<forall>a. page_addr a \<longrightarrow> page_tracked a s \<longrightarrow> unat (page_get_refcount a s')
         = min 255 (unat (page_get_refcount a s) + card (mappings D (tabs s) src [] 256 a))"
    using c R M by (simp add: copied_def eq)
  have N: "card (avail_pages s) = Suc (card (avail_pages s') + card (tables D (tabs s) src [] 256))"
    using c av2 tb by (simp add: copied_def eq)
  have F: "dst \<in> avail_pages s \<and> dst \<noteq> src \<and> dst \<noteq> 0 \<and> vm_inv (D \<union> user_slots dst) s'
      \<and> avail_pages s' \<subseteq> avail_pages s \<and> owned_pages s' = owned_pages s \<union> (avail_pages s - avail_pages s')"
    using c a sd by (auto simp: copied_def eq)
  show ?thesis using A B K C N F by blast
  qed
qed

section \<open>Properties\<close>

text \<open>
  C10. \<^verbatim>\<open>vmm_create_address_space\<close> halts exactly when no page is available;
  otherwise it returns a fresh PML4 with an empty user half whose kernel half is the one of
  the kernel's PML4, and every existing user translation is as before.
\<close>

theorem vmm_create_address_space_correct:
  assumes "vm_inv D s" "page_addr (kernel_pml4_phys s)" "kernel_pml4_phys s \<notin> avail_pages s"
  shows "case vmm_create_address_space s of None \<Rightarrow> avail_pages s = {}
    | Some (r, s') \<Rightarrow> r \<noteq> 0 \<and> r \<in> avail_pages s \<and> avail_pages s' = avail_pages s - {r} \<and> vm_inv (D \<union> user_slots r) s'
      \<and> (\<forall>va. PML4_INDEX va < 256 \<longrightarrow> vmm_get_physical r va s' = 0)
      \<and> (\<forall>va. 256 \<le> PML4_INDEX va \<longrightarrow>
           vmm_get_physical r va s' = vmm_get_physical (kernel_pml4_phys s) va s'
           \<and> vmm_get_pte_flags r va s' = vmm_get_pte_flags (kernel_pml4_phys s) va s')
      \<and> (\<forall>r' va. (r', PML4_INDEX va) \<in> D \<longrightarrow> vmm_get_physical r' va s' = vmm_get_physical r' va s
           \<and> vmm_get_pte_flags r' va s' = vmm_get_pte_flags r' va s)"
proof (cases "avail_pages s = {}")
  case True
  then show ?thesis using alloc_page_table_None[of s] assms(1)
    by (simp add: vm_inv_def vmm_create_address_space_def)
next
  case False
  let ?k = "kernel_pml4_phys s"
  obtain r s' where e: "vmm_create_address_space s = Some (r, s')" using vmm_create_spec[OF assms(1-3) False] by blast
  have c: "r \<noteq> 0" "page_addr r" "r \<in> avail_pages s" "vm_inv (D \<union> user_slots r) s'" "avail_pages s' = avail_pages s - {r}"
    "same_view D (tabs s) (tabs s')" "\<And>i. tabs s' r i = (if 256 \<le> i then tabs s ?k i else 0)"
    "\<And>t. t \<noteq> r \<Longrightarrow> tabs s' t = tabs s t"
    using vmm_create_spec[OF assms(1-3) False] e by auto
  have kr: "tabs s' ?k = tabs s ?k" using c(3,8) assms(3) by metis
  have user: "vmm_get_physical r va s' = 0" if "PML4_INDEX va < 256" for va
    using that c(2,7) by (auto simp: vmm_get_physical_pte pte_def vidx_def vpath_def)
  have kern: "pte (tabs s') r (vidx va) = pte (tabs s') ?k (vidx va)" if "256 \<le> PML4_INDEX va" for va
    using that c(7) kr by (simp add: pte_def vidx_def vpath_def)
  show ?thesis
    unfolding e option.case prod.case
    using c user kern assms(2) on_leaf_vidx vm_inv_root[OF assms(1)]
    by (auto simp: vmm_get_physical_pte vmm_get_pte_flags_pte same_view_def)
qed

definition witness_vmm :: vmm_state where
  "witness_vmm = page_state.extend witness_vm (vmm_state.fields 0x3000 0x3000)"

lemma witness_vmm_simps:
  "tabs witness_vmm = tabs witness_vm" "avail_pages witness_vmm = avail_pages witness_vm"
  "vm_inv D witness_vmm = vm_inv D witness_vm" "kernel_pml4_phys witness_vmm = 0x3000"
proof -
  show t: "tabs witness_vmm = tabs witness_vm"
    by (rule tabs_cong) (simp add: witness_vmm_def page_state.extend_def)
  have f: "free_frames witness_vmm = free_frames witness_vm" "free_pages witness_vmm = free_pages witness_vm"
    "total_pages witness_vmm = total_pages witness_vm"
    by (simp_all add: free_frames_def witness_vmm_def page_state.extend_def)
  then show a: "avail_pages witness_vmm = avail_pages witness_vm" by (simp add: avail_pages_def)
  show "vm_inv D witness_vmm = vm_inv D witness_vm" by (simp add: vm_inv_def pmm_inv_def t a f)
  show "kernel_pml4_phys witness_vmm = 0x3000" by (simp add: witness_vmm_def page_state.extend_def vmm_state.fields_def)
qed

theorem vmm_create_address_space_correct_witness:
  "\<exists>r s'. vmm_create_address_space witness_vmm = Some (r, s') \<and> vmm_get_physical r 0x400000 s' = 0
   \<and> vmm_get_physical 0x3000 0x400000 s' = 0x9000"
proof -
  have inv: "vm_inv (user_slots 0x3000) witness_vmm" using witness_vm_inv by (simp add: witness_vmm_simps)
  have k: "page_addr (kernel_pml4_phys witness_vmm)" "kernel_pml4_phys witness_vmm \<notin> avail_pages witness_vmm"
    by (simp_all add: witness_vmm_simps witness_vm_avail)
  have i: "PML4_INDEX 0x400000 = 0" "PDPT_INDEX 0x400000 = 0" "PD_INDEX 0x400000 = 2" "PT_INDEX 0x400000 = 0"
    by (simp_all add: PML4_INDEX_def PDPT_INDEX_def PD_INDEX_def PT_INDEX_def)
  have "vmm_get_physical 0x3000 0x400000 witness_vmm = 0x9000"
    by (simp add: vmm_get_physical_pte pte_def vidx_def vpath_def witness_vmm_simps tabs_witness_vm i)
  moreover have "(0x3000, PML4_INDEX 0x400000) \<in> user_slots 0x3000" by (simp add: i user_slots_def)
  ultimately show ?thesis
    using vmm_create_address_space_correct[OF inv k]
    by (auto simp: witness_vmm_simps(2) witness_vm_avail i split: option.splits)
qed

text \<open>
  C11. \<^verbatim>\<open>vmm_free_user_address_space\<close> gives back exactly the pages of the address space that are in use: its
  PML4, every table of its user half and every page mapped there. Memory itself is not touched.
\<close>

theorem vmm_free_user_address_space_correct:
  assumes "pmm_inv s" "page_addr r" "0 \<notin> user_pages (tabs s) r"
  shows "avail_pages (vmm_free_user_address_space r s) = avail_pages s \<union> (user_pages (tabs s) r \<inter> owned_pages s)
    \<and> owned_pages (vmm_free_user_address_space r s) = owned_pages s - user_pages (tabs s) r
    \<and> mem (vmm_free_user_address_space r s) = mem s \<and> pmm_inv (vmm_free_user_address_space r s)"
  using vmm_free_user_released[OF assms] by (simp add: released_def)

lemma targets_single:
  assumes "T t = (\<lambda>_. 0)(i := v)" "unat i < n" "n \<le> 512" "present v"
  shows "targets T t n = {v AND PTE_ADDR_MASK}"
proof -
  have "T t (of_nat (unat i)) = v" using assms(1) by simp
  then have "v AND PTE_ADDR_MASK \<in> targets T t n" using assms(2,4) unfolding targets_def by force
  moreover have "targets T t n \<subseteq> {v AND PTE_ADDR_MASK}" using assms(1) by (auto simp: targets_def split: if_splits)
  ultimately show ?thesis by auto
qed

lemma user_pages_witness_vm: "user_pages (tabs witness_vm) 0x3000 = {0x3000, 0x5000, 0x6000, 0x7000, 0x9000}"
proof -
  have "targets (tabs witness_vm) 0x3000 256 = {0x5000}"
    using targets_single[of "tabs witness_vm" "0x3000" 0 "0x5007" 256] by (simp add: tabs_witness_vm)
  moreover have "targets (tabs witness_vm) 0x5000 512 = {0x6000}"
    using targets_single[of "tabs witness_vm" "0x5000" 0 "0x6007" 512] by (simp add: tabs_witness_vm)
  moreover have "targets (tabs witness_vm) 0x6000 512 = {0x7000}"
    using targets_single[of "tabs witness_vm" "0x6000" 2 "0x7007" 512] by (simp add: tabs_witness_vm)
  moreover have "targets (tabs witness_vm) 0x7000 512 = {0x9000}"
    using targets_single[of "tabs witness_vm" "0x7000" 0 "0x9007" 512] by (simp add: tabs_witness_vm)
  ultimately show ?thesis unfolding user_pages_def by auto
qed

theorem vmm_free_user_address_space_correct_witness:
  "avail_pages (vmm_free_user_address_space 0x3000 witness_vm)
   = {0x1000, 0x2000, 0x4000, 0x8000, 0xA000} \<union> ({0x3000, 0x5000, 0x6000, 0x7000, 0x9000} \<inter> owned_pages witness_vm)"
  using vmm_free_user_address_space_correct[OF witness_vm_pmm, of "0x3000"]
  by (simp add: user_pages_witness_vm witness_vm_avail)

text \<open>
  C12. A successful copy-on-write copy gives an address space that translates every user address
  as the original does; in both of them every writable page has become read-only and
  copy-on-write and the other flags are kept. The kernel halves agree, the
  user translations of all other address spaces are unchanged, and every page's reference count has
  grown by the number of its mappings in the original (saturating at 255).
\<close>

theorem vmm_copy_address_space_cow_correct:
  assumes "vm_inv D s" "user_slots src \<subseteq> D" "vmm_copy_address_space_cow src s = (dst, s')" "dst \<noteq> 0"
  shows "(\<forall>va. PML4_INDEX va < 256 \<longrightarrow>
      vmm_get_physical dst va s' = vmm_get_physical src va s \<and> vmm_get_physical src va s' = vmm_get_physical src va s
      \<and> vmm_get_pte_flags dst va s' = cow_flags (vmm_get_pte_flags src va s)
      \<and> vmm_get_pte_flags src va s' = cow_flags (vmm_get_pte_flags src va s)
      \<and> vmm_get_pte_flags dst va s' AND PTE_WRITABLE = 0)
    \<and> (\<forall>i. 256 \<le> i \<longrightarrow> i < 512 \<longrightarrow> get_entry s' dst i = get_entry s src i)
    \<and> (\<forall>r va. (r, PML4_INDEX va) \<in> D \<longrightarrow> r \<noteq> src \<longrightarrow> vmm_get_physical r va s' = vmm_get_physical r va s
        \<and> vmm_get_pte_flags r va s' = vmm_get_pte_flags r va s)
    \<and> (\<forall>a. page_addr a \<longrightarrow> page_tracked a s \<longrightarrow> unat (page_get_refcount a s')
        = min 255 (unat (page_get_refcount a s) + card (mappings D (tabs s) src [] 256 a)))
    \<and> vm_inv (D \<union> user_slots dst) s'"
proof -
  note sp = vmm_copy_spec[OF assms(1-3)]
  have d: "dst \<in> avail_pages s" "dst \<noteq> src" "vm_inv (D \<union> user_slots dst) s'"
    and A: "\<And>r ix. on_leaf D r ix \<Longrightarrow> pte (tabs s') r ix
         = (if r = src \<and> hd ix < 256 then cow (pte (tabs s) src ix) else pte (tabs s) r ix)"
    and B: "\<And>ix. on_leaf (user_slots src) src ix \<Longrightarrow> pte (tabs s') dst ix
         = (if present (pte (tabs s) src ix) then cow (pte (tabs s) src ix) else 0)"
    and K: "\<And>i. 256 \<le> i \<Longrightarrow> tabs s' dst i = tabs s src i"
    and R: "\<forall>a. page_addr a \<longrightarrow> page_tracked a s \<longrightarrow> unat (page_get_refcount a s')
        = min 255 (unat (page_get_refcount a s) + card (mappings D (tabs s) src [] 256 a))"
    using sp assms(4) by blast+
  have ra: "page_addr r" if "(r, i) \<in> D" for r i by (rule vm_inv_root[OF assms(1) that])
  have srcD: "PML4_INDEX va < 256 \<Longrightarrow> (src, PML4_INDEX va) \<in> user_slots src" for va by (simp add: user_slots_def)
  have pd: "page_addr src" "page_addr dst"
    using ra[of src 0] subsetD[OF assms(2), of "(src, 0)"] pmm.avail_page[OF _ d(1)] assms(1)
    by (auto simp: user_slots_def vm_inv_def)
  have f0: "cow_flags 0 = 0" by (simp add: cow_flags_def)
  have fw: "cow_flags f AND PTE_WRITABLE = 0" for f
    by (simp add: cow_flags_def bit.conj_disj_distrib2 and.assoc PTE_COW_def PTE_WRITABLE_def)
  have U: "vmm_get_physical dst va s' = vmm_get_physical src va s \<and> vmm_get_physical src va s' = vmm_get_physical src va s
      \<and> vmm_get_pte_flags dst va s' = cow_flags (vmm_get_pte_flags src va s)
      \<and> vmm_get_pte_flags src va s' = cow_flags (vmm_get_pte_flags src va s)" if va: "PML4_INDEX va < 256" for va
  proof -
    have l: "on_leaf (user_slots src) src (vidx va)" "on_leaf D src (vidx va)"
      using on_leaf_vidx srcD[OF va] assms(2) by blast+
    have h: "hd (vidx va) < 256" using va by (simp add: vidx_def vpath_def)
    show ?thesis
      using A[OF l(2)] B[OF l(1)] h f0
      by (auto simp: vmm_get_physical_pte vmm_get_pte_flags_pte pd Let_def cow_flags_of)
  qed
  have E: "get_entry s' dst i = get_entry s src i" if "256 \<le> i" "i < 512" for i
    using K[OF that(1)] get_entry_tabs[OF pd(1) that(2), of s] get_entry_tabs[OF pd(2) that(2), of s'] by simp
  have O: "vmm_get_physical r va s' = vmm_get_physical r va s \<and> vmm_get_pte_flags r va s' = vmm_get_pte_flags r va s"
    if "(r, PML4_INDEX va) \<in> D" "r \<noteq> src" for r va
    using A[OF on_leaf_vidx[OF that(1)]] that by (simp add: vmm_get_physical_pte vmm_get_pte_flags_pte ra)
  show ?thesis using U E O R d(3) fw by auto
qed


lemma tables_witness_vm: "card (tables (user_slots 0x3000) (tabs witness_vm) 0x3000 [] 256) \<le> 3"
proof -
  have "tables (user_slots 0x3000) (tabs witness_vm) 0x3000 [] 256 \<subseteq> {[0], [0, 0], [0, 0, 2]}"
    using walk_witness_vm by (fastforce simp: tables_def on_path_def in_part_def)
  then have "card (tables (user_slots 0x3000) (tabs witness_vm) 0x3000 [] 256) \<le> card {[0 :: u64], [0, 0], [0, 0, 2]}"
    by (rule card_mono[rotated]) simp
  then show ?thesis by simp
qed

lemma mappings_witness_vm:
  "mappings (user_slots 0x3000) (tabs witness_vm) 0x3000 [] 256 0x9000 = {[0, 0, 2, 0]}"
proof (intro equalityI subsetI)
  fix ix assume "ix \<in> mappings (user_slots 0x3000) (tabs witness_vm) 0x3000 [] 256 0x9000"
  then have l: "on_leaf (user_slots 0x3000) 0x3000 ix" and p: "present (pte (tabs witness_vm) 0x3000 ix)"
    by (auto simp: mappings_def)
  obtain t where t: "walk (tabs witness_vm) 0x3000 (butlast ix) = Some t"
    using p by (cases "walk (tabs witness_vm) 0x3000 (butlast ix)") (auto simp: pte_def)
  obtain q where q: "butlast ix = q" "length q = 3" using on_leaf_path[OF l] by blast
  then have b: "butlast ix = [0, 0, 2]" "t = 0x7000"
    using walk_witness_vm[of q t] t by auto
  then have "last ix = 0" using p t by (simp add: pte_def tabs_witness_vm split: if_splits)
  moreover have "ix = butlast ix @ [last ix]" using l by (cases ix rule: rev_cases) (auto simp: on_leaf_def)
  ultimately show "ix \<in> {[0, 0, 2, 0]}" using b by simp
next
  fix ix :: "u64 list" assume "ix \<in> {[0, 0, 2, 0]}"
  then show "ix \<in> mappings (user_slots 0x3000) (tabs witness_vm) 0x3000 [] 256 0x9000"
    by (simp add: mappings_def on_leaf_def user_slots_def in_part_def pte_def tabs_witness_vm)
qed

theorem vmm_copy_address_space_cow_correct_witness:
  "page_get_refcount 0x9000 witness_vm = 1
   \<and> page_get_refcount 0x9000 (snd (vmm_copy_address_space_cow 0x3000 witness_vm)) = 2
   \<and> vmm_get_pte_flags 0x3000 0x400000 (snd (vmm_copy_address_space_cow 0x3000 witness_vm)) = 0x205"
proof -
  obtain dst s' where c: "vmm_copy_address_space_cow 0x3000 witness_vm = (dst, s')"
    by (cases "vmm_copy_address_space_cow 0x3000 witness_vm")
  have "card (avail_pages witness_vm) = 5" unfolding witness_vm_avail by code_simp
  then have d: "dst \<noteq> 0"
    using vmm_copy_spec[OF witness_vm_inv subset_refl c] tables_witness_vm by auto
  note t = vmm_copy_address_space_cow_correct[OF witness_vm_inv subset_refl c d]
  have i: "PML4_INDEX 0x400000 = 0" "PDPT_INDEX 0x400000 = 0" "PD_INDEX 0x400000 = 2" "PT_INDEX 0x400000 = 0"
    by (simp_all add: PML4_INDEX_def PDPT_INDEX_def PD_INDEX_def PT_INDEX_def)
  have fl: "vmm_get_pte_flags 0x3000 0x400000 witness_vm = 7"
    by (simp add: vmm_get_pte_flags_def Let_def get_entry_tabs tabs_witness_vm i PTE_ADDR_MASK_def present_def PTE_PRESENT_def)
  have "cow_flags 7 = 0x205" by (simp add: cow_flags_def PTE_WRITABLE_def PTE_COW_def)
  then have "vmm_get_pte_flags 0x3000 0x400000 s' = 0x205" using t fl i by simp
  moreover have r: "page_get_refcount 0x9000 witness_vm = 1" "page_tracked 0x9000 witness_vm"
    by (simp_all add: page_get_refcount_def page_tracked_def witness_vm_def witness_vm0_def set_entry_def PAGE_SIZE_def)
  moreover have "page_get_refcount 0x9000 s' = 2"
  proof -
    have "page_addr (0x9000 :: u64)" by simp
    then have "unat (page_get_refcount 0x9000 s') = 2" using t r by (simp add: mappings_witness_vm)
    then show ?thesis by (simp add: word_unat_eq_iff)
  qed
  ultimately show ?thesis using c by simp
qed

text \<open>
  C13. The copy succeeds whenever there is one page more than the original has tables in
  its user half, and it takes exactly that many pages: one per table and the new PML4.
\<close>

theorem vmm_copy_address_space_cow_succeeds:
  assumes "vm_inv D s" "user_slots src \<subseteq> D"
    "card (tables D (tabs s) src [] 256) < card (avail_pages s)"
  shows "fst (vmm_copy_address_space_cow src s) \<noteq> 0
    \<and> card (avail_pages (snd (vmm_copy_address_space_cow src s))) + card (tables D (tabs s) src [] 256) + 1
      = card (avail_pages s)"
  using vmm_copy_spec[OF assms(1,2), of "fst (vmm_copy_address_space_cow src s)" "snd (vmm_copy_address_space_cow src s)"]
    assms(3) by auto

theorem vmm_copy_address_space_cow_succeeds_witness:
  "fst (vmm_copy_address_space_cow 0x3000 witness_vm) \<noteq> 0"
proof -
  have "card (avail_pages witness_vm) = 5" unfolding witness_vm_avail by code_simp
  then show ?thesis
    using vmm_copy_address_space_cow_succeeds[OF witness_vm_inv subset_refl] tables_witness_vm by auto
qed

text \<open>
  The release of an address space does not look at the reference counts: a page that another address
  space still maps, as after a copy-on-write copy, becomes available to the allocator.
\<close>

lemma vmm_free_releases_shared_page:
  assumes "pmm_inv s" "page_addr r" "0 \<notin> user_pages (tabs s) r" "page_addr r'"
    "vmm_get_physical r' va s \<in> user_pages (tabs s) r" "vmm_get_physical r' va s \<in> owned_pages s"
  shows "vmm_get_physical r' va (vmm_free_user_address_space r s) \<in> avail_pages (vmm_free_user_address_space r s)"
proof -
  note f = vmm_free_user_released[OF assms(1-3)]
  have "tabs (vmm_free_user_address_space r s) = tabs s" by (rule tabs_cong) (use f in \<open>simp add: released_def\<close>)
  then have "vmm_get_physical r' va (vmm_free_user_address_space r s) = vmm_get_physical r' va s"
    using assms(4) by (simp add: vmm_get_physical_pte)
  then show ?thesis using f assms(5,6) by (simp add: released_def)
qed

end
