(* ===== verification/Heap.thy ===== *)
theory Heap
  imports Vmm_Space
begin

text \<open>
  The kernel heap, \<^verbatim>\<open>mm/heap.c\<close>: a first-fit allocator over a doubly linked free list whose
  links live inside the free blocks.

  \<open>hmem\<close> is the memory of the heap's virtual window, byte-addressed by virtual address; a block header
  is the quadword at the block's address, the links of a free block are the two quadwords
  after it. The window is backed by frames that \<^verbatim>\<open>heap_expand\<close> and \<^verbatim>\<open>kheap_init\<close> take from the page
  allocator and map in the kernel's address space. A search of the free list need not end
  on a corrupted list, so it is a partial function and the operations that search return
  \<open>None\<close> for not returning at all.
\<close>

section \<open>State and operations\<close>

record heap_state = vmm_state +
  hmem :: bytes
  heap_start :: u64
  heap_end :: u64
  free_list :: u64
  total_allocated :: u64
  total_free :: u64

definition BLOCK_FREE :: u64 where "BLOCK_FREE = 1"
definition SIZE_MASK :: u64 where "SIZE_MASK = NOT 0xF"
definition HEADER_SIZE :: u64 where "HEADER_SIZE = 8"
definition FREE_BLOCK_SIZE :: u64 where "FREE_BLOCK_SIZE = 24"
definition MIN_ALLOC_SIZE :: u64 where "MIN_ALLOC_SIZE = 16"
definition INITIAL_HEAP_PAGES :: nat where "INITIAL_HEAP_PAGES = 16"
definition HEAP_GROW_PAGES :: u64 where "HEAP_GROW_PAGES = 16"

text \<open>The fields of \<^verbatim>\<open>struct free_block\<close>.\<close>

definition hdr :: "'a heap_state_scheme \<Rightarrow> u64 \<Rightarrow> u64" where
  "hdr s b = load64 (hmem s) b"

definition set_hdr :: "u64 \<Rightarrow> u64 \<Rightarrow> 'a heap_state_scheme \<Rightarrow> 'a heap_state_scheme" where
  "set_hdr b v s = s\<lparr>hmem := store64 (hmem s) b v\<rparr>"

definition fb_next :: "'a heap_state_scheme \<Rightarrow> u64 \<Rightarrow> u64" where
  "fb_next s b = load64 (hmem s) (b + 8)"

definition set_fb_next :: "u64 \<Rightarrow> u64 \<Rightarrow> 'a heap_state_scheme \<Rightarrow> 'a heap_state_scheme" where
  "set_fb_next b v s = s\<lparr>hmem := store64 (hmem s) (b + 8) v\<rparr>"

definition fb_prev :: "'a heap_state_scheme \<Rightarrow> u64 \<Rightarrow> u64" where
  "fb_prev s b = load64 (hmem s) (b + 16)"

definition set_fb_prev :: "u64 \<Rightarrow> u64 \<Rightarrow> 'a heap_state_scheme \<Rightarrow> 'a heap_state_scheme" where
  "set_fb_prev b v s = s\<lparr>hmem := store64 (hmem s) (b + 16) v\<rparr>"

definition block_size :: "'a heap_state_scheme \<Rightarrow> u64 \<Rightarrow> u64" where
  "block_size s b = hdr s b AND SIZE_MASK"

definition block_is_free :: "'a heap_state_scheme \<Rightarrow> u64 \<Rightarrow> bool" where
  "block_is_free s b \<longleftrightarrow> hdr s b AND BLOCK_FREE \<noteq> 0"

definition block_set_free :: "u64 \<Rightarrow> 'a heap_state_scheme \<Rightarrow> 'a heap_state_scheme" where
  "block_set_free b s = set_hdr b (hdr s b OR BLOCK_FREE) s"

definition block_set_used :: "u64 \<Rightarrow> 'a heap_state_scheme \<Rightarrow> 'a heap_state_scheme" where
  "block_set_used b s = set_hdr b (hdr s b AND NOT BLOCK_FREE) s"

definition block_data :: "u64 \<Rightarrow> u64" where "block_data b = b + HEADER_SIZE"
definition data_to_block :: "u64 \<Rightarrow> u64" where "data_to_block ptr = ptr - HEADER_SIZE"

definition next_block :: "'a heap_state_scheme \<Rightarrow> u64 \<Rightarrow> u64" where
  "next_block s b = b + block_size s b"

definition align_up :: "u64 \<Rightarrow> u64" where
  "align_up sz = (sz + 16 - 1) AND NOT (16 - 1)"

definition free_list_insert :: "u64 \<Rightarrow> 'a heap_state_scheme \<Rightarrow> 'a heap_state_scheme" where
  "free_list_insert b s =
     (let s1 = set_fb_next b (free_list s) s;
          s2 = set_fb_prev b 0 s1;
          s3 = if free_list s2 \<noteq> 0 then set_fb_prev (free_list s2) b s2 else s2
      in s3\<lparr>free_list := b\<rparr>)"

definition free_list_remove :: "u64 \<Rightarrow> 'a heap_state_scheme \<Rightarrow> 'a heap_state_scheme" where
  "free_list_remove b s =
     (let s1 = (if fb_prev s b \<noteq> 0 then set_fb_next (fb_prev s b) (fb_next s b) s
                else s\<lparr>free_list := fb_next s b\<rparr>)
      in if fb_next s1 b \<noteq> 0 then set_fb_prev (fb_next s1 b) (fb_prev s1 b) s1 else s1)"

text \<open>The page loop of \<^verbatim>\<open>heap_expand\<close>: the frames mapped so far, and whether all pages were mapped.\<close>

fun expand_pages ::
  "nat \<Rightarrow> u64 \<Rightarrow> u64 list \<Rightarrow> 'a heap_state_scheme \<Rightarrow> bool \<times> u64 list \<times> 'a heap_state_scheme" where
  "expand_pages 0 pml4 allocated_phys s = (True, allocated_phys, s)"
| "expand_pages (Suc n) pml4 allocated_phys s =
     (let (phys, s1) = pmm_alloc s in
      if phys = PMM_ALLOC_FAILED then (False, allocated_phys, s1)
      else let (result, s2) = vmm_map_page pml4 (heap_end s1) phys (PTE_PRESENT OR PTE_WRITABLE) s1 in
      if result \<noteq> 0 then (False, allocated_phys, pmm_free phys s2)
      else expand_pages n pml4 (allocated_phys @ [phys]) (s2\<lparr>heap_end := heap_end s2 + PAGE_SIZE\<rparr>))"

definition expand_cleanup :: "u64 \<Rightarrow> u64 \<Rightarrow> u64 list \<Rightarrow> 'a heap_state_scheme \<Rightarrow> 'a heap_state_scheme" where
  "expand_cleanup pml4 new_region allocated_phys s =
     (fold (\<lambda>(i, phys) s. pmm_free phys (snd (vmm_unmap_page pml4 (new_region + of_nat i * PAGE_SIZE) s)))
        (enumerate 0 allocated_phys) s)\<lparr>heap_end := new_region\<rparr>"

definition heap_expand :: "u64 \<Rightarrow> 'a heap_state_scheme \<Rightarrow> u64 \<times> 'a heap_state_scheme" where
  "heap_expand min_size s =
     (let pages = (min_size + PAGE_SIZE - 1) div PAGE_SIZE;
          pages_needed = if pages < HEAP_GROW_PAGES then HEAP_GROW_PAGES else pages
      in if pages_needed > 64 then (0, s)
      else let pml4 = vmm_get_kernel_pml4 s; new_region = heap_end s;
               (ok, allocated_phys, s1) = expand_pages (unat pages_needed) pml4 [] s
           in if \<not> ok then (0, expand_cleanup pml4 new_region allocated_phys s1)
              else let blk_size = pages_needed * PAGE_SIZE;
                       s2 = set_hdr new_region (blk_size OR BLOCK_FREE) s1;
                       s3 = s2\<lparr>total_free := total_free s2 + (blk_size - HEADER_SIZE)\<rparr>
                   in (new_region, free_list_insert new_region s3))"

text \<open>\<^verbatim>\<open>kheap_init\<close>; \<open>None\<close> is the halt of its two panics.\<close>

fun init_pages :: "nat \<Rightarrow> u64 \<Rightarrow> 'a heap_state_scheme \<Rightarrow> bool \<times> 'a heap_state_scheme" where
  "init_pages 0 pml4 s = (True, s)"
| "init_pages (Suc n) pml4 s =
     (let (phys, s1) = pmm_alloc s in
      if phys = PMM_ALLOC_FAILED then (False, s1)
      else let (result, s2) = vmm_map_page pml4 (heap_end s1) phys (PTE_PRESENT OR PTE_WRITABLE) s1 in
      if result \<noteq> 0 then (False, s2)
      else init_pages n pml4 (s2\<lparr>heap_end := heap_end s2 + PAGE_SIZE\<rparr>))"

definition kheap_init :: "'a heap_state_scheme \<Rightarrow> 'a heap_state_scheme option" where
  "kheap_init s =
     (let start = 0xFFFFFFFF00000000;
          s0 = s\<lparr>heap_start := start, heap_end := start, free_list := 0, total_allocated := 0, total_free := 0\<rparr>;
          (ok, s1) = init_pages INITIAL_HEAP_PAGES (vmm_get_kernel_pml4 s0) s0
      in if \<not> ok then None
         else let initial = heap_start s1;
                  initial_size = of_nat INITIAL_HEAP_PAGES * PAGE_SIZE;
                  s2 = set_hdr initial (initial_size OR BLOCK_FREE) s1;
                  s3 = set_fb_prev initial 0 (set_fb_next initial 0 s2)
              in Some (s3\<lparr>free_list := initial, total_free := initial_size - HEADER_SIZE\<rparr>))"

text \<open>The search of \<^verbatim>\<open>kmalloc\<close>: the first block that is large enough, 0 when there is none.\<close>

partial_function (option) find_fit :: "u64 \<Rightarrow> u64 \<Rightarrow> 'a heap_state_scheme \<Rightarrow> u64 option" where
  [code]: "find_fit total_size current s =
     (if current = 0 then Some 0
      else if block_size s current \<ge> total_size then Some current
      else find_fit total_size (fb_next s current) s)"

text \<open>
  Splitting and marking a block that has been taken off the free list; \<^verbatim>\<open>kmalloc\<close> does this in
  two places, for a block of the free list and for the block of a fresh region.
\<close>

definition kmalloc_take :: "u64 \<Rightarrow> u64 \<Rightarrow> u64 \<Rightarrow> 'a heap_state_scheme \<Rightarrow> u64 \<times> 'a heap_state_scheme" where
  "kmalloc_take total_size current current_size s =
     (let remaining = current_size - total_size;
          (taken, s1) =
            (if remaining \<ge> FREE_BLOCK_SIZE + MIN_ALLOC_SIZE
             then let new_free = current + total_size;
                      a = set_hdr new_free (remaining OR BLOCK_FREE) s;
                      b = free_list_insert new_free a;
                      c = set_hdr current total_size b
                  in (total_size, c\<lparr>total_free := total_free c - (total_size - HEADER_SIZE)\<rparr>)
             else (current_size, s\<lparr>total_free := total_free s - (current_size - HEADER_SIZE)\<rparr>));
          s2 = block_set_used current s1
      in (block_data current, s2\<lparr>total_allocated := total_allocated s2 + (taken - HEADER_SIZE)\<rparr>))"

definition kmalloc_size :: "u64 \<Rightarrow> u64" where
  "kmalloc_size sz =
     (let total_size = align_up (HEADER_SIZE + sz) in
      if total_size < FREE_BLOCK_SIZE then FREE_BLOCK_SIZE else total_size)"

definition kmalloc :: "u64 \<Rightarrow> 'a heap_state_scheme \<Rightarrow> (u64 \<times> 'a heap_state_scheme) option" where
  "kmalloc sz s =
     (if sz = 0 then Some (0, s)
      else let total_size = kmalloc_size sz in
        case find_fit total_size (free_list s) s of
          None \<Rightarrow> None
        | Some current \<Rightarrow>
            if current \<noteq> 0
            then Some (kmalloc_take total_size current (block_size s current) (free_list_remove current s))
            else (case heap_expand total_size s of
              (new_block, s1) \<Rightarrow>
                if new_block = 0 then Some (0, s1)
                else let s2 = free_list_remove new_block s1 in
                  Some (kmalloc_take total_size new_block (block_size s2 new_block) s2)))"

definition kzalloc :: "u64 \<Rightarrow> 'a heap_state_scheme \<Rightarrow> (u64 \<times> 'a heap_state_scheme) option" where
  "kzalloc sz s =
     (case kmalloc sz s of None \<Rightarrow> None
      | Some (ptr, s1) \<Rightarrow>
          Some (ptr, if ptr \<noteq> 0 then s1\<lparr>hmem := memset (hmem s1) ptr 0 sz\<rparr> else s1))"

definition kfree :: "u64 \<Rightarrow> 'a heap_state_scheme \<Rightarrow> 'a heap_state_scheme" where
  "kfree ptr s =
     (if ptr = 0 then s
      else let block = data_to_block ptr; sz = block_size s block in
        if block < heap_start s \<or> block \<ge> heap_end s then s
        else if block_is_free s block then s
        else let s1 = s\<lparr>total_allocated := total_allocated s - (sz - HEADER_SIZE),
                        total_free := total_free s + (sz - HEADER_SIZE)\<rparr>;
                 next = next_block s1 block;
                 s2 = (if next < heap_end s1 \<and> block_is_free s1 next
                       then let s' = free_list_remove next s1 in set_hdr block (sz + block_size s' next) s'
                       else s1);
                 s3 = block_set_free block s2
             in free_list_insert block s3)"

definition krealloc :: "u64 \<Rightarrow> u64 \<Rightarrow> 'a heap_state_scheme \<Rightarrow> (u64 \<times> 'a heap_state_scheme) option" where
  "krealloc ptr sz s =
     (if ptr = 0 then kmalloc sz s
      else if sz = 0 then Some (0, kfree ptr s)
      else let block = data_to_block ptr;
               old_size = block_size s block - HEADER_SIZE;
               total_needed = align_up (HEADER_SIZE + sz)
           in if total_needed \<le> block_size s block then Some (ptr, s)
              else case kmalloc sz s of None \<Rightarrow> None
                | Some (new_ptr, s1) \<Rightarrow>
                    if new_ptr = 0 then Some (0, s1)
                    else let copy_size = (if old_size < sz then old_size else sz);
                             s2 = s1\<lparr>hmem := memcpy (hmem s1) new_ptr ptr copy_size\<rparr>
                         in Some (new_ptr, kfree ptr s2))"

definition kheap_get_used :: "'a heap_state_scheme \<Rightarrow> u64" where
  "kheap_get_used s = total_allocated s"

definition kheap_get_free :: "'a heap_state_scheme \<Rightarrow> u64" where
  "kheap_get_free s = total_free s"

text \<open>
  \<^verbatim>\<open>page_init\<close> of \<^verbatim>\<open>mm/page.c\<close>, which allocates the counters from the heap; their array is then
  the store \<open>page_info\<close>, which starts out as the heap memory behind the returned pointer. Without memory it panics.
\<close>

definition page_init :: "u64 \<Rightarrow> 'a heap_state_scheme \<Rightarrow> 'a heap_state_scheme option" where
  "page_init max_phys s =
     (let n = max_phys div PAGE_SIZE; s0 = s\<lparr>max_pages := n\<rparr> in
      case kmalloc (n * 1) s0 of None \<Rightarrow> None
      | Some (ptr, s1) \<Rightarrow>
          if ptr = 0 then None
          else Some (s1\<lparr>page_info := Some (memset (\<lambda>i. hmem s1 (ptr + i)) 0 0 n)\<rparr>))"

end
