(* ===== verification/Heap_List.thy ===== *)
theory Heap_List
  imports Heap
begin

text \<open>
  The heap's memory as words and as blocks. A block header and its links are aligned quadwords, so
  the heap is a function \<open>Q\<close> from addresses to words; \<open>dll\<close> reads the free list out of it, \<open>tiles\<close>
  the sequence of blocks. The lemmas say what removing, inserting, splitting and merging
  blocks do to both.
\<close>

section \<open>Quadwords\<close>

definition quads :: "bytes \<Rightarrow> u64 \<Rightarrow> u64" where
  "quads m a = (if a AND 7 = 0 then load64 m a else 0)"

lemma quads_store:
  assumes "a AND 7 = 0"
  shows "quads (store64 m a v) = (quads m)(a := v)"
  using assms by (intro ext) (auto simp: quads_def load64_store64_other)

abbreviation qw :: "'a heap_state_scheme \<Rightarrow> u64 \<Rightarrow> u64" where
  "qw s \<equiv> quads (hmem s)"

text \<open>Block addresses are multiples of 16; header and links are then aligned.\<close>

abbreviation blk_addr :: "u64 \<Rightarrow> bool" where
  "blk_addr b \<equiv> 16 dvd unat b"

lemma aligned_parts:
  assumes "blk_addr b"
  shows "b AND 7 = 0" "(b + 8) AND 7 = 0" "(b + 16) AND 7 = 0"
proof -
  have d: "8 dvd unat b" by (rule dvd_trans[OF _ assms]) simp
  then show "b AND 7 = 0" by (simp add: aligned8_iff)
  have e: "8 dvd unat (b + c)" if "8 dvd unat c" for c
    using d that by (simp add: unat_word_ariths dvd_mod_iff)
  show "(b + 8) AND 7 = 0" "(b + 16) AND 7 = 0"
    using e[of 8] e[of 16] by (simp_all add: aligned8_iff)
qed

lemma field_reads:
  assumes "blk_addr b"
  shows "hdr s b = qw s b" "fb_next s b = qw s (b + 8)" "fb_prev s b = qw s (b + 16)"
  using aligned_parts[OF assms] by (simp_all add: hdr_def fb_next_def fb_prev_def quads_def)

lemma field_writes:
  assumes "blk_addr b"
  shows "qw (set_hdr b v s) = (qw s)(b := v)" "qw (set_fb_next b v s) = (qw s)(b + 8 := v)"
    "qw (set_fb_prev b v s) = (qw s)(b + 16 := v)"
  using aligned_parts[OF assms] by (simp_all add: set_hdr_def set_fb_next_def set_fb_prev_def quads_store)

lemma field_frames [simp]:
  "free_list (set_hdr b v s) = free_list s" "free_list (set_fb_next b v s) = free_list s"
  "free_list (set_fb_prev b v s) = free_list s"
  "heap_start (set_hdr b v s) = heap_start s" "heap_start (set_fb_next b v s) = heap_start s"
  "heap_start (set_fb_prev b v s) = heap_start s"
  "heap_end (set_hdr b v s) = heap_end s" "heap_end (set_fb_next b v s) = heap_end s"
  "heap_end (set_fb_prev b v s) = heap_end s"
  "total_free (set_hdr b v s) = total_free s" "total_free (set_fb_next b v s) = total_free s"
  "total_free (set_fb_prev b v s) = total_free s"
  "total_allocated (set_hdr b v s) = total_allocated s" "total_allocated (set_fb_next b v s) = total_allocated s"
  "total_allocated (set_fb_prev b v s) = total_allocated s"
  by (simp_all add: set_hdr_def set_fb_next_def set_fb_prev_def)

section \<open>The free list as a list\<close>

text \<open>The doubly linked list \<open>xs\<close> starts at \<open>c\<close>; the back link of its first element is \<open>p\<close>.\<close>

fun dll :: "(u64 \<Rightarrow> u64) \<Rightarrow> u64 \<Rightarrow> u64 \<Rightarrow> u64 list \<Rightarrow> bool" where
  "dll Q p c [] \<longleftrightarrow> c = 0"
| "dll Q p c (x # xs) \<longleftrightarrow> c = x \<and> x \<noteq> 0 \<and> Q (x + 16) = p \<and> dll Q x (Q (x + 8)) xs"

text \<open>No link field of one block is a link field of another one.\<close>

definition link_sep :: "u64 set \<Rightarrow> bool" where
  "link_sep X \<longleftrightarrow> (\<forall>y \<in> X. \<forall>z \<in> X. y + 8 \<noteq> z + 16)"

lemma link_sep_blk: "(\<And>x. x \<in> X \<Longrightarrow> blk_addr x) \<Longrightarrow> link_sep X"
proof -
  assume a: "\<And>x. x \<in> X \<Longrightarrow> blk_addr x"
  have "y + 8 \<noteq> z + 16" if "blk_addr y" "blk_addr z" for y z :: u64
  proof
    assume "y + 8 = z + 16"
    then have "y = (z + 16) - 8" by (metis add_diff_cancel_right')
    then have "y = z + 8" by simp
    then have "16 dvd unat z + 8" using that(1) by (simp add: unat_word_ariths dvd_mod_iff)
    then show False using that(2) by (simp add: dvd_add_right_iff)
  qed
  then show "link_sep X" using a by (auto simp: link_sep_def)
qed

lemma dll_frame:
  "(\<And>y. y \<in> set xs \<Longrightarrow> Q' (y + 8) = Q (y + 8) \<and> Q' (y + 16) = Q (y + 16)) \<Longrightarrow> dll Q' p c xs = dll Q p c xs"
  by (induction xs arbitrary: p c) auto

lemma dll_head: "dll Q p c xs \<Longrightarrow> c = (case xs of [] \<Rightarrow> 0 | x # _ \<Rightarrow> x)" "dll Q p c xs \<Longrightarrow> 0 \<notin> set xs"
  by (induction xs arbitrary: p c) (auto split: list.splits)

definition unlinked :: "u64 \<Rightarrow> u64 \<Rightarrow> u64 \<Rightarrow> (u64 \<Rightarrow> u64) \<Rightarrow> u64 \<Rightarrow> u64" where
  "unlinked p u v Q = (let Q1 = (if u \<noteq> p then Q(u + 8 := v) else Q) in if v \<noteq> 0 then Q1(v + 16 := u) else Q1)"

lemma dll_remove:
  assumes "dll Q p c (us @ x # vs)" "distinct (p # us @ x # vs)" "link_sep (set (us @ x # vs))"
  shows "Q (x + 16) = last (p # us) \<and> Q (x + 8) = (case vs of [] \<Rightarrow> 0 | v # _ \<Rightarrow> v)
    \<and> dll (unlinked p (Q (x + 16)) (Q (x + 8)) Q) p (if us = [] then Q (x + 8) else c) (us @ vs)"
  using assms
proof (induction us arbitrary: p c)
  case Nil
  then have l: "Q (x + 16) = p" "dll Q x (Q (x + 8)) vs" by auto
  note h = dll_head[OF l(2)]
  show ?case
  proof (cases vs)
    case (Cons y ys)
    have "dll (Q(y + 16 := p)) y (Q (y + 8)) ys = dll Q y (Q (y + 8)) ys"
      by (rule dll_frame) (use Nil.prems Cons in \<open>auto simp: link_sep_def\<close>)
    moreover have "y + 8 \<noteq> y + 16" using Nil.prems(3) Cons by (auto simp: link_sep_def)
    moreover have "unlinked p (Q (x + 16)) (Q (x + 8)) Q = Q(y + 16 := p)" using l h Cons by (simp add: unlinked_def)
    moreover have "(Q(y + 16 := p)) (y + 16) = p" "(Q(y + 16 := p)) (y + 8) = Q (y + 8)" using calculation(2) by simp_all
    ultimately show ?thesis using l h Cons by (simp del: fun_upd_apply)
  qed (use l h in \<open>simp add: unlinked_def\<close>)
next
  case (Cons w us)
  let ?u = "Q (x + 16)" and ?v = "Q (x + 8)"
  have d: "dll Q w (Q (w + 8)) (us @ x # vs)" and w: "c = w" "w \<noteq> 0" "Q (w + 16) = p" using Cons.prems(1) by auto
  have IH: "?u = last (w # us) \<and> ?v = (case vs of [] \<Rightarrow> 0 | v # _ \<Rightarrow> v)
    \<and> dll (unlinked w ?u ?v Q) w (if us = [] then ?v else Q (w + 8)) (us @ vs)"
    by (rule Cons.IH[OF d]) (use Cons.prems in \<open>auto simp: link_sep_def\<close>)
  have vin: "?v = 0 \<or> ?v \<in> set vs" using IH by (cases vs) auto
  show ?case
  proof (cases "us = []")
    case True
    then have u: "?u = w" using IH by simp
    have "dll (unlinked p w ?v Q) w ?v vs = dll (unlinked w w ?v Q) w ?v vs"
      by (rule dll_frame) (use Cons.prems True in \<open>auto simp: unlinked_def link_sep_def Let_def\<close>)
    moreover have "unlinked p w ?v Q (w + 8) = ?v" "unlinked p w ?v Q (w + 16) = p"
      using Cons.prems w vin True by (auto simp: unlinked_def link_sep_def Let_def)
    ultimately show ?thesis using IH w True u by auto
  next
    case False
    then have u: "?u = last us" "?u \<in> set us" using IH by auto
    then have un: "?u \<noteq> w" "?u \<noteq> p" using Cons.prems(2) by auto
    then have eq: "unlinked p ?u ?v Q = unlinked w ?u ?v Q" by (simp add: unlinked_def)
    obtain R where R: "unlinked w ?u ?v Q = R" by blast
    have "R (w + 16) = p" "R (w + 8) = Q (w + 8)"
      using Cons.prems w vin un u by (auto simp: unlinked_def link_sep_def Let_def R[symmetric])
    moreover have "dll R w (Q (w + 8)) (us @ vs)" using IH False unfolding R by simp
    ultimately show ?thesis using IH w False unfolding eq R by simp
  qed
qed

lemma dll_insert:
  assumes "dll Q 0 c xs" "b \<notin> set xs" "b \<noteq> 0" "link_sep (insert b (set xs))" and d: "distinct xs"
  shows "dll (let Q1 = Q(b + 8 := c, b + 16 := 0) in if c \<noteq> 0 then Q1(c + 16 := b) else Q1) 0 b (b # xs)"
proof (cases xs)
  case Nil
  then show ?thesis using assms by (auto simp: link_sep_def Let_def)
next
  case (Cons y ys)
  then have c: "c = y" "y \<noteq> 0" "Q (y + 16) = 0" "dll Q y (Q (y + 8)) ys" using assms(1) by auto
  let ?Q = "Q(b + 8 := y, b + 16 := 0, y + 16 := b)"
  have "dll ?Q y (?Q (y + 8)) ys = dll Q y (Q (y + 8)) ys"
  proof -
    have "dll ?Q y (Q (y + 8)) ys = dll Q y (Q (y + 8)) ys"
    proof (rule dll_frame)
      fix z assume "z \<in> set ys"
      then show "?Q (z + 8) = Q (z + 8) \<and> ?Q (z + 16) = Q (z + 16)"
        using assms(2,4) Cons d by (auto simp: link_sep_def)
    qed
    moreover have "?Q (y + 8) = Q (y + 8)" using assms(2,4) Cons by (auto simp: link_sep_def)
    ultimately show ?thesis by simp
  qed
  then show ?thesis using assms c Cons by (auto simp: link_sep_def Let_def)
qed

section \<open>Headers\<close>

definition tag :: "nat \<Rightarrow> bool \<Rightarrow> u64" where
  "tag n f = of_nat n + (if f then 1 else 0)"

lemma tag_bits:
  assumes "16 dvd n"
  shows "tag n f AND SIZE_MASK = of_nat n" "tag n f AND BLOCK_FREE \<noteq> 0 \<longleftrightarrow> f"
    "tag n f OR BLOCK_FREE = tag n True" "tag n f AND NOT BLOCK_FREE = tag n False"
    "(of_nat n :: u64) OR BLOCK_FREE = tag n True" "of_nat n = tag n False"
proof -
  obtain k where k: "n = 16 * k" using assms by blast
  define w :: u64 where "w = of_nat n"
  have w: "w = push_bit 4 (of_nat k)" by (simp add: w_def k push_bit_eq_mult)
  have b0: "\<not> bit w i" if "i < 4" for i using that by (simp add: w bit_push_bit_iff)
  have one: "bit (1 :: u64) i \<longleftrightarrow> i = 0" for i by (auto simp: bit_1_iff)
  have m: "bit (NOT 0xF :: u64) i \<longleftrightarrow> i < 64 \<and> 4 \<le> i" for i
  proof -
    have m: "(0xF :: u64) = mask 4" by (simp add: mask_eq_exp_minus_1)
    show ?thesis unfolding m by (simp only: bit_not_iff bit_mask_iff) auto
  qed
  have add: "w + 1 = w OR 1" by (rule disjunctive_add) (use b0[of 0] in \<open>auto simp: one intro: gr0I\<close>)
  have t: "tag n f = (if f then w OR 1 else w)" for f by (simp add: tag_def w_def[symmetric] add)
  show "tag n f AND SIZE_MASK = of_nat n" 
  proof (rule bit_word_eqI)
    fix i assume "i < LENGTH(64)"
    then have "bit (tag n f) i \<and> (i < 64 \<and> 4 \<le> i) \<longleftrightarrow> bit w i"
      using b0[of i] by (auto simp: t bit_or_iff one not_less[symmetric])
    then show "bit (tag n f AND SIZE_MASK) i = bit (of_nat n :: u64) i"
      unfolding SIZE_MASK_def w_def[symmetric] by (simp only: bit_and_iff m)
  qed
  show "tag n f AND BLOCK_FREE \<noteq> 0 \<longleftrightarrow> f" unfolding t BLOCK_FREE_def using b0[of 0]
    by (auto simp: and_one_eq odd_iff_mod_2_eq_one[symmetric] bit_0 even_or_iff)
  show "tag n f OR BLOCK_FREE = tag n True" "of_nat n OR BLOCK_FREE = tag n True" unfolding t w_def[symmetric] BLOCK_FREE_def
    by (simp_all add: or.assoc)
  show "tag n f AND NOT BLOCK_FREE = tag n False" unfolding t BLOCK_FREE_def
    by (rule bit_word_eqI) (use b0[of 0] in \<open>auto simp: bit_and_iff bit_or_iff bit_not_iff one intro: gr0I\<close>)
  show "of_nat n = tag n False" by (simp add: t w_def)
qed

section \<open>The heap as a sequence of blocks\<close>

type_synonym block = "nat \<times> nat \<times> bool"

fun tiles :: "(u64 \<Rightarrow> u64) \<Rightarrow> nat \<Rightarrow> block list \<Rightarrow> nat \<Rightarrow> bool" where
  "tiles Q a [] e \<longleftrightarrow> a = e"
| "tiles Q a ((b, n, f) # bs) e \<longleftrightarrow> b = a \<and> 32 \<le> n \<and> 16 dvd n \<and> Q (of_nat b) = tag n f \<and> tiles Q (a + n) bs e"

lemma tiles_append: "tiles Q a (us @ vs) e \<longleftrightarrow> (\<exists>m. tiles Q a us m \<and> tiles Q m vs e)"
  by (induction us arbitrary: a) auto

lemma tiles_le: "tiles Q a bs e \<Longrightarrow> a \<le> e"
  by (induction Q a bs e rule: tiles.induct) auto

lemma tiles_in:
  assumes "tiles Q a bs e" "(b, n, f) \<in> set bs"
  shows "a \<le> b \<and> b + n \<le> e \<and> 32 \<le> n \<and> 16 dvd n \<and> Q (of_nat b) = tag n f \<and> (16 dvd a \<longrightarrow> 16 dvd b)"
proof -
  have *: "tiles Q a ((b, n, f) # vs) e \<Longrightarrow> b + n \<le> e" for a vs by (auto dest: tiles_le)
  obtain us vs where "bs = us @ (b, n, f) # vs" using split_list[OF assms(2)] by blast
  then obtain m where m: "tiles Q a us m" "tiles Q m ((b, n, f) # vs) e" using assms(1) by (auto simp: tiles_append)
  moreover have "16 dvd a \<longrightarrow> 16 dvd m" using m(1) by (induction Q a us m rule: tiles.induct) auto
  ultimately show ?thesis using *[OF m(2)] tiles_le[OF m(1)] by auto
qed

lemma tiles_frame:
  "(\<And>b n f. (b, n, f) \<in> set bs \<Longrightarrow> Q' (of_nat b) = Q (of_nat b)) \<Longrightarrow> tiles Q' a bs e = tiles Q a bs e"
proof (induction Q a bs e rule: tiles.induct)
  case (2 Q a b n f bs e)
  have "Q' (of_nat b) = Q (of_nat b)" by (rule 2(2)[of b n f]) simp
  then show ?case using 2 by auto
qed simp

lemma tiles_around:
  assumes "tiles Q a (us @ (b, n, f) # vs) e"
  shows "(c, m, g) \<in> set us \<Longrightarrow> c + m \<le> b" "(c, m, g) \<in> set vs \<Longrightarrow> b + n \<le> c"
  using assms by (auto simp: tiles_append dest: tiles_in)

lemma tiles_apart:
  assumes "tiles Q a bs e" "(b, n, f) \<in> set bs" "(c, m, g) \<in> set bs"
  shows "(b, n, f) = (c, m, g) \<or> b + n \<le> c \<or> c + m \<le> b"
proof -
  obtain us vs where bs: "bs = us @ (b, n, f) # vs" using split_list[OF assms(2)] by blast
  then show ?thesis using assms(3) tiles_around[of Q a us b n f vs e] assms(1) by auto
qed

definition faddrs :: "block list \<Rightarrow> nat set" where
  "faddrs bs = {b. \<exists>n. (b, n, True) \<in> set bs}"

definition live_data :: "block list \<Rightarrow> u64 set" where
  "live_data bs = {x. \<exists>b n. (b, n, False) \<in> set bs \<and> b + 8 \<le> unat x \<and> unat x < b + n}"

definition used_bytes :: "block list \<Rightarrow> nat" where
  "used_bytes bs = sum_list (map (\<lambda>(b, n, f). if f then 0 else n - 8) bs)"

text \<open>
  A heap of words \<open>Q\<close> between \<open>hs\<close> and \<open>he\<close>: the blocks \<open>bs\<close> tile it and the list \<open>xs\<close>
  from \<open>fl\<close> links some of the free blocks (all of them between operations).
\<close>

definition heap_wf :: "u64 \<Rightarrow> u64 \<Rightarrow> block list \<Rightarrow> u64 list \<Rightarrow> (u64 \<Rightarrow> u64) \<Rightarrow> u64 \<Rightarrow> bool" where
  "heap_wf hs he bs xs Q fl \<longleftrightarrow> 16 dvd unat hs \<and> 0 < unat hs \<and> tiles Q (unat hs) bs (unat he)
     \<and> dll Q 0 fl xs \<and> distinct xs \<and> set xs \<subseteq> of_nat ` faddrs bs"

lemma heap_block:
  assumes "heap_wf hs he bs xs Q fl" "(b, n, f) \<in> set bs"
  shows "unat (of_nat b :: u64) = b" "16 dvd b" "blk_addr (of_nat b)" "0 < b" "32 \<le> n" "16 dvd n" "b + n \<le> unat he" "b + n < 2 ^ 64"
    "Q (of_nat b) = tag n f"
proof -
  note t = tiles_in[of Q "unat hs" bs "unat he" b n f]
  show "b + n \<le> unat he" using t assms by (auto simp: heap_wf_def)
  then show u: "b + n < 2 ^ 64" using unat_u64_lt[of he] by linarith
  then show ub: "unat (of_nat b :: u64) = b" by (simp add: unsigned_of_nat take_bit_nat_eq_self)
  show "16 dvd b" "0 < b" "32 \<le> n" "16 dvd n" "Q (of_nat b) = tag n f" using t assms by (auto simp: heap_wf_def)
  then show "blk_addr (of_nat b)" by (simp add: ub)
qed

lemma block_apart:
  assumes "heap_wf hs he bs xs Q fl" "(b, n, f) \<in> set bs" "(c, m, g) \<in> set bs"
  shows "(b, n, f) = (c, m, g) \<or> b + n \<le> c \<or> c + m \<le> b"
  using assms tiles_apart unfolding heap_wf_def by blast

lemma word_off:
  assumes "b + k < 2 ^ 64"
  shows "unat (of_nat b + of_nat k :: u64) = b + k"
  using assms by (simp flip: of_nat_add add: unsigned_of_nat take_bit_nat_eq_self)

lemma hdr_sep:
  assumes "heap_wf hs he bs xs Q fl" "(b, n, f) \<in> set bs" "(c, m, g) \<in> set bs"
  shows "of_nat b \<noteq> (of_nat c + 8 :: u64)" "of_nat b \<noteq> (of_nat c + 16 :: u64)"
proof -
  note hb = heap_block[OF assms(1,2)] and hc = heap_block[OF assms(1,3)]
  have u: "unat (of_nat c + 8 :: u64) = c + 8" "unat (of_nat c + 16 :: u64) = c + 16"
    using word_off[of c 8] word_off[of c 16] hc by simp_all
  have "b \<noteq> c + 8"
  proof
    assume "b = c + 8"
    then have "16 dvd (c + 8) - c" using hb hc dvd_diff_nat[of 16 b c] by simp
    then show False by simp
  qed
  moreover have "b \<noteq> c + 16" using block_apart[OF assms] hb hc by auto
  ultimately show "of_nat b \<noteq> (of_nat c + 8 :: u64)" "of_nat b \<noteq> (of_nat c + 16 :: u64)"
    using hb(1) u by metis+
qed

lemma heap_free_in:
  assumes "heap_wf hs he bs xs Q fl" "x \<in> set xs"
  obtains b n where "x = of_nat b" "(b, n, True) \<in> set bs"
  using assms by (auto simp: heap_wf_def faddrs_def)

lemma heap_links_sep:
  assumes "heap_wf hs he bs xs Q fl" "X \<subseteq> of_nat ` faddrs bs"
  shows "link_sep X"
proof (rule link_sep_blk)
  fix x assume "x \<in> X"
  then obtain b n where "x = of_nat b" "(b, n, True) \<in> set bs" using assms(2) by (auto simp: faddrs_def)
  then show "blk_addr x" using heap_block[OF assms(1)] by blast
qed

text \<open>Rewriting words other than headers keeps the tiling; links are checked by \<open>dll\<close>.\<close>

lemma tiles_links:
  assumes H: "heap_wf hs he bs xs Q fl"
    and o: "\<And>a. Q' a \<noteq> Q a \<Longrightarrow> \<exists>y \<in> of_nat ` faddrs bs. a = y + 8 \<or> a = y + 16"
  shows "tiles Q' (unat hs) bs (unat he)"
proof -
  have "Q' (of_nat b) = Q (of_nat b)" if "(b, n, f) \<in> set bs" for b n f
  proof (rule ccontr)
    assume "Q' (of_nat b) \<noteq> Q (of_nat b)"
    from o[OF this] obtain c m where c: "(c, m, True) \<in> set bs" "of_nat b = (of_nat c + 8 :: u64) \<or> of_nat b = (of_nat c + 16 :: u64)"
      by (auto simp: faddrs_def)
    show False using hdr_sep[OF H that c(1)] c(2) by blast
  qed
  then have "tiles Q' (unat hs) bs (unat he) = tiles Q (unat hs) bs (unat he)" by (intro tiles_frame) auto
  then show ?thesis using H by (simp add: heap_wf_def)
qed

lemma heap_wf_remove:
  assumes H: "heap_wf hs he bs xs Q fl" and x: "x \<in> set xs"
  shows "heap_wf hs he bs (remove1 x xs) (unlinked 0 (Q (x + 16)) (Q (x + 8)) Q) (if Q (x + 16) = 0 then Q (x + 8) else fl)"
    and "Q (x + 16) = 0 \<or> Q (x + 16) \<in> set xs" "Q (x + 8) = 0 \<or> Q (x + 8) \<in> set xs" "Q (x + 16) \<noteq> x"
proof -
  obtain us vs where xs: "xs = us @ x # vs" "x \<notin> set us" using split_list_first[OF x] by blast
  have d: "dll Q 0 fl xs" "distinct xs" "set xs \<subseteq> of_nat ` faddrs bs" using H by (auto simp: heap_wf_def)
  have z: "0 \<notin> set xs" by (rule dll_head(2)[OF d(1)])
  note r = dll_remove[of Q 0 fl us x vs]
  have R: "Q (x + 16) = last (0 # us) \<and> Q (x + 8) = (case vs of [] \<Rightarrow> 0 | v # _ \<Rightarrow> v)
    \<and> dll (unlinked 0 (Q (x + 16)) (Q (x + 8)) Q) 0 (if us = [] then Q (x + 8) else fl) (us @ vs)"
    by (rule r) (use d z xs heap_links_sep[OF H d(3)] in auto)
  show u: "Q (x + 16) = 0 \<or> Q (x + 16) \<in> set xs" using R xs by (cases "us = []") auto
  show v: "Q (x + 8) = 0 \<or> Q (x + 8) \<in> set xs" using R xs by (cases vs) auto
  show "Q (x + 16) \<noteq> x" using R xs z by (cases "us = []") auto
  have e: "(Q (x + 16) = 0) = (us = [])"
  proof (cases "us = []")
    case False
    then have "last us \<noteq> 0" using z xs last_in_set[OF False] by (metis Un_iff set_append)
    then show ?thesis using R False by simp
  qed (use R in simp)
  have "tiles (unlinked 0 (Q (x + 16)) (Q (x + 8)) Q) (unat hs) bs (unat he)"
    by (rule tiles_links[OF H]) (use u v d(3) in \<open>auto simp: unlinked_def Let_def split: if_splits\<close>)
  moreover have "remove1 x xs = us @ vs" using xs by (simp add: remove1_append)
  ultimately show "heap_wf hs he bs (remove1 x xs) (unlinked 0 (Q (x + 16)) (Q (x + 8)) Q) (if Q (x + 16) = 0 then Q (x + 8) else fl)"
    using H R d xs unfolding e by (auto simp: heap_wf_def)
qed

definition linked :: "u64 \<Rightarrow> u64 \<Rightarrow> (u64 \<Rightarrow> u64) \<Rightarrow> u64 \<Rightarrow> u64" where
  "linked b c Q = (let Q1 = Q(b + 8 := c, b + 16 := 0) in if c \<noteq> 0 then Q1(c + 16 := b) else Q1)"

lemma heap_wf_insert:
  assumes H: "heap_wf hs he bs xs Q fl" and b: "(b, n, True) \<in> set bs" "of_nat b \<notin> set xs"
  shows "heap_wf hs he bs (of_nat b # xs) (linked (of_nat b) fl Q) (of_nat b)"
proof -
  have d: "dll Q 0 fl xs" "distinct xs" "set xs \<subseteq> of_nat ` faddrs bs" using H by (auto simp: heap_wf_def)
  have bf: "of_nat b \<in> (of_nat ` faddrs bs :: u64 set)" using b by (auto simp: faddrs_def)
  have nz: "(of_nat b :: u64) \<noteq> 0" using heap_block(1,4)[OF H b(1)] by force
  have fl: "fl = 0 \<or> fl \<in> set xs" using dll_head(1)[OF d(1)] by (cases xs) auto
  have "dll (linked (of_nat b) fl Q) 0 (of_nat b) (of_nat b # xs)" unfolding linked_def
    by (rule dll_insert[OF d(1) b(2) nz _ d(2)]) (rule heap_links_sep[OF H], use d(3) bf in auto)
  moreover have "tiles (linked (of_nat b) fl Q) (unat hs) bs (unat he)"
    by (rule tiles_links[OF H]) (use fl d(3) bf in \<open>auto simp: linked_def Let_def split: if_splits\<close>)
  ultimately show ?thesis using H d b(2) bf by (auto simp: heap_wf_def)
qed

text \<open>Replacing a run of blocks by another one over the same bytes.\<close>

lemma heap_wf_replace:
  assumes H: "heap_wf hs he (us @ ms @ vs) xs Q fl"
    and T: "\<And>a e. tiles Q a ms e \<Longrightarrow> tiles Q' a ms' e"
    and F: "\<And>b n f. (b, n, f) \<in> set us \<union> set vs \<Longrightarrow> Q' (of_nat b) = Q (of_nat b)"
    and X: "\<And>x. x \<in> set xs \<Longrightarrow> x \<in> of_nat ` faddrs (us @ ms' @ vs) \<and> Q' (x + 8) = Q (x + 8) \<and> Q' (x + 16) = Q (x + 16)"
  shows "heap_wf hs he (us @ ms' @ vs) xs Q' fl"
proof -
  have "tiles Q' a us e = tiles Q a us e" "tiles Q' a vs e = tiles Q a vs e" for a e
    using F by (auto intro!: tiles_frame)
  then have "tiles Q' (unat hs) (us @ ms' @ vs) (unat he)"
    using H T by (auto simp: heap_wf_def tiles_append) blast
  moreover have "dll Q' 0 fl xs = dll Q 0 fl xs" by (rule dll_frame) (use X in auto)
  ultimately show ?thesis using H X by (auto simp: heap_wf_def)
qed

section \<open>Free-list operations\<close>

lemma store64_byte:
  assumes "unat a + 8 \<le> 2 ^ 64" "\<not> (unat a \<le> unat x \<and> unat x < unat a + 8)"
  shows "store64 m a v x = m x"
  unfolding store64_def
proof (rule store_le_other)
  fix i :: nat assume "i < 8"
  then have "unat (a + of_nat i) = unat a + i" using assms(1) by (intro unat_plus_offset) auto
  then show "x \<noteq> a + of_nat i" using assms(2) \<open>i < 8\<close> by auto
qed

definition body :: "u64 \<Rightarrow> u64 set" where
  "body y = {x. unat y \<le> unat x \<and> unat x < unat y + 24}"

lemma field_bytes:
  assumes "unat b + 24 \<le> 2 ^ 64" "x \<notin> body b"
  shows "hmem (set_fb_next b v s) x = hmem s x" "hmem (set_fb_prev b v s) x = hmem s x" "hmem (set_hdr b v s) x = hmem s x"
proof -
  have u: "unat (b + 8) = unat b + 8" "unat (b + 16) = unat b + 16"
    using unat_plus_offset[of b 8] unat_plus_offset[of b 16] assms(1) by simp_all
  show "hmem (set_fb_next b v s) x = hmem s x" "hmem (set_fb_prev b v s) x = hmem s x" "hmem (set_hdr b v s) x = hmem s x"
    using assms by (auto simp: set_fb_next_def set_fb_prev_def set_hdr_def body_def u intro!: store64_byte)
qed

lemma free_list_frames [simp]:
  "heap_start (free_list_remove b s) = heap_start s" "heap_end (free_list_remove b s) = heap_end s"
  "total_free (free_list_remove b s) = total_free s" "total_allocated (free_list_remove b s) = total_allocated s"
  "heap_start (free_list_insert b s) = heap_start s" "heap_end (free_list_insert b s) = heap_end s"
  "total_free (free_list_insert b s) = total_free s" "total_allocated (free_list_insert b s) = total_allocated s"
  by (simp_all add: free_list_remove_def free_list_insert_def Let_def)

lemma free_list_remove_effect:
  assumes "blk_addr b" "qw s (b + 16) = u" "qw s (b + 8) = v" "blk_addr u" "blk_addr v" "u \<noteq> b"
  shows "qw (free_list_remove b s) = unlinked 0 u v (qw s)"
    "free_list (free_list_remove b s) = (if u = 0 then v else free_list s)"
proof -
  have ls: "u + 8 \<noteq> b + 16" using link_sep_blk[of "{u, b}"] assms by (auto simp: link_sep_def)
  have r: "fb_prev s b = u" "fb_next s b = v" using assms by (simp_all add: field_reads)
  have "fb_next (if u \<noteq> 0 then set_fb_next u v s else s\<lparr>free_list := v\<rparr>) b = v"
    "fb_prev (if u \<noteq> 0 then set_fb_next u v s else s\<lparr>free_list := v\<rparr>) b = u"
    using assms ls by (auto simp: field_reads field_writes)
  then show "qw (free_list_remove b s) = unlinked 0 u v (qw s)"
    "free_list (free_list_remove b s) = (if u = 0 then v else free_list s)"
    using assms unfolding free_list_remove_def r by (auto simp: Let_def unlinked_def field_writes)
qed

lemma free_list_insert_effect:
  assumes "blk_addr b" "blk_addr (free_list s)"
  shows "qw (free_list_insert b s) = linked b (free_list s) (qw s)"
    "free_list (free_list_insert b s) = b"
  using assms by (auto simp: free_list_insert_def Let_def field_writes linked_def)

lemma free_list_remove_bytes:
  assumes "x \<notin> body (fb_prev s b)" "x \<notin> body (fb_next s b)" "unat (fb_prev s b) + 24 \<le> 2 ^ 64" "unat (fb_next s b) + 24 \<le> 2 ^ 64"
    and "blk_addr b" "blk_addr (fb_prev s b)" "fb_prev s b \<noteq> b"
  shows "hmem (free_list_remove b s) x = hmem s x"
proof -
  let ?u = "fb_prev s b" and ?v = "fb_next s b"
  have ls: "?u + 8 \<noteq> b + 16" using link_sep_blk[of "{?u, b}"] assms by (auto simp: link_sep_def)
  let ?s = "if ?u \<noteq> 0 then set_fb_next ?u ?v s else s\<lparr>free_list := ?v\<rparr>"
  have n: "fb_next ?s b = ?v" "fb_prev ?s b = ?u" using assms ls by (auto simp: field_reads field_writes)
  show ?thesis unfolding free_list_remove_def Let_def n using assms by (simp add: field_bytes)
qed

lemma free_list_insert_bytes:
  assumes "x \<notin> body b" "x \<notin> body (free_list s)" "unat b + 24 \<le> 2 ^ 64" "unat (free_list s) + 24 \<le> 2 ^ 64"
  shows "hmem (free_list_insert b s) x = hmem s x"
  using assms by (simp add: free_list_insert_def Let_def field_bytes)

end
