(* ===== verification/Heap_Blocks.thy ===== *)
theory Heap_Blocks
  imports Heap_List
begin

text \<open>
  The allocator against the sequence of blocks: \<open>heap_inv bs s\<close> says that the blocks \<open>bs\<close> tile the
  heap, that the free list links exactly the free ones and that \<^verbatim>\<open>total_allocated\<close> counts
  the others. \<open>kfree_spec\<close>, \<open>heap_expand_spec\<close> and \<open>kmalloc_spec\<close> say what the operations do to
  \<open>bs\<close>, to the bytes of the live blocks and to the counters.
\<close>

section \<open>The heap invariant\<close>

abbreviation heap_lists :: "block list \<Rightarrow> u64 list \<Rightarrow> 'a heap_state_scheme \<Rightarrow> bool" where
  "heap_lists bs xs s \<equiv> heap_wf (heap_start s) (heap_end s) bs xs (qw s) (free_list s)"

definition heap_inv :: "block list \<Rightarrow> 'a heap_state_scheme \<Rightarrow> bool" where
  "heap_inv bs s \<longleftrightarrow> (\<exists>xs. heap_lists bs xs s \<and> set xs = of_nat ` faddrs bs) \<and> total_allocated s = of_nat (used_bytes bs)"

definition keeps :: "u64 set \<Rightarrow> 'a heap_state_scheme \<Rightarrow> 'a heap_state_scheme \<Rightarrow> bool" where
  "keeps X s s' \<longleftrightarrow> (\<forall>x \<in> X. hmem s' x = hmem s x)"

lemma keeps_trans: "keeps X s s' \<Longrightarrow> keeps X s' s'' \<Longrightarrow> keeps X s s''"
  by (simp add: keeps_def)

lemma keeps_mono: "keeps X s s' \<Longrightarrow> Y \<subseteq> X \<Longrightarrow> keeps Y s s'"
  by (auto simp: keeps_def)

lemma hdr_fields:
  assumes "heap_lists bs xs s" "(b, n, f) \<in> set bs"
  shows "hdr s (of_nat b) = tag n f" "block_size s (of_nat b) = of_nat n" "block_is_free s (of_nat b) = f"
proof -
  note h = heap_block[OF assms]
  show "hdr s (of_nat b) = tag n f" using h by (simp add: field_reads)
  then show "block_size s (of_nat b) = of_nat n" "block_is_free s (of_nat b) = f"
    using h(6) by (simp_all add: block_size_def block_is_free_def tag_bits)
qed

lemma live_not_body:
  assumes "heap_lists bs xs s" "(b, n, True) \<in> set bs" "x \<in> live_data bs"
  shows "x \<notin> body (of_nat b)"
proof -
  obtain c m where c: "(c, m, False) \<in> set bs" "c + 8 \<le> unat x" "unat x < c + m" using assms(3) by (auto simp: live_data_def)
  have "b + n \<le> c \<or> c + m \<le> b" using block_apart[OF assms(1,2) c(1)] by auto
  then show ?thesis using heap_block[OF assms(1,2)] c by (auto simp: body_def)
qed

lemma live_not_null:
  assumes "heap_lists bs xs s" "x \<in> live_data bs"
  shows "x \<notin> body 0"
proof -
  obtain c m where c: "(c, m, False) \<in> set bs" "c + 8 \<le> unat x" using assms(2) by (auto simp: live_data_def)
  have "16 \<le> c" using heap_block(2,4)[OF assms(1) c(1)] by (auto dest: dvd_imp_le)
  then show ?thesis using c(2) by (auto simp: body_def)
qed

lemma free_node:
  assumes H: "heap_lists bs xs s" and y: "y = 0 \<or> y \<in> set xs"
  shows "blk_addr y" "unat y + 24 \<le> 2 ^ 64" "x \<in> live_data bs \<Longrightarrow> x \<notin> body y"
proof -
  have "blk_addr y \<and> unat y + 24 \<le> 2 ^ 64 \<and> (x \<in> live_data bs \<longrightarrow> x \<notin> body y)"
  proof (cases "y = 0")
    case True
    then show ?thesis using live_not_null[OF H] by simp
  next
    case False
    then obtain b n where b: "y = of_nat b" "(b, n, True) \<in> set bs" using y heap_free_in[OF H] by blast
    note h = heap_block[OF H b(2)]
    have "b + 24 \<le> 2 ^ 64" using h(5,8) by linarith
    then show ?thesis using h(1,3) live_not_body[OF H b(2)] b(1) by simp
  qed
  then show "blk_addr y" "unat y + 24 \<le> 2 ^ 64" "x \<in> live_data bs \<Longrightarrow> x \<notin> body y" by blast+
qed

lemma heap_lists_head: "heap_lists bs xs s \<Longrightarrow> free_list s = 0 \<or> free_list s \<in> set xs"
  using dll_head(1)[of "qw s" 0 "free_list s" xs] by (cases xs) (auto simp: heap_wf_def)

lemma remove_spec:
  assumes H: "heap_lists bs xs s" and x: "x \<in> set xs"
  shows "heap_lists bs (remove1 x xs) (free_list_remove x s)" "keeps (live_data bs) s (free_list_remove x s)"
proof -
  note r = heap_wf_remove[OF H x]
  have bx: "blk_addr x" using free_node(1)[OF H, of x] x by simp
  note n = free_node[OF H r(2)] free_node[OF H r(3)]
  note e = free_list_remove_effect[OF bx refl refl n(1) n(4) r(4)]
  show "heap_lists bs (remove1 x xs) (free_list_remove x s)" using r(1) by (simp add: e)
  show "keeps (live_data bs) s (free_list_remove x s)" unfolding keeps_def
    by (intro ballI free_list_remove_bytes) (use n r(4) bx in \<open>simp_all add: field_reads[OF bx]\<close>)
qed

lemma insert_spec:
  assumes H: "heap_lists bs xs s" and b: "(b, n, True) \<in> set bs" "of_nat b \<notin> set xs"
  shows "heap_lists bs (of_nat b # xs) (free_list_insert (of_nat b) s)" "keeps (live_data bs) s (free_list_insert (of_nat b) s)"
proof -
  note f = free_node[OF H heap_lists_head[OF H]] and hb = heap_block[OF H b(1)]
  note e = free_list_insert_effect[OF hb(3) f(1)]
  show "heap_lists bs (of_nat b # xs) (free_list_insert (of_nat b) s)"
    using heap_wf_insert[OF H b] by (simp add: e)
  show "keeps (live_data bs) s (free_list_insert (of_nat b) s)" unfolding keeps_def
    by (intro ballI free_list_insert_bytes) (use f hb live_not_body[OF H b(1)] in auto)
qed

section \<open>Search\<close>

lemma find_fit_spec:
  assumes "dll (qw s) p c xs" "\<forall>x \<in> set xs. blk_addr x"
  shows "find_fit t c s = Some (case find (\<lambda>x. t \<le> block_size s x) xs of None \<Rightarrow> 0 | Some x \<Rightarrow> x)"
  using assms
proof (induction xs arbitrary: p c)
  case Nil
  then show ?case by (subst find_fit.simps) simp
next
  case (Cons x xs)
  have "fb_next s x = qw s (x + 8)" using Cons.prems by (simp add: field_reads)
  then show ?case using Cons by (subst find_fit.simps) auto
qed

lemma unat_and_not_mask:
  fixes a :: u64
  shows "unat (a AND NOT (mask k)) = unat a - unat a mod 2 ^ k"
proof -
  let ?off = "a AND mask k"
  have o: "unat ?off = unat a mod 2 ^ k"
    by (simp add: take_bit_eq_mask[symmetric] unsigned_take_bit_eq take_bit_nat_def)
  have "(a AND NOT (mask k)) + ?off = (a AND NOT (mask k)) OR ?off"
    by (rule disjunctive_add) (auto simp: bit_simps)
  also have "\<dots> = a" by (simp only: bit.conj_disj_distrib[symmetric]) simp
  finally have "a AND NOT (mask k) = a - ?off" by (simp add: eq_diff_eq)
  moreover have "?off \<le> a" by (simp add: word_le_nat_alt o)
  ultimately show ?thesis by (simp add: unat_sub o)
qed

lemma kmalloc_size_spec:
  assumes "9 \<le> unat sz" "unat sz + 23 < 2 ^ 64"
  shows "16 dvd unat (kmalloc_size sz)" "unat sz + 8 \<le> unat (kmalloc_size sz)" "unat (kmalloc_size sz) < unat sz + 24"
    "32 \<le> unat (kmalloc_size sz)"
proof -
  let ?w = "sz + of_nat 23"
  have u: "unat ?w = unat sz + 23" by (rule unat_plus_offset[OF assms(2)])
  have a: "align_up (HEADER_SIZE + sz) = ?w AND NOT (mask 4)"
    by (simp add: align_up_def HEADER_SIZE_def mask_eq_exp_minus_1 algebra_simps)
  let ?t = "?w AND NOT (mask 4)"
  have t: "unat ?t = (unat sz + 23) - (unat sz + 23) mod 16" unfolding unat_and_not_mask u by simp
  have m: "(unat sz + 23) mod 16 < 16" by simp
  have d: "16 dvd unat ?t" unfolding t by (rule dvd_minus_mod)
  have b: "unat sz + 8 \<le> unat ?t" "unat ?t < unat sz + 24" using t m by linarith+
  have "32 \<le> unat ?t" using d b(1) assms(1) by (auto elim!: dvdE)
  moreover from this have "kmalloc_size sz = ?t"
    unfolding kmalloc_size_def a by (simp add: Let_def FREE_BLOCK_SIZE_def word_less_nat_alt)
  ultimately show "16 dvd unat (kmalloc_size sz)" "unat sz + 8 \<le> unat (kmalloc_size sz)" "unat (kmalloc_size sz) < unat sz + 24"
    "32 \<le> unat (kmalloc_size sz)" using b d by metis+
qed

section \<open>Taking a block\<close>

lemma block_words_apart:
  assumes H: "heap_wf hs he bs xs Q fl" and m: "(b, n, f) \<in> set bs" "(c, m, g) \<in> set bs" "b \<noteq> c" and ij: "i < n" "j < m"
  shows "of_nat b + of_nat i \<noteq> (of_nat c + of_nat j :: u64)"
proof -
  have "b + n \<le> c \<or> c + m \<le> b" using block_apart[OF H m(1,2)] m(3) by auto
  moreover have "unat (of_nat b + of_nat i :: u64) = b + i" "unat (of_nat c + of_nat j :: u64) = c + j"
    using heap_block[OF H m(1)] heap_block[OF H m(2)] ij by (auto intro!: word_off)
  ultimately show ?thesis using ij by (metis add.commute add_le_mono1 leD le_add2 le_trans nat_add_left_cancel_less)
qed

lemma live_not_inner:
  assumes "heap_lists bs xs s" "(b, n, True) \<in> set bs" "j + 24 \<le> n" "x \<in> live_data bs"
  shows "x \<notin> body (of_nat (b + j))"
proof -
  obtain c m where c: "(c, m, False) \<in> set bs" "c + 8 \<le> unat x" "unat x < c + m" using assms(4) by (auto simp: live_data_def)
  have a: "b + n \<le> c \<or> c + m \<le> b" using block_apart[OF assms(1,2) c(1)] by auto
  have "unat (of_nat (b + j) :: u64) = b + j"
    using word_off[of b j] heap_block(8)[OF assms(1,2)] assms(3) by simp
  then show ?thesis using a c assms(3) by (auto simp: body_def)
qed

lemma linked_upd:
  "a \<noteq> b + 8 \<Longrightarrow> a \<noteq> b + 16 \<Longrightarrow> (c \<noteq> 0 \<longrightarrow> a \<noteq> c + 16) \<Longrightarrow> (linked b c Q)(a := v) = linked b c (Q(a := v))"
  by (auto simp: linked_def Let_def fun_upd_twist)

lemma state_fields [simp]:
  "hdr (s\<lparr>total_free := x\<rparr>) b = hdr s b" "hdr (s\<lparr>total_allocated := x\<rparr>) b = hdr s b"
  by (simp_all add: hdr_def)

definition carve :: "nat \<Rightarrow> nat \<Rightarrow> nat \<Rightarrow> block list" where
  "carve b n t = (if 40 \<le> n - t then [(b, t, False), (b + t, n - t, True)] else [(b, n, False)])"

definition carved :: "nat \<Rightarrow> nat \<Rightarrow> nat" where
  "carved n t = (if 40 \<le> n - t then t else n)"

lemma split_wf:
  assumes H: "heap_wf hs he (us @ (b, n, True) # vs) xs Q fl" and x: "of_nat b \<notin> set xs"
    and t: "16 dvd t" "32 \<le> t" "40 \<le> n - t"
  shows "heap_wf hs he (us @ [(b, t, False), (b + t, n - t, True)] @ vs) (of_nat (b + t) # xs)
    ((linked (of_nat (b + t)) fl (Q(of_nat (b + t) := tag (n - t) True)))(of_nat b := tag t False)) (of_nat (b + t))"
proof -
  let ?bs = "us @ (b, n, True) # vs" and ?bs' = "us @ [(b, t, False), (b + t, n - t, True)] @ vs"
  let ?nf = "of_nat (b + t) :: u64" and ?cur = "of_nat b :: u64"
  let ?Q = "Q(?nf := tag (n - t) True, ?cur := tag t False)"
  have m: "(b, n, True) \<in> set ?bs" by simp
  note h = heap_block[OF H m]
  have tn: "t < n" using t by simp
  have nf: "?nf = ?cur + of_nat t" by simp
  have other: "?cur + of_nat j \<noteq> of_nat c + of_nat i" if "(c, k, f) \<in> set us \<union> set vs" "i < k" "j < n" for c k f i j
  proof (rule block_words_apart[OF H m _ _ that(3,2)])
    show "(c, k, f) \<in> set ?bs" using that by auto
    show "b \<noteq> c" using tiles_around[of Q "unat hs" us b n True vs "unat he" c k f] H that(1) h(5) heap_block(5)[OF H, of c k f]
      by (auto simp: heap_wf_def)
  qed
  have node: "\<exists>c k. y = of_nat c \<and> (c, k, True) \<in> set us \<union> set vs \<and> 32 \<le> k" if y: "y \<in> set xs" for y
  proof -
    obtain c k where c: "y = of_nat c" "(c, k, True) \<in> set ?bs" using heap_free_in[OF H y] by blast
    then have "(c, k, True) \<in> set us \<union> set vs" using x y by auto
    then show ?thesis using c heap_block(5)[OF H c(2)] by blast
  qed
  have unf: "unat ?nf = b + t" using word_off[of b t] h(8) tn by simp
  have ne: "?nf \<noteq> ?cur" using unf h(1) t(2) by (metis add_eq_self_zero not_numeral_le_zero)
  have W: "heap_wf hs he ?bs' xs ?Q fl"
  proof (rule heap_wf_replace[where ms = "[(b, n, True)]"])
    show "heap_wf hs he (us @ [(b, n, True)] @ vs) xs Q fl" using H by simp
    show "tiles ?Q a [(b, t, False), (b + t, n - t, True)] e" if "tiles Q a [(b, n, True)] e" for a e
      using that t ne by (auto simp: dvd_diff_nat)
    show "?Q (of_nat c) = Q (of_nat c)" if "(c, k, f) \<in> set us \<union> set vs" for c k f
      using other[OF that, of 0 0] other[OF that, of 0 t] heap_block(5)[OF H, of c k f] that tn h(5) by auto
    show "y \<in> of_nat ` faddrs ?bs' \<and> ?Q (y + 8) = Q (y + 8) \<and> ?Q (y + 16) = Q (y + 16)" if yx: "y \<in> set xs" for y
    proof -
      obtain c k where c: "y = of_nat c" "(c, k, True) \<in> set us \<union> set vs" "32 \<le> k" using node[OF yx] by blast
      show ?thesis using other[OF c(2), of 8 0] other[OF c(2), of 8 t] other[OF c(2), of 16 0] other[OF c(2), of 16 t] c tn h(5)
        by (auto simp: faddrs_def)
    qed
  qed
  have nin: "?nf \<notin> set xs"
  proof
    assume "?nf \<in> set xs"
    then obtain c k where c: "?nf = of_nat c" "(c, k, True) \<in> set us \<union> set vs" "32 \<le> k" using node by blast
    then show False using other[OF c(2), of 0 t] tn by auto
  qed
  have fl: "fl = 0 \<or> fl \<in> set xs" using dll_head(1)[of Q 0 fl xs] H by (cases xs) (auto simp: heap_wf_def)
  have f16: "fl \<noteq> 0 \<longrightarrow> ?cur \<noteq> fl + 16"
  proof
    assume "fl \<noteq> 0"
    then obtain c k where "fl = of_nat c" "(c, k, True) \<in> set us \<union> set vs" "32 \<le> k" using fl node by blast
    then show "?cur \<noteq> fl + 16" using other[of c k True 16 0] h(5) by auto
  qed
  have "?cur \<noteq> ?nf + 8" "?cur \<noteq> ?nf + 16"
    using hdr_sep[OF W, of b t False "b + t" "n - t" True] by simp_all
  then have "(linked ?nf fl (Q(?nf := tag (n - t) True)))(?cur := tag t False) = linked ?nf fl ?Q"
    using f16 by (intro linked_upd) auto
  then show ?thesis using heap_wf_insert[OF W _ nin, of "n - t"] by simp
qed

lemma retag_wf:
  assumes H: "heap_wf hs he (us @ (b, n, f) # ms @ vs) xs Q fl"
    and T: "\<And>a e. tiles Q a ((b, n, f) # ms) e \<Longrightarrow> tiles (Q(of_nat b := v)) a ms' e"
    and X: "set xs \<subseteq> of_nat ` faddrs (us @ vs)"
  shows "heap_wf hs he (us @ ms' @ vs) xs (Q(of_nat b := v)) fl"
proof (rule heap_wf_replace[where ms = "(b, n, f) # ms"])
  let ?bs = "us @ (b, n, f) # ms @ vs"
  note h = heap_block[OF H]
  show "heap_wf hs he (us @ ((b, n, f) # ms) @ vs) xs Q fl" using H by simp
  show "tiles (Q(of_nat b := v)) a ms' e" if "tiles Q a ((b, n, f) # ms) e" for a e by (rule T[OF that])
  show "(Q(of_nat b := v)) (of_nat c) = Q (of_nat c)" if c: "(c, k, g) \<in> set us \<union> set vs" for c k g
  proof -
    have "c \<noteq> b" using tiles_around[of Q "unat hs" us b n f "ms @ vs" "unat he" c k g] H c h(5)[of b n f] h(5)[of c k g]
      by (auto simp: heap_wf_def)
    then have "(of_nat c :: u64) \<noteq> of_nat b" using h(1)[of b n f] h(1)[of c k g] c by (metis UnCI Un_iff in_set_conv_decomp set_append set_ConsD list.set_intros(1) list.set_intros(2))
    then show ?thesis by simp
  qed
  show "x \<in> of_nat ` faddrs (us @ ms' @ vs) \<and> (Q(of_nat b := v)) (x + 8) = Q (x + 8) \<and> (Q(of_nat b := v)) (x + 16) = Q (x + 16)"
    if x: "x \<in> set xs" for x
  proof -
    obtain c k where c: "x = of_nat c" "(c, k, True) \<in> set us \<union> set vs" using subsetD[OF X x] by (auto simp: faddrs_def)
    then have "of_nat b \<noteq> (of_nat c + 8 :: u64)" "of_nat b \<noteq> (of_nat c + 16 :: u64)"
      using hdr_sep[OF H, of b n f c k True] by auto
    then show ?thesis using c by (force simp: faddrs_def)
  qed
qed

lemma block_addr_fresh:
  assumes H: "heap_wf hs he (us @ (b, n, f) # vs) xs Q fl"
  shows "b \<notin> faddrs (us @ vs)"
proof
  assume "b \<in> faddrs (us @ vs)"
  then obtain k where k: "(b, k, True) \<in> set us \<union> set vs" by (auto simp: faddrs_def)
  then show False using tiles_around[of Q "unat hs" us b n f vs "unat he" b k True] H
      heap_block(5)[OF H, of b n f] heap_block(5)[OF H, of b k True] by (auto simp: heap_wf_def)
qed

lemma of_nat_faddrs_diff:
  assumes H: "heap_wf hs he (us @ (b, n, f) # vs) xs Q fl" "set xs \<subseteq> of_nat ` faddrs (us @ (b, n, f) # vs)" "of_nat b \<notin> set xs"
  shows "set xs \<subseteq> of_nat ` faddrs (us @ vs)"
proof
  fix x assume x: "x \<in> set xs"
  obtain c k where "x = of_nat c" "(c, k, True) \<in> set (us @ (b, n, f) # vs)"
    using subsetD[OF assms(2) x] by (auto simp: faddrs_def)
  then show "x \<in> of_nat ` faddrs (us @ vs)" using assms(3) x by (auto simp: faddrs_def)
qed

lemma take_spec:
  assumes H: "heap_lists (us @ (b, n, True) # vs) xs s" and x: "of_nat b \<notin> set xs"
    and t: "16 dvd t" "32 \<le> t" "t \<le> n"
    and e: "kmalloc_take (of_nat t) (of_nat b) (of_nat n) s = (p, s')"
  shows "p = of_nat b + 8"
    "heap_lists (us @ carve b n t @ vs) (if 40 \<le> n - t then of_nat (b + t) # xs else xs) s'"
    "keeps (live_data (us @ (b, n, True) # vs)) s s'"
    "total_allocated s' = total_allocated s + of_nat (carved n t - 8)"
    "total_free s' = total_free s - of_nat (carved n t - 8)"
    "heap_start s' = heap_start s" "heap_end s' = heap_end s"
proof -
  let ?bs = "us @ (b, n, True) # vs"
  have m: "(b, n, True) \<in> set ?bs" by simp
  note h = heap_block[OF H m] and hf = hdr_fields[OF H m]
  have X: "set xs \<subseteq> of_nat ` faddrs (us @ vs)"
    using of_nat_faddrs_diff[OF H _ x] H by (simp add: heap_wf_def)
  have rem: "(of_nat n :: u64) - of_nat t = of_nat (n - t)" using t(3) by (simp add: of_nat_diff)
  have rc: "FREE_BLOCK_SIZE + MIN_ALLOC_SIZE \<le> (of_nat (n - t) :: u64) \<longleftrightarrow> 40 \<le> n - t"
    using h(8) by (simp add: FREE_BLOCK_SIZE_def MIN_ALLOC_SIZE_def word_le_nat_alt unsigned_of_nat take_bit_nat_eq_self del: of_nat_diff)
  have b8: "(of_nat k :: u64) - HEADER_SIZE = of_nat (k - 8)" if "32 \<le> k" for k
    using that by (simp add: HEADER_SIZE_def of_nat_diff)
  show "p = of_nat b + 8" using e by (auto simp: kmalloc_take_def Let_def block_data_def HEADER_SIZE_def split: if_splits)
  note f = free_node[OF H heap_lists_head[OF H]]
  have "heap_lists (us @ carve b n t @ vs) (if 40 \<le> n - t then of_nat (b + t) # xs else xs) s'
    \<and> keeps (live_data ?bs) s s'
    \<and> total_allocated s' = total_allocated s + of_nat (carved n t - 8)
    \<and> total_free s' = total_free s - of_nat (carved n t - 8)
    \<and> heap_start s' = heap_start s \<and> heap_end s' = heap_end s"
  proof (cases "40 \<le> n - t")
    case False
    let ?s = "s\<lparr>total_free := total_free s - of_nat (n - 8)\<rparr>"
    have s': "s' = (set_hdr (of_nat b) (tag n False) ?s)\<lparr>total_allocated := total_allocated s + of_nat (n - 8)\<rparr>"
      using e False by (simp add: kmalloc_take_def Let_def rem rc b8[OF h(5)] block_set_used_def hf(1) tag_bits(4)[OF h(6)])
    have "heap_wf (heap_start s) (heap_end s) (us @ [(b, n, False)] @ vs) xs ((qw s)(of_nat b := tag n False)) (free_list s)"
      by (rule retag_wf[where ms = "[]", OF _ _ X]) (use H in auto)
    moreover have "keeps (live_data ?bs) s s'"
      unfolding keeps_def using live_not_body[OF H m] h by (simp add: s' field_bytes)
    ultimately show ?thesis using False h(3) by (simp add: s' field_writes carve_def carved_def)
  next
    case True
    let ?nf = "of_nat (b + t) :: u64"
    have unf: "unat ?nf = b + t" using word_off[of b t] h(8) True by simp
    have bn: "blk_addr ?nf" unfolding unf using t(1) h(2) by simp
    let ?a = "set_hdr ?nf (tag (n - t) True) s"
    let ?b = "free_list_insert ?nf ?a"
    have d: "16 dvd n - t" using t(1) h(6) by (simp add: dvd_diff_nat)
    note ei = free_list_insert_effect[OF bn, of ?a]
    have fa: "blk_addr (free_list ?a)" using f(1) by simp
    have tt: "(of_nat t :: u64) AND NOT BLOCK_FREE = of_nat t" "tag t False = of_nat t"
      using tag_bits(4,6)[OF t(1)] by simp_all
    have s': "s' = (set_hdr (of_nat b) (of_nat t) ((set_hdr (of_nat b) (of_nat t) ?b)\<lparr>total_free := total_free s - of_nat (t - 8)\<rparr>))
        \<lparr>total_allocated := total_allocated s + of_nat (t - 8)\<rparr>"
      using e[symmetric] True unfolding kmalloc_take_def rem Let_def rc b8[OF t(2)] block_set_used_def of_nat_add[symmetric]
      by (simp add: tag_bits(5)[OF d] field_reads[OF h(3)] field_writes[OF h(3)] tt ei[OF fa] b8[OF t(2)] del: of_nat_diff of_nat_add)
    have "qw s' = (linked ?nf (free_list s) ((qw s)(?nf := tag (n - t) True)))(of_nat b := tag t False)"
      using ei(1)[OF fa] by (simp add: s' field_writes[OF h(3)] field_writes[OF bn] tt del: of_nat_add of_nat_diff)
    moreover have "keeps (live_data ?bs) s s'" unfolding keeps_def
    proof
      fix x assume lx: "x \<in> live_data ?bs"
      have "hmem ?b x = hmem ?a x"
        by (rule free_list_insert_bytes) (use live_not_inner[OF H m _ lx, of t] True f lx h(8) in \<open>simp_all add: unf del: of_nat_add\<close>)
      moreover have "hmem ?a x = hmem s x"
        using live_not_inner[OF H m _ lx, of t] True h(8) by (intro field_bytes) (simp_all add: unf del: of_nat_add)
      ultimately show "hmem s' x = hmem s x" using live_not_body[OF H m lx] h by (simp add: s' field_bytes)
    qed
    ultimately show ?thesis using True split_wf[OF H x t(1,2) True]
      by (simp add: s' ei[OF fa] carve_def carved_def del: of_nat_add of_nat_diff)
  qed
  then show "heap_lists (us @ carve b n t @ vs) (if 40 \<le> n - t then of_nat (b + t) # xs else xs) s'"
    "keeps (live_data ?bs) s s'"
    "total_allocated s' = total_allocated s + of_nat (carved n t - 8)"
    "total_free s' = total_free s - of_nat (carved n t - 8)"
    "heap_start s' = heap_start s" "heap_end s' = heap_end s" by blast+
qed

section \<open>Releasing a block\<close>

lemma fresh_word:
  assumes H: "heap_wf hs he (us @ (b, n, f) # vs) xs Q fl"
  shows "(of_nat b :: u64) \<notin> of_nat ` faddrs (us @ vs)"
proof
  assume "(of_nat b :: u64) \<in> of_nat ` faddrs (us @ vs)"
  then obtain c k where c: "(of_nat b :: u64) = of_nat c" "(c, k, True) \<in> set us \<union> set vs" "c \<in> faddrs (us @ vs)"
    by (auto simp: faddrs_def)
  have "unat (of_nat b :: u64) = b" by (rule heap_block(1)[OF H, of b n f]) simp
  moreover have "unat (of_nat c :: u64) = c" by (rule heap_block(1)[OF H, of c k True]) (use c(2) in auto)
  ultimately have "b = c" using c(1) by metis
  then show False using block_addr_fresh[OF H] c(3) by simp
qed

lemma free_words_without:
  assumes H: "heap_wf hs he (us @ (b, n, True) # vs) xs Q fl"
    and X: "set xs = of_nat ` faddrs (us @ (b, n, True) # vs)"
  shows "set (remove1 (of_nat b) xs) = of_nat ` faddrs (us @ vs)"
proof -
  have "faddrs (us @ (b, n, True) # vs) = insert b (faddrs (us @ vs))" by (auto simp: faddrs_def)
  then show ?thesis using fresh_word[OF H] X H by (auto simp: heap_wf_def)
qed

lemma faddrs_simps:
  "faddrs (us @ (b, n, False) # vs) = faddrs (us @ vs)" "faddrs (us @ (b, n, True) # vs) = insert b (faddrs (us @ vs))"
  by (auto simp: faddrs_def)

lemma used_bytes_simps [simp]:
  "used_bytes [] = 0" "used_bytes ((b, n, f) # bs) = (if f then 0 else n - 8) + used_bytes bs"
  "used_bytes (us @ vs) = used_bytes us + used_bytes vs"
  by (simp_all add: used_bytes_def)

definition merge :: "nat \<Rightarrow> nat \<Rightarrow> block list \<Rightarrow> block list" where
  "merge b n vs = (case vs of (c, m, True) # vs' \<Rightarrow> (b, n + m, True) # vs' | _ \<Rightarrow> (b, n, True) # vs)"

lemma live_data_parts: "live_data (us @ (b, n, True) # vs) = live_data (us @ vs)" "live_data (us @ vs) \<subseteq> live_data (us @ ms @ vs)"
  by (auto simp: live_data_def)

lemma release_tail:
  assumes H: "heap_lists (us @ (b, n, False) # ms @ vs) xs s" and X: "set xs = of_nat ` faddrs (us @ vs)"
    and T: "\<And>a e. tiles (qw s) a ((b, n, False) # ms) e \<Longrightarrow> tiles ((qw s)(of_nat b := tag k True)) a [(b, k, True)] e"
    and q: "qw s1 = (qw s)(of_nat b := tag k True)" "free_list s1 = free_list s" "heap_start s1 = heap_start s" "heap_end s1 = heap_end s"
    and bytes: "keeps (live_data (us @ vs)) s s1"
  shows "heap_lists (us @ (b, k, True) # vs) (of_nat b # xs) (free_list_insert (of_nat b) s1)"
    "set (of_nat b # xs) = of_nat ` faddrs (us @ (b, k, True) # vs)"
    "keeps (live_data (us @ vs)) s (free_list_insert (of_nat b) s1)"
proof -
  have W: "heap_lists (us @ (b, k, True) # vs) xs s1"
    using retag_wf[where ms' = "[(b, k, True)]" and v = "tag k True", OF H T] X by (simp add: q)
  have nb: "of_nat b \<notin> set xs" using fresh_word[OF W] X by simp
  show "heap_lists (us @ (b, k, True) # vs) (of_nat b # xs) (free_list_insert (of_nat b) s1)"
    using insert_spec(1)[OF W _ nb, of k] by simp
  show "set (of_nat b # xs) = of_nat ` faddrs (us @ (b, k, True) # vs)" using X by (simp add: faddrs_simps)
  show "keeps (live_data (us @ vs)) s (free_list_insert (of_nat b) s1)"
    using insert_spec(2)[OF W _ nb, of k] bytes unfolding live_data_parts by (auto simp: keeps_def)
qed

lemma other_live_not_body:
  assumes H: "heap_lists (us @ (b, n, f) # vs) xs s" and x: "x \<in> live_data (us @ vs)"
  shows "x \<notin> body (of_nat b)"
proof -
  have m: "(b, n, f) \<in> set (us @ (b, n, f) # vs)" by simp
  obtain c k where c: "(c, k, False) \<in> set us \<union> set vs" "c + 8 \<le> unat x" "unat x < c + k" using x by (auto simp: live_data_def)
  then have "c + k \<le> b \<or> b + n \<le> c"
    using tiles_around[of "qw s" "unat (heap_start s)" us b n f vs "unat (heap_end s)" c k False] H by (auto simp: heap_wf_def)
  then show ?thesis using c heap_block(1,5)[OF H m] by (auto simp: body_def)
qed

lemma kfree_spec:
  assumes I: "heap_inv (us @ (b, n, False) # vs) s"
  shows "heap_inv (us @ merge b n vs) (kfree (of_nat b + 8) s)
    \<and> keeps (live_data (us @ vs)) s (kfree (of_nat b + 8) s)
    \<and> total_allocated (kfree (of_nat b + 8) s) = total_allocated s - of_nat (n - 8)
    \<and> total_free (kfree (of_nat b + 8) s) = total_free s + of_nat (n - 8)"
proof -
  obtain xs where H: "heap_lists (us @ (b, n, False) # vs) xs s" and X: "set xs = of_nat ` faddrs (us @ vs)"
    and A: "total_allocated s = of_nat (used_bytes (us @ (b, n, False) # vs))" using I by (auto simp: heap_inv_def faddrs_simps)
  let ?bs = "us @ (b, n, False) # vs"
  have m: "(b, n, False) \<in> set ?bs" by simp
  note h = heap_block[OF H m] and hf = hdr_fields[OF H m]
  have "unat (of_nat b + of_nat 8 :: u64) = b + 8" using h(5,8) by (intro word_off) linarith
  then have ptr: "of_nat b + 8 \<noteq> (0 :: u64)" by force
  have db: "data_to_block (of_nat b + 8) = of_nat b" by (simp add: data_to_block_def HEADER_SIZE_def)
  have lo: "\<not> of_nat b < heap_start s" "\<not> heap_end s \<le> of_nat b"
    using tiles_in[of "qw s" "unat (heap_start s)" ?bs "unat (heap_end s)" b n False] H m h(1,5)
    by (auto simp: heap_wf_def word_less_nat_alt word_le_nat_alt)
  let ?s1 = "s\<lparr>total_allocated := total_allocated s - of_nat (n - 8), total_free := total_free s + of_nat (n - 8)\<rparr>"
  have b8: "(of_nat n :: u64) - HEADER_SIZE = of_nat (n - 8)" using h(5) by (simp add: HEADER_SIZE_def of_nat_diff)
  have nx: "next_block ?s1 (of_nat b) = of_nat (b + n)"
    using hf(2) by (simp add: next_block_def block_size_def)
  have K: "kfree (of_nat b + 8) s = (let s2 = (if of_nat (b + n) < heap_end s \<and> block_is_free ?s1 (of_nat (b + n))
       then let s' = free_list_remove (of_nat (b + n)) ?s1 in set_hdr (of_nat b) (of_nat n + block_size s' (of_nat (b + n))) s' else ?s1)
     in free_list_insert (of_nat b) (block_set_free (of_nat b) s2))"
    unfolding kfree_def db Let_def using ptr lo hf by (simp add: b8 nx[simplified])
  have H1: "heap_lists ?bs xs ?s1" using H by simp
  have used: "total_allocated s - of_nat (n - 8) = of_nat (used_bytes us + used_bytes vs)" using A by simp
  note hw = field_writes[OF h(3)] field_reads[OF h(3)]
  show ?thesis
  proof (cases "\<exists>c m vs'. vs = (c, m, True) # vs'")
    case True
    then obtain c m vs' where vs: "vs = (c, m, True) # vs'" by blast
    have c: "c = b + n" using H vs by (auto simp: heap_wf_def tiles_append)
    have mc: "(c, m, True) \<in> set ?bs" using vs by simp
    note hc = heap_block[OF H1 mc]
    let ?s2 = "free_list_remove (of_nat c) ?s1"
    have "of_nat c \<in> set xs" using X vs by (auto simp: faddrs_def)
    note r = remove_spec[OF H1 this]
    have X2: "set (remove1 (of_nat c) xs) = of_nat ` faddrs (us @ vs')"
      using free_words_without[of _ _ "us @ [(b, n, False)]" c m vs' xs] H X vs by (simp add: faddrs_simps)
    have H2: "heap_lists (us @ (b, n, False) # [(c, m, True)] @ vs') (remove1 (of_nat c) xs) ?s2" using r(1) vs by simp
    have cond: "of_nat (b + n) < heap_end s \<and> block_is_free ?s1 (of_nat (b + n))"
      using hc(1,5,7) hdr_fields(3)[OF H1 mc] c by (simp add: word_less_nat_alt del: of_nat_add)
    let ?s3 = "set_hdr (of_nat b) (of_nat n + of_nat m) ?s2"
    have d: "16 dvd n + m" using h(6) hc(6) by simp
    have K2: "kfree (of_nat b + 8) s = free_list_insert (of_nat b) (block_set_free (of_nat b) ?s3)"
      unfolding K using cond hdr_fields(2)[OF r(1) mc] c by (simp add: Let_def del: of_nat_add)
    have q: "qw (block_set_free (of_nat b) ?s3) = (qw ?s2)(of_nat b := tag (n + m) True)"
      using tag_bits(5)[OF d] by (simp add: block_set_free_def hw)
    have "keeps (live_data (us @ vs')) ?s2 (block_set_free (of_nat b) ?s3)"
      unfolding keeps_def block_set_free_def
      using other_live_not_body[OF H2] h live_data_parts(2)[of us vs' "[(c, m, True)]"]
      by (auto simp: field_bytes)
    then have T: "heap_lists (us @ (b, n + m, True) # vs') (of_nat b # remove1 (of_nat c) xs) (kfree (of_nat b + 8) s)"
      "set (of_nat b # remove1 (of_nat c) xs) = of_nat ` faddrs (us @ (b, n + m, True) # vs')"
      "keeps (live_data (us @ vs')) ?s2 (kfree (of_nat b + 8) s)"
      unfolding K2 by (intro release_tail[OF H2 X2 _ q]; use d in \<open>auto simp: block_set_free_def r\<close>)+
    have "keeps (live_data (us @ vs')) s ?s2"
      using r(2) live_data_parts(2)[of us vs' "[(b, n, False), (c, m, True)]"] vs by (auto simp: keeps_def)
    then have "keeps (live_data (us @ vs')) s (kfree (of_nat b + 8) s)" using T(3) by (rule keeps_trans)
    moreover have "total_allocated (kfree (of_nat b + 8) s) = total_allocated s - of_nat (n - 8)"
      "total_free (kfree (of_nat b + 8) s) = total_free s + of_nat (n - 8)" unfolding K2 by (simp_all add: block_set_free_def)
    ultimately show ?thesis using T(1,2) used vs unfolding heap_inv_def merge_def by (auto simp: live_data_parts)
  next
    case False
    have nc: "\<not> (of_nat (b + n) < heap_end s \<and> block_is_free ?s1 (of_nat (b + n)))"
    proof (cases vs)
      case Nil
      then have "unat (heap_end s) = b + n" using H by (auto simp: heap_wf_def tiles_append)
      moreover have "of_nat (unat (heap_end s)) = heap_end s" by simp
      ultimately have "heap_end s = of_nat (b + n)" by metis
      then show ?thesis by simp
    next
      case (Cons v vs')
      obtain c m g where v: "v = (c, m, g)" by (cases v)
      have "c = b + n" using H Cons v by (auto simp: heap_wf_def tiles_append)
      moreover have "(c, m, g) \<in> set ?bs" using Cons v by simp
      ultimately show ?thesis using hdr_fields(3)[OF H1, of c m g] False Cons v by (cases g) auto
    qed
    have K2: "kfree (of_nat b + 8) s = free_list_insert (of_nat b) (block_set_free (of_nat b) ?s1)"
      unfolding K if_not_P[OF nc] Let_def by (rule refl)
    have q: "qw (block_set_free (of_nat b) ?s1) = (qw ?s1)(of_nat b := tag n True)"
      using tag_bits(3)[OF h(6)] by (simp add: block_set_free_def hw h(9))
    have H2: "heap_lists (us @ (b, n, False) # [] @ vs) xs ?s1" using H1 by simp
    have "keeps (live_data (us @ vs)) ?s1 (block_set_free (of_nat b) ?s1)"
      unfolding keeps_def block_set_free_def using other_live_not_body[OF H1] h by (simp add: field_bytes)
    then have T: "heap_lists (us @ (b, n, True) # vs) (of_nat b # xs) (kfree (of_nat b + 8) s)"
      "set (of_nat b # xs) = of_nat ` faddrs (us @ (b, n, True) # vs)"
      "keeps (live_data (us @ vs)) ?s1 (kfree (of_nat b + 8) s)"
      unfolding K2 by (intro release_tail[OF H2 X _ q]; use h in \<open>auto simp: block_set_free_def\<close>)+
    moreover have "merge b n vs = (b, n, True) # vs" using False by (auto simp: merge_def split: list.splits bool.splits)
    moreover have "total_allocated (kfree (of_nat b + 8) s) = total_allocated s - of_nat (n - 8)"
      "total_free (kfree (of_nat b + 8) s) = total_free s + of_nat (n - 8)" unfolding K2 by (simp_all add: block_set_free_def)
    ultimately show ?thesis using used unfolding heap_inv_def by (auto simp: keeps_def)
  qed
qed

section \<open>Growing the heap\<close>

text \<open>The page allocator and the page tables leave the heap's own state alone.\<close>

definition same_heap :: "'a heap_state_scheme \<Rightarrow> 'a heap_state_scheme \<Rightarrow> bool" where
  "same_heap s s' \<longleftrightarrow> hmem s' = hmem s \<and> heap_start s' = heap_start s \<and> heap_end s' = heap_end s \<and> free_list s' = free_list s
     \<and> total_allocated s' = total_allocated s \<and> total_free s' = total_free s"

lemma same_heap_more:
  fixes s s' :: "'a heap_state_scheme"
  assumes "pmm_state.more s' = pmm_state.more s"
  shows "same_heap s s'"
  using assms by (cases s, cases s') (simp add: same_heap_def)

lemma more_vmm [frame_simps]:
  "pmm_state.more (set_entry t i v s) = pmm_state.more s"
  "pmm_state.more (snd (alloc_page_table s)) = pmm_state.more s"
  "pmm_state.more (snd (next_table t i f s)) = pmm_state.more s"
  "pmm_state.more (drop_table t i n s) = pmm_state.more s"
  "pmm_state.more (snd (vmm_map_page r va p f s)) = pmm_state.more s"
  "pmm_state.more (snd (vmm_unmap_page r va s)) = pmm_state.more s"
proof -
  show e: "pmm_state.more (set_entry t i v s) = pmm_state.more s" for t i v and s :: "'a pmm_state_scheme" by (simp add: set_entry_def)
  have z: "pmm_state.more (zero_table t s) = pmm_state.more s" for t and s :: "'a pmm_state_scheme"
    unfolding zero_table_def by (rule fold_invariant[where P = "\<lambda>s'. pmm_state.more s' = pmm_state.more s" and Q = "\<lambda>_. True"]) (simp_all add: e)
  show a: "pmm_state.more (snd (alloc_page_table s)) = pmm_state.more s" for s :: "'a pmm_state_scheme"
    using pmm_alloc_frame[of s] by (auto simp: alloc_page_table_def z Let_def split: prod.splits)
  show n: "pmm_state.more (snd (next_table t i f s)) = pmm_state.more s" for t i f and s :: "'a pmm_state_scheme"
    using a[of s] by (auto simp: next_table_def e Let_def split: prod.splits)
  show d: "pmm_state.more (drop_table t i n s) = pmm_state.more s" for t i n and s :: "'a pmm_state_scheme"
    by (simp add: drop_table_def frame_simps e)
  show "pmm_state.more (snd (vmm_map_page r va p f s)) = pmm_state.more s"
    using n unfolding vmm_map_page_def by (auto simp: Let_def d e split: prod.splits option.splits) (metis d snd_conv)+
  show "pmm_state.more (snd (vmm_unmap_page r va s)) = pmm_state.more s"
    by (auto simp: vmm_unmap_page_def Let_def e)
qed

lemma expand_pages_frame:
  assumes "expand_pages n pml4 al s = (ok, al', s')"
  shows "same_heap s (s'\<lparr>heap_end := heap_end s\<rparr>) \<and> (ok \<longrightarrow> heap_end s' = heap_end s + of_nat n * PAGE_SIZE)"
  using assms
proof (induction n arbitrary: al s)
  case 0
  then show ?case by (simp add: same_heap_def)
next
  case (Suc n)
  obtain phys s1 where p: "pmm_alloc s = (phys, s1)" by (cases "pmm_alloc s")
  obtain r s2 where m: "vmm_map_page pml4 (heap_end s1) phys (PTE_PRESENT OR PTE_WRITABLE) s1 = (r, s2)"
    by (cases "vmm_map_page pml4 (heap_end s1) phys (PTE_PRESENT OR PTE_WRITABLE) s1")
  have s1: "same_heap s s1" using same_heap_more[of s1 s] pmm_alloc_frame[of s] p by simp
  have s2: "same_heap s1 s2" using same_heap_more[of s2 s1] more_vmm(5)[of pml4 "heap_end s1" phys "PTE_PRESENT OR PTE_WRITABLE" s1] m by simp
  have s3: "same_heap s2 (pmm_free phys s2)" by (rule same_heap_more) (simp add: frame_simps)
  show ?case
  proof (cases "phys = PMM_ALLOC_FAILED \<or> r \<noteq> 0")
    case True
    then show ?thesis using Suc.prems p m s1 s2 s3 by (auto simp: same_heap_def split: if_splits)
  next
    case False
    then have "expand_pages n pml4 (al @ [phys]) (s2\<lparr>heap_end := heap_end s2 + PAGE_SIZE\<rparr>) = (ok, al', s')"
      using Suc.prems p m by simp
    from Suc.IH[OF this] show ?thesis using s1 s2 by (auto simp: same_heap_def algebra_simps)
  qed
qed

lemma expand_cleanup_frame:
  "same_heap s ((expand_cleanup root r al s)\<lparr>heap_end := heap_end s\<rparr>)" "heap_end (expand_cleanup root r al s) = r"
proof -
  have "same_heap s (fold (\<lambda>(i, phys) s. pmm_free phys (snd (vmm_unmap_page root (r + of_nat i * PAGE_SIZE) s))) xs s)" for xs
  proof (rule fold_invariant[where P = "same_heap s" and Q = "\<lambda>_. True"])
    fix x s' assume "same_heap s s'"
    moreover have "same_heap s' ((\<lambda>(i, phys) s. pmm_free phys (snd (vmm_unmap_page root (r + of_nat i * PAGE_SIZE) s))) x s')"
      by (rule same_heap_more) (simp add: frame_simps split: prod.splits)
    ultimately show "same_heap s ((\<lambda>(i, phys) s. pmm_free phys (snd (vmm_unmap_page root (r + of_nat i * PAGE_SIZE) s))) x s')"
      by (simp add: same_heap_def)
  qed (simp_all add: same_heap_def)
  then show "same_heap s ((expand_cleanup root r al s)\<lparr>heap_end := heap_end s\<rparr>)" "heap_end (expand_cleanup root r al s) = r"
    by (simp_all add: expand_cleanup_def same_heap_def)
qed

lemma heap_wf_extend:
  assumes H: "heap_wf hs he bs xs Q fl" and n: "32 \<le> n" "16 dvd n" "unat he + n < 2 ^ 64"
  shows "heap_wf hs (he + of_nat n) (bs @ [(unat he, n, True)]) xs (Q(he := tag n True)) fl"
proof -
  have e: "unat (he + of_nat n) = unat he + n" using n(3) by (rule unat_plus_offset)
  have b: "unat (of_nat c + of_nat k :: u64) < unat he" if "(c, m, f) \<in> set bs" "k < 32" for c m f k
    using word_off[of c k] heap_block(5,7,8)[OF H that(1)] that(2) by simp
  have h: "(of_nat c + of_nat k :: u64) \<noteq> he" if "(c, m, f) \<in> set bs" "k < 32" for c m f k using b[OF that] by auto
  have "tiles (Q(he := tag n True)) (unat hs) bs (unat he) = tiles Q (unat hs) bs (unat he)"
    by (rule tiles_frame) (use h[of _ _ _ 0] in force)
  moreover have "dll (Q(he := tag n True)) 0 fl xs = dll Q 0 fl xs"
  proof (rule dll_frame)
    fix y assume "y \<in> set xs"
    then obtain c k where "y = of_nat c" "(c, k, True) \<in> set bs" using heap_free_in[OF H] by blast
    then show "(Q(he := tag n True)) (y + 8) = Q (y + 8) \<and> (Q(he := tag n True)) (y + 16) = Q (y + 16)"
      using h[of c k True 8] h[of c k True 16] by auto
  qed
  moreover have "(of_nat ` faddrs bs :: u64 set) \<subseteq> of_nat ` faddrs (bs @ [(unat he, n, True)])"
    by (rule image_mono) (auto simp: faddrs_def)
  ultimately show ?thesis using H n by (auto simp: heap_wf_def tiles_append e)
qed

lemma heap_end_pos: "heap_lists bs xs s \<Longrightarrow> heap_end s \<noteq> 0"
  using tiles_le[of "qw s" "unat (heap_start s)" bs "unat (heap_end s)"] by (auto simp: heap_wf_def)

lemma tiles_end_dvd: "tiles Q a bs e \<Longrightarrow> 16 dvd a \<Longrightarrow> 16 dvd e"
  by (induction Q a bs e rule: tiles.induct) auto

lemma expand_size:
  assumes "unat m + 4095 < 2 ^ 64"
  defines "pages \<equiv> (m + PAGE_SIZE - 1) div PAGE_SIZE"
  defines "k \<equiv> if pages < HEAP_GROW_PAGES then HEAP_GROW_PAGES else pages"
  shows "unat m \<le> unat k * 4096" "16 \<le> unat k"
proof -
  have "m + PAGE_SIZE - 1 = m + of_nat 4095" by (simp add: PAGE_SIZE_def)
  then have "unat (m + PAGE_SIZE - 1) = unat m + 4095" using unat_plus_offset[OF assms(1)] by (simp only:)
  then have p: "unat pages = (unat m + 4095) div 4096" by (simp add: pages_def unat_div)
  show "16 \<le> unat k" unfolding k_def by (auto simp: HEAP_GROW_PAGES_def word_less_nat_alt)
  have "unat pages \<le> unat k" unfolding k_def by (auto simp: word_less_nat_alt)
  moreover have "unat m \<le> (unat m + 4095) div 4096 * 4096" by linarith
  ultimately show "unat m \<le> unat k * 4096" using p by (metis le_trans mult_le_mono1)
qed

lemma heap_expand_spec:
  assumes H: "heap_lists bs xs s" and e: "heap_expand m s = (r, s')"
    and m: "unat m + 4095 < 2 ^ 64" and room: "unat (heap_end s) + 2 ^ 18 < 2 ^ 64"
  shows "r = 0 \<and> same_heap s s' \<or> r = heap_end s \<and> r \<noteq> 0 \<and> (\<exists>P. unat m \<le> P \<and> 32 \<le> P \<and> P \<le> 2 ^ 18
    \<and> heap_end s' = heap_end s + of_nat P \<and> total_allocated s' = total_allocated s \<and> total_free s' = total_free s + of_nat (P - 8)
    \<and> heap_lists (bs @ [(unat (heap_end s), P, True)]) (heap_end s # xs) s' \<and> keeps (live_data bs) s s')"
proof -
  define pages where "pages = (m + PAGE_SIZE - 1) div PAGE_SIZE"
  define k where "k = (if pages < HEAP_GROW_PAGES then HEAP_GROW_PAGES else pages)"
  note sz = expand_size[OF m, folded pages_def, folded k_def]
  show ?thesis
  proof (cases "64 < k")
    case True
    then show ?thesis using e by (simp add: heap_expand_def Let_def pages_def[symmetric] k_def[symmetric] same_heap_def)
  next
    case False
    then have k: "unat k \<le> 64" by (simp add: word_less_nat_alt)
    obtain ok al s1 where x: "expand_pages (unat k) (vmm_get_kernel_pml4 s) [] s = (ok, al, s1)"
      by (cases "expand_pages (unat k) (vmm_get_kernel_pml4 s) [] s") auto
    note f = expand_pages_frame[OF x]
    define P where "P = unat k * 4096"
    let ?he = "heap_end s"
    have w: "k * PAGE_SIZE = of_nat P" by (simp add: PAGE_SIZE_def P_def)
    show ?thesis
    proof (cases ok)
      case False
      then have "r = 0" "s' = expand_cleanup (vmm_get_kernel_pml4 s) ?he al s1"
        using e \<open>\<not> 64 < k\<close> x by (simp_all add: heap_expand_def Let_def pages_def[symmetric] k_def[symmetric])
      then show ?thesis using f expand_cleanup_frame[where s = s1 and root = "vmm_get_kernel_pml4 s" and r = ?he and al = al] by (simp add: same_heap_def)
    next
      case True
      let ?s2 = "set_hdr ?he (of_nat P OR BLOCK_FREE) s1"
      let ?s3 = "?s2\<lparr>total_free := total_free ?s2 + (of_nat P - HEADER_SIZE)\<rparr>"
      have r: "r = ?he" "s' = free_list_insert ?he ?s3"
        using e \<open>\<not> 64 < k\<close> x True by (auto simp: heap_expand_def Let_def pages_def[symmetric] k_def[symmetric] w)
      have Ps: "32 \<le> P" "P \<le> 2 ^ 18" "16 dvd P" "unat ?he + P < 2 ^ 64" using sz k room by (auto simp: P_def)
      have tiled: "tiles (qw s) (unat (heap_start s)) bs (unat ?he)" "16 dvd unat (heap_start s)" using H by (auto simp: heap_wf_def)
      have bh: "blk_addr ?he" by (rule tiles_end_dvd[OF tiled])
      have ends: "heap_end s1 = ?he + of_nat P" using f True by (simp add: w)
      have "heap_lists (bs @ [(unat ?he, P, True)]) xs ?s3"
        using heap_wf_extend[OF H Ps(1,3,4)] f ends by (simp add: same_heap_def field_writes[OF bh] tag_bits(5)[OF Ps(3)])
      moreover have "?he \<notin> set xs"
      proof
        assume "?he \<in> set xs"
        then obtain b n where "?he = of_nat b" "(b, n, True) \<in> set bs" using heap_free_in[OF H] by blast
        then show False using heap_block(1,5,7)[OF H] by fastforce
      qed
      ultimately have I: "heap_lists (bs @ [(unat ?he, P, True)]) (?he # xs) s'" "keeps (live_data (bs @ [(unat ?he, P, True)])) ?s3 s'"
        using insert_spec[where bs = "bs @ [(unat ?he, P, True)]" and xs = xs and s = ?s3 and b = "unat ?he" and n = P] by (simp_all add: r)
      have "hmem ?s3 x = hmem s x" if "x \<in> live_data bs" for x
      proof -
        have "unat x < unat ?he" using that heap_block(7)[OF H] by (fastforce simp: live_data_def)
        then have "hmem ?s2 x = hmem s1 x" using Ps by (intro field_bytes) (auto simp: body_def)
        then show ?thesis using f by (simp add: same_heap_def)
      qed
      then have K: "keeps (live_data bs) s s'" using I(2) by (auto simp: keeps_def live_data_def)
      have "(of_nat P :: u64) - HEADER_SIZE = of_nat (P - 8)" using Ps(1) by (simp add: HEADER_SIZE_def of_nat_diff)
      then have "total_free s' = total_free s + of_nat (P - 8)" using f by (simp add: r same_heap_def)
      moreover have "total_allocated s' = total_allocated s" "heap_end s' = ?he + of_nat P" using f ends by (simp_all add: r same_heap_def)
      moreover have "r \<noteq> 0" using r(1) heap_end_pos[OF H] by simp
      ultimately show ?thesis using r(1) sz(1)[folded P_def] Ps I(1) K by blast
    qed
  qed
qed

section \<open>Allocation\<close>

definition live :: "block list \<Rightarrow> (nat \<times> nat) set" where
  "live bs = {(b, n). (b, n, False) \<in> set bs}"

lemma take_inv:
  assumes H: "heap_lists (us @ (b, n, True) # vs) xs s" and X: "set xs = of_nat ` faddrs (us @ vs)"
    and A: "total_allocated s = of_nat (used_bytes (us @ (b, n, True) # vs))"
    and t: "16 dvd t" "32 \<le> t" "t \<le> n"
    and e: "kmalloc_take (of_nat t) (of_nat b) (of_nat n) s = (p, s')"
  shows "heap_inv (us @ carve b n t @ vs) s' \<and> p = of_nat b + 8 \<and> keeps (live_data (us @ (b, n, True) # vs)) s s'
    \<and> total_free s' + total_allocated s' = total_free s + total_allocated s \<and> heap_end s' = heap_end s
    \<and> live (us @ carve b n t @ vs) = insert (b, carved n t) (live (us @ (b, n, True) # vs))
    \<and> (b, carved n t) \<notin> live (us @ (b, n, True) # vs) \<and> t \<le> carved n t
    \<and> total_allocated s' = total_allocated s + of_nat (carved n t - 8)"
proof -
  have nb: "of_nat b \<notin> set xs" using fresh_word[OF H] X by simp
  note T = take_spec[OF H nb t e]
  have "set (if 40 \<le> n - t then of_nat (b + t) # xs else xs) = of_nat ` faddrs (us @ carve b n t @ vs)"
    using X by (cases "40 \<le> n - t") (simp_all add: carve_def faddrs_simps del: of_nat_add)
  moreover have "used_bytes (us @ carve b n t @ vs) = used_bytes (us @ (b, n, True) # vs) + (carved n t - 8)"
    by (simp add: carve_def carved_def)
  ultimately have "heap_inv (us @ carve b n t @ vs) s'" using T A unfolding heap_inv_def by (metis of_nat_add)
  moreover have "(b, k) \<notin> live (us @ (b, n, True) # vs)" for k
    using tiles_around[of "qw s" "unat (heap_start s)" us b n True vs "unat (heap_end s)" b k False] H
      heap_block(5)[OF H, of b n True] heap_block(5)[OF H, of b k False] by (auto simp: heap_wf_def live_def)
  moreover have "live (us @ carve b n t @ vs) = insert (b, carved n t) (live (us @ (b, n, True) # vs))"
    by (auto simp: live_def carve_def carved_def)
  moreover have "t \<le> carved n t" using t by (simp add: carved_def)
  ultimately show ?thesis using T by simp
qed

definition allocated :: "block list \<Rightarrow> nat \<Rightarrow> 'a heap_state_scheme \<Rightarrow> u64 \<Rightarrow> 'a heap_state_scheme \<Rightarrow> bool" where
  "allocated bs k s p s' \<longleftrightarrow> (\<exists>bs' b n. heap_inv bs' s' \<and> p = of_nat b + 8 \<and> k + 8 \<le> n
     \<and> live bs' = insert (b, n) (live bs) \<and> (b, n) \<notin> live bs \<and> total_allocated s' = total_allocated s + of_nat (n - 8))"

lemma kmalloc_spec:
  assumes I: "heap_inv bs s" and sz: "9 \<le> unat sz" "unat sz + 2 ^ 13 \<le> 2 ^ 64" and room: "unat (heap_end s) + 2 ^ 18 < 2 ^ 64"
  shows "\<exists>p s'. kmalloc sz s = Some (p, s') \<and> keeps (live_data bs) s s'
    \<and> (if p = 0 then heap_inv bs s' \<and> heap_end s' = heap_end s \<and> total_allocated s' = total_allocated s
          \<and> find_fit (kmalloc_size sz) (free_list s) s = Some 0 \<and> fst (heap_expand (kmalloc_size sz) s) = 0
        else allocated bs (unat sz) s p s')
    \<and> total_free s' + total_allocated s'
      = total_free s + total_allocated s + (heap_end s' - heap_end s) - (if heap_end s' = heap_end s then 0 else 8)"
proof -
  obtain xs where H: "heap_lists bs xs s" and X: "set xs = of_nat ` faddrs bs" and A: "total_allocated s = of_nat (used_bytes bs)"
    using I by (auto simp: heap_inv_def)
  let ?t = "kmalloc_size sz"
  have "unat sz + 23 < 2 ^ 64" using sz(2) by simp
  note t = kmalloc_size_spec[OF sz(1) this]
  have wt: "?t = of_nat (unat ?t)" by simp
  have sz0: "sz \<noteq> 0" using sz(1) by auto
  have "\<forall>x \<in> set xs. blk_addr x" using free_node(1)[OF H] by blast
  then have F: "find_fit ?t (free_list s) s = Some (case find (\<lambda>x. ?t \<le> block_size s x) xs of None \<Rightarrow> 0 | Some x \<Rightarrow> x)"
    using find_fit_spec[of s 0 "free_list s" xs ?t] H by (simp add: heap_wf_def)
  show ?thesis
  proof (cases "find (\<lambda>x. ?t \<le> block_size s x) xs")
    case (Some x)
    then have x: "x \<in> set xs" "?t \<le> block_size s x" by (auto simp: find_Some_iff)
    obtain b n where b: "x = of_nat b" "(b, n, True) \<in> set bs" using heap_free_in[OF H x(1)] by blast
    obtain us vs where bs: "bs = us @ (b, n, True) # vs" using split_list[OF b(2)] by blast
    note h = heap_block[OF H b(2)] and r = remove_spec[OF H x(1)]
    have nz: "x \<noteq> 0" using h(1,4) b(1) by force
    have tn: "unat ?t \<le> n" using x(2) hdr_fields(2)[OF H b(2)] h(8) b(1)
      by (simp add: word_le_nat_alt unsigned_of_nat take_bit_nat_eq_self)
    let ?s1 = "free_list_remove x s"
    obtain p s' where k: "kmalloc_take ?t (of_nat b) (of_nat n) ?s1 = (p, s')" by (cases "kmalloc_take ?t (of_nat b) (of_nat n) ?s1")
    have km: "kmalloc sz s = Some (p, s')"
      using sz0 nz F Some k hdr_fields(2)[OF H b(2)] b(1) by (simp add: kmalloc_def Let_def)
    have X1: "set (remove1 x xs) = of_nat ` faddrs (us @ vs)"
      using free_words_without[of _ _ us b n vs xs] H X bs b(1) by simp
    have A1: "total_allocated ?s1 = of_nat (used_bytes bs)" using A by simp
    note T = take_inv[OF r(1)[unfolded bs] X1 A1[unfolded bs] t(1,4) tn, folded wt, OF k, folded bs, unfolded free_list_frames]
    have T': "heap_inv (us @ carve b n (unat ?t) @ vs) s'" "p = of_nat b + 8" "keeps (live_data bs) ?s1 s'"
      "total_free s' + total_allocated s' = total_free s + total_allocated s" "heap_end s' = heap_end s"
      "live (us @ carve b n (unat ?t) @ vs) = insert (b, carved n (unat ?t)) (live bs)" "(b, carved n (unat ?t)) \<notin> live bs" "unat ?t \<le> carved n (unat ?t)"
      "total_allocated s' = total_allocated s + of_nat (carved n (unat ?t) - 8)"
      using T by blast+
    have "unat (of_nat b + of_nat 8 :: u64) = b + 8" using h(5,8) by (intro word_off) linarith
    then have "p \<noteq> 0" using T'(2) by force
    moreover have "keeps (live_data bs) s s'" using keeps_trans[OF r(2) T'(3)] .
    moreover have "allocated bs (unat sz) s p s'" unfolding allocated_def using T' t(2) le_trans by blast
    ultimately show ?thesis using km T'(4,5) by simp
  next
    case None
    obtain nb s1 where e: "heap_expand ?t s = (nb, s1)" by (cases "heap_expand ?t s")
    have "unat ?t + 4095 < 2 ^ 64" using t(3) sz(2) by simp
    note E = heap_expand_spec[OF H e this room]
    show ?thesis
    proof (cases "nb = 0")
      case True
      then have "same_heap s s1" using E by auto
      then have "heap_inv bs s1 \<and> keeps (live_data bs) s s1 \<and> heap_end s1 = heap_end s \<and> total_allocated s1 = total_allocated s
        \<and> total_free s1 = total_free s"
        using I by (auto simp: same_heap_def heap_inv_def keeps_def)
      moreover have "kmalloc sz s = Some (0, s1)" using sz0 F None e True by (simp add: kmalloc_def Let_def)
      ultimately show ?thesis using F None e True by simp
    next
      case False
      obtain P where P: "nb = heap_end s" "unat ?t \<le> P" "32 \<le> P" "P \<le> 2 ^ 18" "heap_end s1 = heap_end s + of_nat P"
        "total_allocated s1 = total_allocated s" "total_free s1 = total_free s + of_nat (P - 8)"
        "heap_lists (bs @ [(unat (heap_end s), P, True)]) (heap_end s # xs) s1" "keeps (live_data bs) s s1"
        using E False by blast
      let ?bs = "bs @ (unat (heap_end s), P, True) # []"
      let ?he = "heap_end s"
      have H1: "heap_lists ?bs (?he # xs) s1" using P(8) by simp
      note r = remove_spec[OF H1, of ?he]
      have m: "(unat ?he, P, True) \<in> set ?bs" by simp
      have wh: "of_nat (unat ?he) = ?he" by simp
      let ?s2 = "free_list_remove ?he s1"
      obtain p s' where k: "kmalloc_take ?t (of_nat (unat ?he)) (of_nat P) ?s2 = (p, s')" by (cases "kmalloc_take ?t ?he (of_nat P) ?s2") auto
      have X1: "set xs = of_nat ` faddrs (bs @ [])" using X by simp
      have H2: "heap_lists ?bs xs ?s2" using r(1) by simp
      have A2: "total_allocated ?s2 = of_nat (used_bytes ?bs)" using A P(6) by simp
      note T = take_inv[OF H2 X1 A2 t(1,4) P(2), folded wt, OF k]
      have km: "kmalloc sz s = Some (p, s')"
        using sz0 F None e False P(1) k hdr_fields(2)[OF H2 m] by (simp add: kmalloc_def Let_def)
      have ld: "live_data ?bs = live_data bs" "live ?bs = live bs" by (auto simp: live_data_def live_def)
      have "unat (?he + of_nat 8) = unat ?he + 8" using room by (intro unat_plus_offset) simp
      then have "p \<noteq> 0" using T by force
      moreover have "keeps (live_data bs) s s'" using P(9) r(2) T unfolding ld by (auto simp: keeps_def)
      moreover have "allocated bs (unat sz) s p s'" unfolding allocated_def
        by (intro exI[of _ "bs @ carve (unat ?he) P (unat ?t) @ []"] exI[of _ "unat ?he"] exI[of _ "carved P (unat ?t)"] conjI)
          (use T t(2) P(6) ld(2) in auto)
      moreover have "(of_nat P :: u64) \<noteq> 0"
      proof
        assume "(of_nat P :: u64) = 0"
        then have "unat (of_nat P :: u64) = 0" by simp
        then show False using P(3,4) by (simp add: unsigned_of_nat take_bit_nat_eq_self)
      qed
      moreover have "total_free s' + total_allocated s' = total_free s + of_nat (P - 8) + total_allocated s" "heap_end s' = heap_end s + of_nat P"
        using T P(5,6,7) unfolding free_list_frames by metis+
      moreover from this(1) have "total_free s' + total_allocated s' = total_free s + total_allocated s + of_nat P - 8"
        using P(3) by (simp add: of_nat_diff)
      ultimately show ?thesis using km by simp
    qed
  qed
qed

end
