(* ===== verification/Heap_Store.thy ===== *)
theory Heap_Store
  imports Heap_Blocks
begin

text \<open>
  The heap as its callers see it: a partial map from data addresses to contents
  (\<open>heap_holds\<close>), the contract of an object store (\<open>object_store\<close>) discharged for
  \<^verbatim>\<open>kmalloc\<close> and \<^verbatim>\<open>kfree\<close>, and what follows for \<^verbatim>\<open>kzalloc\<close>, \<^verbatim>\<open>krealloc\<close> and any run of
  heap operations.
\<close>

section \<open>The heap as a store of objects\<close>

text \<open>
  What the heap promises its callers: a partial map from data addresses to contents. An
  allocation adds a fresh object, a release removes one, a store into an object changes that
  byte of that object, and nothing else changes.
\<close>

locale object_store =
  fixes holds :: "(nat \<Rightarrow> u8 list option) \<Rightarrow> 's \<Rightarrow> bool"
    and alloc :: "u64 \<Rightarrow> 's \<Rightarrow> (u64 \<times> 's) option"
    and release :: "u64 \<Rightarrow> 's \<Rightarrow> 's"
    and ready :: "u64 \<Rightarrow> 's \<Rightarrow> bool"
    and byte :: "'s \<Rightarrow> u64 \<Rightarrow> u8"
    and put :: "u64 \<Rightarrow> u8 \<Rightarrow> 's \<Rightarrow> 's"
  assumes alloc_ok: "holds M s \<Longrightarrow> ready sz s \<Longrightarrow> \<exists>p s'. alloc sz s = Some (p, s')
      \<and> (if p = 0 then holds M s'
         else unat p \<notin> dom M \<and> (\<exists>c. unat sz \<le> length c \<and> holds (M(unat p \<mapsto> c)) s'))"
    and release_ok: "holds M s \<Longrightarrow> M (unat p) = Some c \<Longrightarrow> holds (M(unat p := None)) (release p s)"
    and put_ok: "holds M s \<Longrightarrow> M a = Some c \<Longrightarrow> i < length c \<Longrightarrow> holds (M(a \<mapsto> c[i := v])) (put (of_nat (a + i)) v s)"
    and byte_ok: "holds M s \<Longrightarrow> M a = Some c \<Longrightarrow> i < length c \<Longrightarrow> byte s (of_nat (a + i)) = c ! i"
    and apart: "holds M s \<Longrightarrow> M a = Some c \<Longrightarrow> M a' = Some c' \<Longrightarrow> a \<noteq> a' \<Longrightarrow> a + length c \<le> a' \<or> a' + length c' \<le> a"
begin

lemma alloc_keeps_others:
  assumes "holds M s" "ready sz s" "alloc sz s = Some (p, s')" "M a = Some c" "i < length c"
  shows "byte s' (of_nat (a + i)) = c ! i"
proof -
  have "\<exists>M'. holds M' s' \<and> M' a = Some c"
  proof (cases "p = 0")
    case False
    then obtain d where "unat p \<notin> dom M" "holds (M(unat p \<mapsto> d)) s'" using alloc_ok[OF assms(1,2)] assms(3) by auto
    then show ?thesis using assms(4) by (intro exI[of _ "M(unat p \<mapsto> d)"]) auto
  qed (use alloc_ok[OF assms(1,2)] assms(3,4) in auto)
  then show ?thesis using byte_ok assms(5) by blast
qed

lemma release_keeps_others:
  assumes "holds M s" "M (unat p) = Some d" "M a = Some c" "a \<noteq> unat p" "i < length c"
  shows "byte (release p s) (of_nat (a + i)) = c ! i"
  using byte_ok[OF release_ok[OF assms(1,2)]] assms by simp

text \<open>The byte loops of the callers: copying between two objects and clearing one.\<close>

lemma copy_ok:
  assumes "holds M s" "M a = Some c" "M a' = Some c'" "a \<noteq> a'" "k \<le> length c" "k \<le> length c'"
  shows "holds (M(a' \<mapsto> take k c @ drop k c'))
    (fold (\<lambda>i s. put (of_nat (a' + i)) (byte s (of_nat (a + i))) s) [0..<k] s)"
  using assms(5,6)
proof (induction k)
  case 0
  then show ?case using assms(1,3) by (simp add: fun_upd_idem)
next
  case (Suc k)
  let ?M = "M(a' \<mapsto> take k c @ drop k c')"
  let ?s = "fold (\<lambda>i s. put (of_nat (a' + i)) (byte s (of_nat (a + i))) s) [0..<k] s"
  have h: "holds ?M ?s" using Suc.IH Suc.prems by (simp del: fun_upd_apply)
  have "byte ?s (of_nat (a + k)) = c ! k" using byte_ok[OF h, of a c k] assms(2,4) Suc.prems by simp
  moreover have "(take k c @ drop k c')[k := c ! k] = take (Suc k) c @ drop (Suc k) c'"
    using Suc.prems by (simp add: list_update_append take_Suc_conv_app_nth Cons_nth_drop_Suc[symmetric])
  moreover have "holds (?M(a' \<mapsto> (take k c @ drop k c')[k := c ! k])) (put (of_nat (a' + k)) (c ! k) ?s)"
    by (rule put_ok[OF h]) (use Suc.prems in simp_all)
  ultimately show ?case by (simp del: fun_upd_apply)
qed

lemma fill_ok:
  assumes "holds M s" "M a = Some c" "k \<le> length c"
  shows "holds (M(a \<mapsto> replicate k v @ drop k c)) (fold (\<lambda>i. put (of_nat (a + i)) v) [0..<k] s)"
  using assms(3)
proof (induction k)
  case 0
  then show ?case using assms(1,2) by (simp add: fun_upd_idem)
next
  case (Suc k)
  let ?M = "M(a \<mapsto> replicate k v @ drop k c)"
  let ?s = "fold (\<lambda>i. put (of_nat (a + i)) v) [0..<k] s"
  have h: "holds ?M ?s" using Suc.IH Suc.prems by (simp del: fun_upd_apply)
  have "(replicate k v @ drop k c)[k := v] = replicate (Suc k) v @ drop (Suc k) c"
    using Suc.prems by (simp add: list_update_append Cons_nth_drop_Suc[symmetric] replicate_append_same[symmetric])
  moreover have "holds (?M(a \<mapsto> (replicate k v @ drop k c)[k := v])) (put (of_nat (a + k)) v ?s)"
    by (rule put_ok[OF h]) (use Suc.prems in simp_all)
  ultimately show ?case by (simp del: fun_upd_apply replicate.simps)
qed

lemma alloc_then_release:
  assumes "holds M s" "ready sz s" "alloc sz s = Some (p, s')" "p \<noteq> 0"
  shows "holds M (release p s')"
proof -
  obtain c where c: "unat p \<notin> dom M" "holds (M(unat p \<mapsto> c)) s'"
    using alloc_ok[OF assms(1,2)] assms(3,4) by auto
  then have "M(unat p := None) = M" by auto
  then show ?thesis using release_ok[OF c(2), of p c] by simp
qed

end

definition contents :: "'a heap_state_scheme \<Rightarrow> nat \<Rightarrow> nat \<Rightarrow> u8 list" where
  "contents s a k = map (\<lambda>i. hmem s (of_nat (a + i))) [0..<k]"

definition heap_holds :: "(nat \<Rightarrow> u8 list option) \<Rightarrow> 'a heap_state_scheme \<Rightarrow> bool" where
  "heap_holds M s \<longleftrightarrow> (\<exists>bs. heap_inv bs s \<and> dom M = (\<lambda>(b, n). b + 8) ` live bs
     \<and> (\<forall>b n. (b, n) \<in> live bs \<longrightarrow> M (b + 8) = Some (contents s (b + 8) (n - 8))))"

definition heap_ready :: "u64 \<Rightarrow> 'a heap_state_scheme \<Rightarrow> bool" where
  "heap_ready sz s \<longleftrightarrow> 9 \<le> unat sz \<and> unat sz + 2 ^ 13 \<le> 2 ^ 64 \<and> unat (heap_end s) + 2 ^ 18 < 2 ^ 64"

definition put_byte :: "u64 \<Rightarrow> u8 \<Rightarrow> 'a heap_state_scheme \<Rightarrow> 'a heap_state_scheme" where
  "put_byte a v s = s\<lparr>hmem := (hmem s)(a := v)\<rparr>"

lemma live_block: "heap_inv bs s \<Longrightarrow> (b, n) \<in> live bs \<Longrightarrow> 32 \<le> n \<and> b + n < 2 ^ 64 \<and> 16 dvd b \<and> 16 dvd n
    \<and> unat (heap_start s) \<le> b \<and> b + n \<le> unat (heap_end s)"
proof -
  assume a: "heap_inv bs s" "(b, n) \<in> live bs"
  then obtain xs where H: "heap_lists bs xs s" and m: "(b, n, False) \<in> set bs" by (auto simp: heap_inv_def live_def)
  have "unat (heap_start s) \<le> b" using tiles_in[OF _ m] H unfolding heap_wf_def by blast
  then show ?thesis using heap_block(2,5,6,7,8)[OF H m] by (intro conjI)
qed

lemma live_apart:
  assumes "heap_inv bs s" "(b, n) \<in> live bs" "(c, m) \<in> live bs"
  shows "(b, n) = (c, m) \<or> b + n \<le> c \<or> c + m \<le> b"
proof -
  obtain xs where H: "heap_lists bs xs s" using assms(1) by (auto simp: heap_inv_def)
  show ?thesis using block_apart[OF H, of b n False c m False] assms(2,3) by (simp add: live_def)
qed

lemma contents_keeps:
  assumes "heap_inv bs s" "keeps (live_data bs) s s'" "(b, n) \<in> live bs"
  shows "contents s' (b + 8) (n - 8) = contents s (b + 8) (n - 8)"
proof -
  have "hmem s' (of_nat (b + 8 + i)) = hmem s (of_nat (b + 8 + i))" if "i < n - 8" for i
  proof -
    have "b + (8 + i) < 2 ^ 64" using live_block[OF assms(1,3)] that by linarith
    then have "unat (of_nat (b + 8 + i) :: u64) = b + 8 + i" using word_off[of b "8 + i"] by (simp add: add.assoc)
    then have "of_nat (b + 8 + i) \<in> live_data bs" using assms(3) that by (force simp: live_data_def live_def)
    then show ?thesis using assms(2) by (simp add: keeps_def)
  qed
  then show ?thesis by (simp add: contents_def)
qed

lemma kmalloc_cases:
  assumes "heap_holds M s" "heap_ready sz s"
  obtains (fail) s' where "kmalloc sz s = Some (0, s')" "heap_holds M s'" "total_allocated s' = total_allocated s"
      "find_fit (kmalloc_size sz) (free_list s) s = Some 0" "fst (heap_expand (kmalloc_size sz) s) = 0"
  | (ok) p s' c where "kmalloc sz s = Some (p, s')" "p \<noteq> 0" "unat p \<notin> dom M" "unat sz \<le> length c" "heap_holds (M(unat p \<mapsto> c)) s'"
      "unat p mod 16 = 8" "unat (heap_start s') \<le> unat p" "unat p + length c \<le> unat (heap_end s')"
      "total_allocated s' = total_allocated s + of_nat (length c)"
proof -
  obtain bs where bs: "heap_inv bs s" and D: "dom M = (\<lambda>(b, n). b + 8) ` live bs"
    and M: "\<And>b n. (b, n) \<in> live bs \<Longrightarrow> M (b + 8) = Some (contents s (b + 8) (n - 8))"
    using assms(1) by (auto simp: heap_holds_def)
  have rd: "9 \<le> unat sz" "unat sz + 2 ^ 13 \<le> 2 ^ 64" "unat (heap_end s) + 2 ^ 18 < 2 ^ 64" using assms(2) by (simp_all add: heap_ready_def)
  obtain p s' where k: "kmalloc sz s = Some (p, s')" "keeps (live_data bs) s s'"
    and r: "if p = 0 then heap_inv bs s' \<and> heap_end s' = heap_end s \<and> total_allocated s' = total_allocated s
          \<and> find_fit (kmalloc_size sz) (free_list s) s = Some 0 \<and> fst (heap_expand (kmalloc_size sz) s) = 0
        else allocated bs (unat sz) s p s'"
    using kmalloc_spec[OF bs rd] by blast
  note ck = contents_keeps[OF bs k(2)]
  show thesis
  proof (cases "p = 0")
    case True
    then have "heap_holds M s'" using r D M ck by (auto simp: heap_holds_def)
    then show thesis using fail k r True by simp
  next
    case False
    then obtain bs' b n where b: "heap_inv bs' s'" "p = of_nat b + 8" "unat sz + 8 \<le> n" "live bs' = insert (b, n) (live bs)" "(b, n) \<notin> live bs"
      and tot: "total_allocated s' = total_allocated s + of_nat (n - 8)"
      using r by (auto simp: allocated_def)
    have n: "(b, n) \<in> live bs'" using b(4) by simp
    note l = live_block[OF b(1) n]
    have up: "unat p = b + 8" using word_off[of b 8] l b(2) by simp
    have fresh: "(b, m) \<notin> live bs" for m
    proof
      assume m: "(b, m) \<in> live bs"
      then have "(b, n) = (b, m) \<or> b + n \<le> b \<or> b + m \<le> b" using live_apart[OF b(1) n, of b m] b(4) by simp
      then show False using b(5) m l live_block[OF bs m] by auto
    qed
    let ?c = "contents s' (b + 8) (n - 8)"
    have p: "unat p \<notin> dom M" using D fresh up by auto
    have len: "length ?c = n - 8" by (simp add: contents_def)
    have "(M(unat p \<mapsto> ?c)) (b' + 8) = Some (contents s' (b' + 8) (n' - 8))" if "(b', n') \<in> live bs'" for b' n'
    proof (cases "(b', n') = (b, n)")
      case False
      then have "(b', n') \<in> live bs" using that b(4) by blast
      then show ?thesis using fresh M ck up by auto
    qed (use up in simp)
    moreover have "dom (M(unat p \<mapsto> ?c)) = (\<lambda>(b, n). b + 8) ` live bs'" using b(4) D up by auto
    ultimately have h: "heap_holds (M(unat p \<mapsto> ?c)) s'" using b(1) unfolding heap_holds_def by blast
    have "(b + 8) mod 16 = 8" using l by (auto elim!: dvdE)
    then show thesis using ok[OF k(1) False p _ h] up len l b(3) tot by auto
  qed
qed

lemma live_addr_unique:
  assumes "heap_inv bs s" "(b, n) \<in> live bs" "(b, m) \<in> live bs"
  shows "n = m"
  using live_apart[OF assms] live_block[OF assms(1,2)] live_block[OF assms(1,3)] by auto

lemma heap_holdsE:
  assumes "heap_holds M s" "M a = Some c"
  obtains bs b n where "heap_inv bs s" "(b, n) \<in> live bs" "a = b + 8" "c = contents s (b + 8) (n - 8)"
    "dom M = (\<lambda>(b, n). b + 8) ` live bs" "\<And>b n. (b, n) \<in> live bs \<Longrightarrow> M (b + 8) = Some (contents s (b + 8) (n - 8))"
proof -
  obtain bs where bs: "heap_inv bs s" "dom M = (\<lambda>(b, n). b + 8) ` live bs"
    and M: "\<And>b n. (b, n) \<in> live bs \<Longrightarrow> M (b + 8) = Some (contents s (b + 8) (n - 8))"
    using assms(1) by (auto simp: heap_holds_def)
  have "a \<in> dom M" using assms(2) by auto
  then obtain b n where b: "(b, n) \<in> live bs" "a = b + 8" using bs(2) by auto
  then have "c = contents s (b + 8) (n - 8)" using M assms(2) by simp
  then show thesis using that bs b M by blast
qed

lemma data_addr:
  assumes "heap_inv bs s" "(b, n) \<in> live bs" "i < n - 8"
  shows "unat (of_nat (b + 8 + i) :: u64) = b + 8 + i"
proof -
  have "b + (8 + i) < 2 ^ 64" using live_block[OF assms(1,2)] assms(3) by linarith
  then show ?thesis using word_off[of b "8 + i"] by (simp add: add.assoc)
qed

lemma heap_release_ok:
  assumes "heap_holds M s" "M (unat p) = Some c"
  shows "heap_holds (M(unat p := None)) (kfree p s)"
proof -
  obtain bs b n where b: "heap_inv bs s" "(b, n) \<in> live bs" "unat p = b + 8"
    and D: "dom M = (\<lambda>(b, n). b + 8) ` live bs" and M: "\<And>b n. (b, n) \<in> live bs \<Longrightarrow> M (b + 8) = Some (contents s (b + 8) (n - 8))"
    using heap_holdsE[OF assms] by metis
  obtain us vs where us: "bs = us @ (b, n, False) # vs" using b(2) by (auto simp: live_def dest: split_list)
  have "of_nat (unat p) = p" by simp
  then have p: "p = of_nat b + 8" using b(3) by (metis of_nat_add of_nat_numeral)
  note K = kfree_spec[OF b(1)[unfolded us], folded p]
  obtain xs where H: "heap_lists bs xs s" using b(1) by (auto simp: heap_inv_def)
  have nin: "(b, m) \<notin> live (us @ vs)" for m
  proof
    assume m: "(b, m) \<in> live (us @ vs)"
    then have "(b, m) \<in> live bs" by (auto simp: live_def us)
    moreover have "b + m \<le> b \<or> b + n \<le> b"
      using m H tiles_around[of "qw s" "unat (heap_start s)" us b n False vs "unat (heap_end s)" b m False]
      by (auto simp: heap_wf_def live_def us)
    ultimately show False using live_block[OF b(1,2)] live_block[OF b(1), of b m] by auto
  qed
  have L: "live (us @ merge b n vs) = live (us @ vs)" by (auto simp: live_def merge_def split: list.splits bool.splits)
  have L2: "live bs = insert (b, n) (live (us @ vs))" by (auto simp: live_def us)
  have ck: "contents (kfree p s) (b' + 8) (n' - 8) = contents s (b' + 8) (n' - 8)" if m: "(b', n') \<in> live (us @ vs)" for b' n'
  proof -
    have "of_nat (b' + 8 + i) \<in> live_data (us @ vs)" if "i < n' - 8" for i
      using data_addr[OF b(1), of b' n' i] m L2 that by (force simp: live_data_def live_def)
    then show ?thesis using K by (simp add: contents_def keeps_def del: of_nat_add)
  qed
  have "(M(unat p := None)) (b' + 8) = Some (contents (kfree p s) (b' + 8) (n' - 8))" if "(b', n') \<in> live (us @ vs)" for b' n'
    using that nin ck M L2 b(3) by auto
  moreover have "dom (M(unat p := None)) = (\<lambda>(b, n). b + 8) ` live (us @ vs)" using D L2 nin b(3) by auto
  ultimately show ?thesis using K unfolding heap_holds_def L[symmetric] by blast
qed

lemma quads_byte:
  assumes "unat a + 8 \<le> 2 ^ 64" "\<not> (unat a \<le> unat x \<and> unat x < unat a + 8)"
  shows "quads (m(x := v)) a = quads m a"
proof -
  have "(load_le (m(x := v)) a 8 :: u64) = load_le m a 8"
  proof (rule load_le_cong)
    fix j :: nat assume j: "j < 8"
    then have "unat (a + of_nat j) = unat a + j" using assms(1) by (intro unat_plus_offset) auto
    then show "(m(x := v)) (a + of_nat j) = m (a + of_nat j)" using assms(2) j by auto
  qed
  then show ?thesis by (simp only: quads_def load64_def)
qed

lemma put_byte_inv:
  assumes I: "heap_inv bs s" and x: "x \<in> live_data bs"
  shows "heap_inv bs (put_byte x v s)"
proof -
  obtain xs where H: "heap_lists bs xs s" and X: "set xs = of_nat ` faddrs bs" using I by (auto simp: heap_inv_def)
  obtain c m where c: "(c, m, False) \<in> set bs" "c + 8 \<le> unat x" "unat x < c + m" using x by (auto simp: live_data_def)
  let ?Q = "quads ((hmem s)(x := v))"
  have "?Q (of_nat b) = qw s (of_nat b)" if "(b, n, f) \<in> set bs" for b n f
  proof (rule quads_byte)
    note h = heap_block[OF H that]
    show "unat (of_nat b :: u64) + 8 \<le> 2 ^ 64" using h(1,5,8) by linarith
    show "\<not> (unat (of_nat b :: u64) \<le> unat x \<and> unat x < unat (of_nat b :: u64) + 8)"
      using block_apart[OF H that c(1)] c(2,3) h(1,5) by auto
  qed
  then have "tiles ?Q (unat (heap_start s)) bs (unat (heap_end s))"
    using H tiles_frame[of bs ?Q "qw s"] unfolding heap_wf_def by blast
  moreover have "dll ?Q 0 (free_list s) xs = dll (qw s) 0 (free_list s) xs"
  proof (rule dll_frame)
    fix y assume "y \<in> set xs"
    note f = free_node[OF H disjI2[OF this]]
    have u: "unat (y + of_nat 8) = unat y + 8" "unat (y + of_nat 16) = unat y + 16"
      using f(2) by (intro unat_plus_offset, simp)+
    have nb: "\<not> (unat y \<le> unat x \<and> unat x < unat y + 24)" using f(3)[OF x] by (simp add: body_def)
    show "?Q (y + 8) = qw s (y + 8) \<and> ?Q (y + 16) = qw s (y + 16)"
      using nb u f(2) by (intro conjI quads_byte) auto
  qed
  ultimately show ?thesis using H X I unfolding heap_inv_def put_byte_def heap_wf_def by auto
qed

lemma heap_put_ok:
  assumes "heap_holds M s" "M a = Some c" "i < length c"
  shows "heap_holds (M(a \<mapsto> c[i := v])) (put_byte (of_nat (a + i)) v s)"
proof -
  obtain bs b n where b: "heap_inv bs s" "(b, n) \<in> live bs" "a = b + 8" "c = contents s (b + 8) (n - 8)"
    and D: "dom M = (\<lambda>(b, n). b + 8) ` live bs" and M: "\<And>b n. (b, n) \<in> live bs \<Longrightarrow> M (b + 8) = Some (contents s (b + 8) (n - 8))"
    using heap_holdsE[OF assms(1,2)] by metis
  let ?x = "of_nat (a + i) :: u64" and ?s = "put_byte (of_nat (a + i)) v s"
  have i: "i < n - 8" using assms(3) b(4) by (simp add: contents_def)
  have ux: "unat ?x = b + 8 + i" using data_addr[OF b(1,2) i] b(3) by simp
  have x: "?x \<in> live_data bs" using ux b(2) i by (force simp: live_data_def live_def)
  have c: "contents ?s (b' + 8) (n' - 8) = (if b' = b then c[i := v] else contents s (b' + 8) (n' - 8))" if m: "(b', n') \<in> live bs" for b' n'
  proof (rule nth_equalityI)
    show "length (contents ?s (b' + 8) (n' - 8)) = length (if b' = b then c[i := v] else contents s (b' + 8) (n' - 8))"
      using live_addr_unique[OF b(1,2)] m by (auto simp: b(4) contents_def)
  next
    fix j assume "j < length (contents ?s (b' + 8) (n' - 8))"
    then have j: "j < n' - 8" by (simp add: contents_def)
    have uj: "unat (of_nat (b' + 8 + j) :: u64) = b' + 8 + j" by (rule data_addr[OF b(1) m j])
    have "(of_nat (b' + 8 + j) :: u64) = ?x \<longleftrightarrow> b' + 8 + j = b + 8 + i" using uj ux b(3) by metis
    also have "\<dots> \<longleftrightarrow> b' = b \<and> j = i" using live_apart[OF b(1) m b(2)] i j by auto
    finally have "hmem ?s (of_nat (b' + 8 + j)) = (if b' = b \<and> j = i then v else hmem s (of_nat (b' + 8 + j)))"
      by (simp add: put_byte_def del: of_nat_add)
    moreover have "n' = n" if "b' = b" using live_addr_unique[OF b(1,2)] m that by blast
    ultimately show "contents ?s (b' + 8) (n' - 8) ! j = (if b' = b then c[i := v] else contents s (b' + 8) (n' - 8)) ! j"
      using i j by (auto simp: contents_def b(4) nth_list_update simp del: of_nat_add)
  qed
  have "(M(a \<mapsto> c[i := v])) (b' + 8) = Some (contents ?s (b' + 8) (n' - 8))" if "(b', n') \<in> live bs" for b' n'
    using c[OF that] M[OF that] b(3) by auto
  moreover have "dom (M(a \<mapsto> c[i := v])) = (\<lambda>(b, n). b + 8) ` live bs" using D assms(2) by auto
  ultimately show ?thesis using put_byte_inv[OF b(1) x] unfolding heap_holds_def by blast
qed

interpretation kheap: object_store heap_holds kmalloc kfree heap_ready hmem put_byte
proof
  fix M :: "nat \<Rightarrow> u8 list option" and s :: "'a heap_state_scheme" and sz :: u64
  assume "heap_holds M s" "heap_ready sz s"
  then show "\<exists>p s'. kmalloc sz s = Some (p, s') \<and> (if p = 0 then heap_holds M s'
      else unat p \<notin> dom M \<and> (\<exists>c. unat sz \<le> length c \<and> heap_holds (M(unat p \<mapsto> c)) s'))"
    by (cases rule: kmalloc_cases) (simp_all del: fun_upd_apply, blast)
next
  fix M :: "nat \<Rightarrow> u8 list option" and s :: "'a heap_state_scheme" and p :: u64 and c
  assume "heap_holds M s" "M (unat p) = Some c"
  then show "heap_holds (M(unat p := None)) (kfree p s)" by (rule heap_release_ok)
next
  fix M :: "nat \<Rightarrow> u8 list option" and s :: "'a heap_state_scheme" and a c i v
  assume "heap_holds M s" "M a = Some c" "i < length c"
  then show "heap_holds (M(a \<mapsto> c[i := v])) (put_byte (of_nat (a + i)) v s)" by (rule heap_put_ok)
next
  fix M :: "nat \<Rightarrow> u8 list option" and s :: "'a heap_state_scheme" and a c i
  assume "heap_holds M s" "M a = Some c" "i < length c"
  then show "hmem s (of_nat (a + i)) = c ! i" by (auto elim!: heap_holdsE simp: contents_def)
next
  fix M :: "nat \<Rightarrow> u8 list option" and s :: "'a heap_state_scheme" and a c a' c'
  assume h: "heap_holds M s" "M a = Some c" "M a' = Some c'" "a \<noteq> a'"
  obtain bs b n where b: "heap_inv bs s" "(b, n) \<in> live bs" "a = b + 8" "c = contents s (b + 8) (n - 8)"
    and D: "dom M = (\<lambda>(b, n). b + 8) ` live bs" and M: "\<And>b n. (b, n) \<in> live bs \<Longrightarrow> M (b + 8) = Some (contents s (b + 8) (n - 8))"
    using heap_holdsE[OF h(1,2)] by metis
  have "a' \<in> dom M" using h(3) by auto
  then obtain b' n' where b': "(b', n') \<in> live bs" "a' = b' + 8" using D by auto
  have "c' = contents s (b' + 8) (n' - 8)" using M[OF b'(1)] b'(2) h(3) by simp
  then show "a + length c \<le> a' \<or> a' + length c' \<le> a"
    using live_apart[OF b(1,2) b'(1)] h(4) b(3,4) b'(2) live_block[OF b(1,2)] live_block[OF b(1) b'(1)] by (auto simp: contents_def)
qed

end
