(* ===== verification/Heap_Calls.thy ===== *)
theory Heap_Calls
  imports Heap_Store
begin

text \<open>
  The calls of the kernel heap as its clients see them: reallocation, the initialisation of the
  heap on a running page mapper, runs of calls over the object store, and the properties of
  \<^verbatim>\<open>kheap_init\<close>, \<^verbatim>\<open>kmalloc\<close>, \<^verbatim>\<open>kfree\<close> and \<^verbatim>\<open>krealloc\<close>.
\<close>

section \<open>Callers of the allocator\<close>

lemma holds_object:
  assumes "heap_holds M s" "M (unat p) = Some c"
  shows "block_size s (data_to_block p) = of_nat (length c + 8)" "length c + 8 < 2 ^ 64" "24 \<le> length c"
    "16 dvd length c + 8" "unat p + length c < 2 ^ 64" "p \<noteq> 0"
proof -
  obtain bs b n where b: "heap_inv bs s" "(b, n) \<in> live bs" "unat p = b + 8" "c = contents s (b + 8) (n - 8)"
    using heap_holdsE[OF assms] by metis
  obtain xs where H: "heap_lists bs xs s" using b(1) by (auto simp: heap_inv_def)
  have m: "(b, n, False) \<in> set bs" using b(2) by (simp add: live_def)
  note l = live_block[OF b(1,2)]
  have "of_nat (unat p) = p" by simp
  then have p: "p = of_nat b + 8" using b(3) by (metis of_nat_add of_nat_numeral)
  have len: "length c + 8 = n" using b(4) l by (simp add: contents_def)
  show "block_size s (data_to_block p) = of_nat (length c + 8)" unfolding len
    using hdr_fields(2)[OF H m] by (simp add: p data_to_block_def HEADER_SIZE_def)
  show "length c + 8 < 2 ^ 64" "24 \<le> length c" "16 dvd length c + 8" "unat p + length c < 2 ^ 64"
    using len l b(3) by auto
  show "p \<noteq> 0" using b(3) by auto
qed

lemma merge_head: "\<exists>m. (b, m, True) \<in> set (merge b n vs)"
  by (auto simp: merge_def split: list.split prod.split bool.split)

lemma kfree_full:
  assumes "heap_holds M s" "M (unat p) = Some c"
  shows "heap_holds (M(unat p := None)) (kfree p s)"
    "total_allocated (kfree p s) = total_allocated s - of_nat (length c)"
    "total_free (kfree p s) = total_free s + of_nat (length c)"
    "kfree p (kfree p s) = kfree p s"
proof -
  show "heap_holds (M(unat p := None)) (kfree p s)" by (rule kheap.release_ok[OF assms])
  obtain bs b n where b: "heap_inv bs s" "(b, n) \<in> live bs" "unat p = b + 8" "c = contents s (b + 8) (n - 8)"
    using heap_holdsE[OF assms] by metis
  obtain us vs where us: "bs = us @ (b, n, False) # vs" using b(2) by (auto simp: live_def dest: split_list)
  have "of_nat (unat p) = p" by simp
  then have p: "p = of_nat b + 8" using b(3) by (metis of_nat_add of_nat_numeral)
  note K = kfree_spec[OF b(1)[unfolded us], folded p]
  have len: "length c = n - 8" using b(4) by (simp add: contents_def)
  show "total_allocated (kfree p s) = total_allocated s - of_nat (length c)"
    "total_free (kfree p s) = total_free s + of_nat (length c)" using K unfolding len by blast+
  obtain xs where H: "heap_lists (us @ merge b n vs) xs (kfree p s)" using K by (auto simp: heap_inv_def)
  obtain m where m: "(b, m, True) \<in> set (us @ merge b n vs)" using merge_head[of b n vs] by auto
  have "data_to_block p = of_nat b" by (simp add: p data_to_block_def HEADER_SIZE_def)
  moreover have "p \<noteq> 0" using b(3) by auto
  ultimately show "kfree p (kfree p s) = kfree p s"
    using hdr_fields(3)[OF H m] unfolding kfree_def[of p "kfree p s"] by (simp add: Let_def)
qed

text \<open>The freed block absorbs the block behind it when that one is free.\<close>

lemma kfree_merges:
  assumes "heap_holds M s" "M (unat p) = Some c"
  shows "block_is_free (kfree p s) (data_to_block p)"
    "block_size (kfree p s) (data_to_block p) =
      (if next_block s (data_to_block p) < heap_end s \<and> block_is_free s (next_block s (data_to_block p))
       then block_size s (data_to_block p) + block_size s (next_block s (data_to_block p)) else block_size s (data_to_block p))"
proof -
  obtain bs b n where b: "heap_inv bs s" "(b, n) \<in> live bs" "unat p = b + 8" using heap_holdsE[OF assms] by metis
  obtain us vs where us: "bs = us @ (b, n, False) # vs" using b(2) by (auto simp: live_def dest: split_list)
  have "of_nat (unat p) = p" by simp
  then have p: "p = of_nat b + 8" using b(3) by (metis of_nat_add of_nat_numeral)
  have db: "data_to_block p = of_nat b" by (simp add: p data_to_block_def HEADER_SIZE_def)
  obtain xs where H: "heap_lists bs xs s" using b(1) by (auto simp: heap_inv_def)
  obtain ys where K: "heap_lists (us @ merge b n vs) ys (kfree p s)"
    using kfree_spec[OF b(1)[unfolded us], folded p] by (auto simp: heap_inv_def)
  have n: "block_size s (of_nat b) = of_nat n" using hdr_fields(2)[OF H, of b n False] us by simp
  have nx: "next_block s (of_nat b) = of_nat (b + n)" by (simp add: next_block_def n)
  show "block_is_free (kfree p s) (data_to_block p)" unfolding db
    using hdr_fields(3)[OF K, of b _ True] merge_head[of b n vs] by auto
  show "block_size (kfree p s) (data_to_block p) =
      (if next_block s (data_to_block p) < heap_end s \<and> block_is_free s (next_block s (data_to_block p))
       then block_size s (data_to_block p) + block_size s (next_block s (data_to_block p)) else block_size s (data_to_block p))"
  proof (cases vs)
    case Nil
    then have "b + n = unat (heap_end s)" using H by (auto simp: heap_wf_def us tiles_append)
    then have "of_nat (b + n) = heap_end s" by simp
    then show ?thesis using hdr_fields(2)[OF K, of b n True] unfolding db nx n by (simp add: merge_def Nil)
  next
    case (Cons v vs')
    obtain d m f where v: "v = (d, m, f)" by (cases v) auto
    have d: "d = b + n" using H by (auto simp: heap_wf_def us tiles_append Cons v)
    have m: "(d, m, f) \<in> set bs" by (simp add: us Cons v)
    have "of_nat d < heap_end s" using heap_block(1,5,7)[OF H m] by (simp add: word_less_nat_alt)
    then show ?thesis using hdr_fields(2,3)[OF H m] hdr_fields(2)[OF K, of b n True] hdr_fields(2)[OF K, of b "n + m" True] unfolding db nx n
      by (cases f) (auto simp: merge_def Cons v d)
  qed
qed

text \<open>
  Requests of 1 to 8 bytes fall outside \<open>heap_ready\<close> because they get a header of 24, which is not a multiple of 16
  and reads back as 16.
\<close>

lemma kmalloc_small_misread:
  assumes "sz \<noteq> 0" "sz \<le> 8" "blk_addr b"
  shows "kmalloc_size sz = 24" "block_size (set_hdr b (kmalloc_size sz) s) b = 16"
proof -
  have "unat sz \<noteq> 0" "unat sz \<le> 8" using assms by (simp_all add: unat_eq_zero word_le_nat_alt)
  then have "unat sz \<in> {1, 2, 3, 4, 5, 6, 7, 8}" by auto
  then have "sz \<in> {1, 2, 3, 4, 5, 6, 7, 8}" by (auto simp: word_unat_eq_iff)
  then show k: "kmalloc_size sz = 24"
    by (auto simp: kmalloc_size_def align_up_def HEADER_SIZE_def FREE_BLOCK_SIZE_def)
  show "block_size (set_hdr b (kmalloc_size sz) s) b = 16"
    using assms(3) by (simp add: k block_size_def field_reads field_writes SIZE_MASK_def)
qed

text \<open>The library's byte loops, as runs of single stores.\<close>

lemma memset_puts:
  "s\<lparr>hmem := memset (hmem s) (of_nat a) v n\<rparr> = fold (\<lambda>i. put_byte (of_nat (a + i)) v) [0..<unat n] s"
proof -
  have "fold (\<lambda>i. put_byte (of_nat (a + i)) v) is s = s\<lparr>hmem := fold (\<lambda>i m. m(of_nat a + of_nat i := v)) is (hmem s)\<rparr>" for "is" and s :: "'a heap_state_scheme"
    by (induction "is" arbitrary: s) (simp_all add: put_byte_def)
  then show ?thesis by (simp add: memset_def)
qed

lemma memcpy_puts:
  "s\<lparr>hmem := memcpy (hmem s) (of_nat a') (of_nat a) n\<rparr>
    = fold (\<lambda>i s. put_byte (of_nat (a' + i)) (hmem s (of_nat (a + i))) s) [0..<unat n] s"
proof -
  have "fold (\<lambda>i s. put_byte (of_nat (a' + i)) (hmem s (of_nat (a + i))) s) is s
    = s\<lparr>hmem := fold (\<lambda>i m. m(of_nat a' + of_nat i := m (of_nat a + of_nat i))) is (hmem s)\<rparr>" for "is" and s :: "'a heap_state_scheme"
    by (induction "is" arbitrary: s) (simp_all add: put_byte_def)
  then show ?thesis by (simp add: memcpy_def)
qed

lemma krealloc_cases:
  assumes h: "heap_holds M s" "M (unat ptr) = Some c" and r: "heap_ready sz s"
  obtains (keep) "krealloc ptr sz s = Some (ptr, s)" "unat sz \<le> length c"
  | (fail) s' where "krealloc ptr sz s = Some (0, s')" "heap_holds M s'" "length c < unat sz"
  | (move) p s' c' where "krealloc ptr sz s = Some (p, s')" "p \<noteq> 0" "unat p \<notin> dom M" "unat sz \<le> length c'"
      "take (length c) c' = c" "heap_holds (M(unat ptr := None, unat p \<mapsto> c')) s'"
proof -
  note o = holds_object[OF h]
  have rd: "9 \<le> unat sz" "unat sz + 23 < 2 ^ 64" using r by (simp_all add: heap_ready_def)
  note t = kmalloc_size_spec[OF rd]
  have al: "align_up (HEADER_SIZE + sz) = kmalloc_size sz"
    using t(4) unfolding kmalloc_size_def by (auto simp: Let_def FREE_BLOCK_SIZE_def split: if_splits)
  have old: "block_size s (data_to_block ptr) - HEADER_SIZE = of_nat (length c)" using o(1) by (simp add: HEADER_SIZE_def)
  have sz0: "sz \<noteq> 0" using rd(1) by auto
  have fit: "kmalloc_size sz \<le> block_size s (data_to_block ptr) \<longleftrightarrow> unat (kmalloc_size sz) \<le> length c + 8"
    using o(2) by (simp add: o(1) word_le_nat_alt unsigned_of_nat take_bit_nat_eq_self del: of_nat_add)
  show thesis
  proof (cases "unat (kmalloc_size sz) \<le> length c + 8")
    case True
    then show thesis using keep o(6) sz0 fit al t(2) by (simp add: krealloc_def Let_def)
  next
    case False
    have lt: "length c < unat sz"
    proof -
      have "length c + 8 + 16 \<le> unat (kmalloc_size sz)" using False o(4) t(1) by (auto elim!: dvdE)
      then show ?thesis using t(3) by linarith
    qed
    have cs: "of_nat (length c) < sz"
      using lt o(2) by (simp add: word_less_nat_alt unsigned_of_nat take_bit_nat_eq_self)
    have nf: "\<not> kmalloc_size sz \<le> block_size s (data_to_block ptr)" using False fit by simp
    from h(1) r show thesis
    proof (cases rule: kmalloc_cases)
      case (fail s')
      then show thesis using that(2)[of s'] lt o(6) sz0 nf al by (simp add: krealloc_def Let_def)
    next
      case (ok p s' d)
      let ?M = "M(unat p \<mapsto> d)"
      let ?s2 = "s'\<lparr>hmem := memcpy (hmem s') p ptr (of_nat (length c))\<rparr>"
      have ne: "unat ptr \<noteq> unat p" using ok(3) h(2) by auto
      have k: "unat (of_nat (length c) :: u64) = length c" using o(2) by (simp add: unsigned_of_nat take_bit_nat_eq_self)
      have C: "heap_holds (?M(unat p \<mapsto> take (length c) c @ drop (length c) d))
         (fold (\<lambda>i s. put_byte (of_nat (unat p + i)) (hmem s (of_nat (unat ptr + i))) s) [0..<length c] s')"
        by (rule kheap.copy_ok[OF ok(5)]) (use h(2) ne lt ok(4) in auto)
      have F: "fold (\<lambda>i s. put_byte (of_nat (unat p + i)) (hmem s (of_nat (unat ptr + i))) s) [0..<length c] s' = ?s2"
        using memcpy_puts[of s' "unat p" "unat ptr" "of_nat (length c)"] by (simp add: k)
      let ?d = "c @ drop (length c) d"
      have C2: "heap_holds (M(unat p \<mapsto> ?d)) ?s2" using C F by simp
      have R: "heap_holds ((M(unat p \<mapsto> ?d))(unat ptr := None)) (kfree ptr ?s2)"
        by (rule kheap.release_ok[OF C2]) (use h(2) ne in simp)
      have "krealloc ptr sz s = Some (p, kfree ptr ?s2)"
        using ok(1,2) o(6) sz0 nf al cs old by (simp add: krealloc_def Let_def)
      then show thesis using that(3)[of p "kfree ptr ?s2" ?d] ok(2,3,4) lt R ne by (simp add: fun_upd_twist)
    qed
  qed
qed

section \<open>Backing the heap with pages\<close>

lemma map_fresh_page:
  assumes inv: "vm_inv D s" and va: "(r, PML4_INDEX va) \<in> D" and n: "4 \<le> card (avail_pages s)"
  obtains phys s1 s2 where "pmm_alloc s = (phys, s1)" "phys \<noteq> PMM_ALLOC_FAILED"
    "vmm_map_page r va phys (PTE_PRESENT OR PTE_WRITABLE) s1 = (0, s2)" "vm_inv D s2" "card (avail_pages s) \<le> card (avail_pages s2) + 4"
    "\<And>va'. (r, PML4_INDEX va') \<in> D \<Longrightarrow> vmm_get_pte_flags r va' s = 3 \<or> va' = va \<Longrightarrow> vmm_get_pte_flags r va' s2 = 3"
proof -
  have i: "pmm_inv s" and wf: "pt_wf D (avail_pages s) (tabs s)" and tp: "total_pages s \<le> 2 ^ 40" using inv by (auto simp: vm_inv_def)
  obtain phys s1 where p: "pmm_alloc s = (phys, s1)" by (cases "pmm_alloc s")
  have ne: "avail_pages s \<noteq> {}" using n by auto
  note t = pmm.alloc_takes[OF i ne]
  have ph: "phys \<noteq> PMM_ALLOC_FAILED" using pmm.alloc_zero_iff[OF i] ne p by (simp add: PMM_ALLOC_FAILED_def)
  have av: "phys \<in> avail_pages s" "avail_pages s1 = avail_pages s - {phys}" using t p by auto
  have fin: "finite (avail_pages s)" using n card.infinite by force
  have c1: "card (avail_pages s1) = card (avail_pages s) - 1" using av fin by simp
  have ts: "tabs s1 = tabs s" "total_pages s1 = total_pages s" using tabs_pmm(1)[of s] pmm_alloc_frame(3)[of s] p by simp_all
  have inv1: "vm_inv D s1" using pmm.alloc_inv[OF i] p tp wf av unfolding vm_inv_def pt_wf_def ts by auto
  let ?f = "PTE_PRESENT OR PTE_WRITABLE"
  obtain rc s2 where m: "vmm_map_page r va phys ?f s1 = (rc, s2)" by (cases "vmm_map_page r va phys ?f s1")
  note S = vmm_map_page_spec[OF inv1 va m]
  have rc: "rc = 0" using S c1 n by auto
  have ok: "vm_inv D s2" "\<And>r' ix. on_leaf D r' ix \<Longrightarrow> pte (tabs s2) r' ix
           = (if r' = r \<and> ix = vidx va then (phys AND PTE_ADDR_MASK) OR ?f else pte (tabs s1) r' ix)"
    "avail_pages s2 \<subseteq> avail_pages s1" "card (avail_pages s1 - avail_pages s2) \<le> 3" using S rc by auto
  have "card (avail_pages s1) \<le> card (avail_pages s2) + 3"
    using ok(3,4) fin av(2) by (metis add.commute card_Diff_subset finite_Diff finite_subset le_diff_conv)
  then have card: "card (avail_pages s) \<le> card (avail_pages s2) + 4" using c1 by linarith
  have ra: "page_addr r" by (rule vm_inv_root[OF inv va])
  let ?e = "(phys AND PTE_ADDR_MASK) OR ?f"
  have "present ?f" by (simp add: present_def PTE_PRESENT_def PTE_WRITABLE_def)
  then have e1: "present ?e" by (simp add: present_or)
  have "?f AND NOT PTE_ADDR_MASK = 3" by (simp add: PTE_PRESENT_def PTE_WRITABLE_def PTE_ADDR_MASK_def)
  then have e: "present ?e" "?e AND NOT PTE_ADDR_MASK = 3" using e1 by (simp_all add: bit.conj_disj_distrib2 and.assoc)
  have "vmm_get_pte_flags r va' s2 = 3" if "(r, PML4_INDEX va') \<in> D" "vmm_get_pte_flags r va' s = 3 \<or> va' = va" for va'
    using that ok(2)[OF on_leaf_vidx[OF that(1)]] e by (auto simp: vmm_get_pte_flags_pte[OF ra] Let_def ts split: if_splits)
  then show thesis using that[OF p ph _ ok(1) card] m rc by blast
qed

lemma expand_pages_succeeds:
  assumes "vm_inv D s" "\<forall>i<n. (r, PML4_INDEX (heap_end s + of_nat i * PAGE_SIZE)) \<in> D" "4 * n \<le> card (avail_pages s)"
    "expand_pages n r al s = (ok, al', s')"
  shows "ok \<and> vm_inv D s' \<and> card (avail_pages s) \<le> card (avail_pages s') + 4 * n
    \<and> (\<forall>va. (r, PML4_INDEX va) \<in> D \<longrightarrow> vmm_get_pte_flags r va s = 3 \<longrightarrow> vmm_get_pte_flags r va s' = 3)
    \<and> (\<forall>i<n. vmm_get_pte_flags r (heap_end s + of_nat i * PAGE_SIZE) s' = 3)"
  using assms
proof (induction n arbitrary: al s)
  case (Suc n)
  let ?va = "heap_end s"
  have va: "(r, PML4_INDEX ?va) \<in> D" using Suc.prems(2)[rule_format, of 0] by simp
  obtain phys s1 s2 where m: "pmm_alloc s = (phys, s1)" "phys \<noteq> PMM_ALLOC_FAILED"
    "vmm_map_page r ?va phys (PTE_PRESENT OR PTE_WRITABLE) s1 = (0, s2)" "vm_inv D s2" "card (avail_pages s) \<le> card (avail_pages s2) + 4"
    and k: "\<And>va'. (r, PML4_INDEX va') \<in> D \<Longrightarrow> vmm_get_pte_flags r va' s = 3 \<or> va' = ?va \<Longrightarrow> vmm_get_pte_flags r va' s2 = 3"
    by (rule map_fresh_page[OF Suc.prems(1) va]) (use Suc.prems(3) in \<open>simp, blast\<close>)
  have he: "heap_end s1 = heap_end s" "heap_end s2 = heap_end s"
    using same_heap_more[of s1 s] pmm_alloc_frame[of s] m(1) same_heap_more[of s2 s1]
      more_vmm(5)[of r ?va phys "PTE_PRESENT OR PTE_WRITABLE" s1] m(3) by (auto simp: same_heap_def)
  let ?s3 = "s2\<lparr>heap_end := heap_end s2 + PAGE_SIZE\<rparr>"
  have nx: "heap_end ?s3 + of_nat i * PAGE_SIZE = heap_end s + of_nat (Suc i) * PAGE_SIZE" for i
    by (simp add: he algebra_simps)
  have e: "expand_pages n r (al @ [phys]) ?s3 = (ok, al', s')" using Suc.prems(4) m he by simp
  have ge: "get_entry ?s3 = get_entry s2" by (intro ext) (simp add: get_entry_def)
  have eqs: "avail_pages ?s3 = avail_pages s2" "vm_inv D ?s3"
    using m(4) by (simp_all add: avail_pages_def free_frames_def vm_inv_def pmm_inv_def tabs_cong[of ?s3 s2])
  have fl: "vmm_get_pte_flags r va ?s3 = vmm_get_pte_flags r va s2" for va
    unfolding vmm_get_pte_flags_def ge by (rule refl)
  have "\<forall>i<n. (r, PML4_INDEX (heap_end ?s3 + of_nat i * PAGE_SIZE)) \<in> D" unfolding nx using Suc.prems(2) by (auto simp del: of_nat_Suc)
  note IH = Suc.IH[OF eqs(2) this _ e, unfolded eqs(1) fl nx]
  have IH': "ok \<and> vm_inv D s' \<and> card (avail_pages s2) \<le> card (avail_pages s') + 4 * n
    \<and> (\<forall>va. (r, PML4_INDEX va) \<in> D \<longrightarrow> vmm_get_pte_flags r va s2 = 3 \<longrightarrow> vmm_get_pte_flags r va s' = 3)
    \<and> (\<forall>i<n. vmm_get_pte_flags r (heap_end s + of_nat (Suc i) * PAGE_SIZE) s' = 3)"
    by (rule IH) (use Suc.prems(3) m(5) in simp)
  have "vmm_get_pte_flags r (heap_end s + of_nat i * PAGE_SIZE) s' = 3" if "i < Suc n" for i
  proof (cases i)
    case 0
    then show ?thesis using IH' k[OF va] va by simp
  next
    case (Suc j)
    then show ?thesis using IH' that by (auto simp del: of_nat_Suc)
  qed
  then show ?case using IH' k m(5) by auto
qed simp

lemma init_pages_expand:
  "expand_pages n r al s = (True, al', s') \<Longrightarrow> init_pages n r s = (True, s')"
  by (induction n arbitrary: al s) (auto simp: Let_def split: prod.splits if_splits)

definition heap_root_ok :: "(u64 \<times> u64) set \<Rightarrow> u64 \<Rightarrow> nat \<Rightarrow> 'a heap_state_scheme \<Rightarrow> bool" where
  "heap_root_ok D start n s \<longleftrightarrow> vm_inv D s \<and> (\<forall>i<n. (kernel_pml4_phys s, PML4_INDEX (start + of_nat i * PAGE_SIZE)) \<in> D)
     \<and> 4 * n \<le> card (avail_pages s)"

lemma kheap_init_spec:
  assumes "heap_root_ok D 0xFFFFFFFF00000000 16 s"
  shows "\<exists>s'. kheap_init s = Some s' \<and> heap_inv [(0xFFFFFFFF00000000, 65536, True)] s' \<and> vm_inv D s'
    \<and> heap_start s' = 0xFFFFFFFF00000000 \<and> heap_end s' = 0xFFFFFFFF00010000
    \<and> total_allocated s' = 0 \<and> total_free s' = 65528
    \<and> (\<forall>i<16. vmm_get_pte_flags (kernel_pml4_phys s) (0xFFFFFFFF00000000 + of_nat i * PAGE_SIZE) s' = 3)"
proof -
  let ?hs = "0xFFFFFFFF00000000 :: u64"
  let ?s0 = "s\<lparr>heap_start := ?hs, heap_end := ?hs, free_list := 0, total_allocated := 0, total_free := 0\<rparr>"
  let ?r = "kernel_pml4_phys s"
  have inv0: "vm_inv D ?s0" "avail_pages ?s0 = avail_pages s"
    using assms by (simp_all add: heap_root_ok_def avail_pages_def free_frames_def vm_inv_def pmm_inv_def tabs_cong[of ?s0 s])
  obtain ok al s1 where e: "expand_pages 16 ?r [] ?s0 = (ok, al, s1)" by (cases "expand_pages 16 ?r [] ?s0") auto
  note X = expand_pages_succeeds[OF inv0(1) _ _ e] and F = expand_pages_frame[OF e]
  have X': "ok" "vm_inv D s1" "\<forall>i<16. vmm_get_pte_flags ?r (?hs + of_nat i * PAGE_SIZE) s1 = 3"
    using X assms inv0(2) by (auto simp: heap_root_ok_def)
  have s1: "hmem s1 = hmem s" "heap_start s1 = ?hs" "free_list s1 = 0" "total_allocated s1 = 0" "heap_end s1 = ?hs + 65536"
    using F X'(1) by (simp_all add: same_heap_def PAGE_SIZE_def)
  let ?s2 = "set_hdr ?hs (65536 OR BLOCK_FREE) s1"
  let ?s3 = "(set_fb_prev ?hs 0 (set_fb_next ?hs 0 ?s2))\<lparr>free_list := ?hs, total_free := 65528\<rparr>"
  have k: "kheap_init s = Some ?s3"
    using init_pages_expand[of 16 ?r "[]" ?s0 al s1] e X'(1) s1(2)
    by (simp add: kheap_init_def Let_def vmm_get_kernel_pml4_def INITIAL_HEAP_PAGES_def PAGE_SIZE_def HEADER_SIZE_def)
  have bh: "blk_addr ?hs" by simp
  have tag: "65536 OR BLOCK_FREE = tag 65536 True" using tag_bits(5)[of 65536] by simp
  have Q: "qw ?s3 = (qw s1)(?hs := tag 65536 True, ?hs + 8 := 0, ?hs + 16 := 0)"
    by (simp add: tag field_writes[OF bh, simplified] del: fun_upd_apply)
  have "heap_lists [(0xFFFFFFFF00000000, 65536, True)] [?hs] ?s3"
    unfolding heap_wf_def Q by (simp add: s1 faddrs_def)
  moreover have "tabs ?s3 = tabs s1" by (rule tabs_cong) (simp add: set_fb_prev_def set_fb_next_def set_hdr_def)
  then have "vm_inv D ?s3" using X'(2)
    by (simp add: avail_pages_def free_frames_def vm_inv_def pmm_inv_def set_fb_prev_def set_fb_next_def set_hdr_def)
  moreover have "get_entry ?s3 = get_entry s1" by (intro ext) (simp add: get_entry_def set_fb_prev_def set_fb_next_def set_hdr_def)
  then have "vmm_get_pte_flags ?r va ?s3 = vmm_get_pte_flags ?r va s1" for va by (simp only: vmm_get_pte_flags_def)
  ultimately show ?thesis using X'(3) s1 unfolding k heap_inv_def by (auto simp: faddrs_def)
qed

section \<open>Runs of heap operations\<close>

text \<open>
  A client's view \<open>V\<close> of the objects it holds: what it asked for, and what it stored there.
  \<open>store\<close> is any write of the client into one of its objects.
\<close>

inductive heap_run :: "'a heap_state_scheme \<Rightarrow> (nat \<Rightarrow> u8 list option) \<Rightarrow> 'a heap_state_scheme \<Rightarrow> bool" for s0 where
  start: "heap_run s0 Map.empty s0"
| malloc: "heap_run s0 V s \<Longrightarrow> heap_ready sz s \<Longrightarrow> kmalloc sz s = Some (p, s') \<Longrightarrow> p \<noteq> 0
    \<Longrightarrow> heap_run s0 (V(unat p \<mapsto> contents s' (unat p) (unat sz))) s'"
| zalloc: "heap_run s0 V s \<Longrightarrow> heap_ready sz s \<Longrightarrow> kzalloc sz s = Some (p, s') \<Longrightarrow> p \<noteq> 0
    \<Longrightarrow> heap_run s0 (V(unat p \<mapsto> replicate (unat sz) 0)) s'"
| nomem: "heap_run s0 V s \<Longrightarrow> heap_ready sz s \<Longrightarrow> kmalloc sz s = Some (0, s') \<Longrightarrow> heap_run s0 V s'"
| free: "heap_run s0 V s \<Longrightarrow> unat p \<in> dom V \<Longrightarrow> heap_run s0 (V(unat p := None)) (kfree p s)"
| store: "heap_run s0 V s \<Longrightarrow> V a = Some c \<Longrightarrow> i < length c \<Longrightarrow> heap_run s0 (V(a \<mapsto> c[i := v])) (put_byte (of_nat (a + i)) v s)"

lemma contents_holds:
  assumes "heap_holds M s" "M a = Some d" "k \<le> length d"
  shows "contents s a k = take k d"
  by (rule nth_equalityI) (use kheap.byte_ok[OF assms(1,2)] assms(3) in \<open>auto simp: contents_def simp del: of_nat_add\<close>)

definition view_of :: "(nat \<Rightarrow> u8 list option) \<Rightarrow> (nat \<Rightarrow> u8 list option) \<Rightarrow> bool" where
  "view_of V M \<longleftrightarrow> dom V = dom M \<and> (\<forall>a c. V a = Some c \<longrightarrow> (\<exists>d. M a = Some d \<and> length c \<le> length d \<and> c = take (length c) d))"

lemma view_of_upd:
  "view_of V M \<Longrightarrow> c = take (length c) d \<Longrightarrow> length c \<le> length d \<Longrightarrow> view_of (V(a \<mapsto> c)) (M(a \<mapsto> d))"
  "view_of V M \<Longrightarrow> view_of (V(a := None)) (M(a := None))"
  by (auto simp: view_of_def)

lemma heap_run_view:
  assumes "heap_run s0 V s" "heap_holds Map.empty s0"
  shows "\<exists>M. heap_holds M s \<and> view_of V M"
  using assms
proof (induction rule: heap_run.induct)
  case start
  then show ?case by (auto simp: view_of_def)
next
  case (malloc V s sz p s')
  then obtain M where M: "heap_holds M s" "view_of V M" by blast
  from M(1) malloc(2) show ?case
  proof (cases rule: kmalloc_cases)
    case (ok p' s'' c)
    then have e: "p' = p" "s'' = s'" using malloc(3) by auto
    have "contents s' (unat p) (unat sz) = take (unat sz) c" using contents_holds[of _ s' "unat p" c] ok(4,5) e by auto
    then show ?thesis using ok(4,5) view_of_upd(1)[OF M(2), of "take (unat sz) c" c "unat p"] e by (intro exI[of _ "M(unat p \<mapsto> c)"]) (simp del: fun_upd_apply)
  qed (use malloc in auto)
next
  case (zalloc V s sz p s')
  then obtain M where M: "heap_holds M s" "view_of V M" by blast
  from M(1) zalloc(2) show ?case
  proof (cases rule: kmalloc_cases)
    case (ok p' s'' c)
    have e: "p' = p" and s': "s' = s''\<lparr>hmem := memset (hmem s'') p 0 sz\<rparr>" using zalloc(3,4) ok(1,2) by (auto simp: kzalloc_def)
    have "heap_holds ((M(unat p \<mapsto> c))(unat p \<mapsto> replicate (unat sz) 0 @ drop (unat sz) c)) s'"
      using kheap.fill_ok[OF ok(5), of "unat p'" c "unat sz" 0] ok(4) memset_puts[of s'' "unat p" 0 sz] by (simp add: e s')
    then show ?thesis using view_of_upd(1)[OF M(2), of "replicate (unat sz) 0" "replicate (unat sz) 0 @ drop (unat sz) c" "unat p"]
      by (intro exI[of _ "M(unat p \<mapsto> replicate (unat sz) 0 @ drop (unat sz) c)"]) (simp del: fun_upd_apply)
  qed (use zalloc in \<open>auto simp: kzalloc_def\<close>)
next
  case (nomem V s sz s')
  then obtain M where M: "heap_holds M s" "view_of V M" by blast
  from M(1) nomem(2) show ?case by (cases rule: kmalloc_cases) (use nomem M in auto)
next
  case (free V s p)
  then obtain M where M: "heap_holds M s" "view_of V M" by blast
  then have "unat p \<in> dom M" using free(2) by (simp add: view_of_def)
  then show ?case using kheap.release_ok[OF M(1), of p] view_of_upd(2)[OF M(2)] by blast
next
  case (store V s a c i v)
  then obtain M where M: "heap_holds M s" "view_of V M" by blast
  then obtain d where d: "M a = Some d" "length c \<le> length d" "c = take (length c) d" using store(2) unfolding view_of_def by blast
  have "c[i := v] = take (length (c[i := v])) (d[i := v])" using d(3) by (metis length_list_update take_update_swap)
  then show ?case using kheap.put_ok[OF M(1) d(1), of i v] view_of_upd(1)[OF M(2), of "c[i := v]" "d[i := v]" a] store(3) d(2)
    by (intro exI[of _ "M(a \<mapsto> d[i := v])"]) (simp del: fun_upd_apply)
qed

text \<open>
  C18. In any run of \<^verbatim>\<open>kmalloc\<close>, \<^verbatim>\<open>kzalloc\<close>, \<^verbatim>\<open>kfree\<close> and stores by their owners, starting from an empty
  heap and with every allocation as in \<open>heap_ready\<close> (9 bytes or more, no wrap-around), every object reads back exactly what was last stored in it (zeros after \<^verbatim>\<open>kzalloc\<close>), no two
  objects share a byte, and no object is at address 0.
\<close>

theorem heap_run_objects:
  assumes "heap_holds Map.empty s0" "heap_run s0 V s"
  shows "(\<forall>a c i. V a = Some c \<longrightarrow> i < length c \<longrightarrow> hmem s (of_nat (a + i)) = c ! i)
    \<and> (\<forall>a c a' c'. V a = Some c \<longrightarrow> V a' = Some c' \<longrightarrow> a \<noteq> a' \<longrightarrow> a + length c \<le> a' \<or> a' + length c' \<le> a)
    \<and> V 0 = None"
proof -
  obtain M where M: "heap_holds M s" "view_of V M" using heap_run_view[OF assms(2,1)] by blast
  have "hmem s (of_nat (a + i)) = c ! i" if Va: "V a = Some c" "i < length c" for a c i
  proof -
    obtain d where d: "M a = Some d" "length c \<le> length d" "c = take (length c) d" using M(2) Va(1) unfolding view_of_def by blast
    have "hmem s (of_nat (a + i)) = d ! i" by (rule kheap.byte_ok[OF M(1) d(1)]) (use Va(2) d(2) in simp)
    also have "\<dots> = c ! i" using d(3) Va(2) by (metis nth_take)
    finally show ?thesis .
  qed
  moreover have "a + length c \<le> a' \<or> a' + length c' \<le> a" if Va: "V a = Some c" "V a' = Some c'" "a \<noteq> a'" for a c a' c'
  proof -
    obtain d d' where d: "M a = Some d" "length c \<le> length d" "M a' = Some d'" "length c' \<le> length d'"
      using M(2) Va(1,2) unfolding view_of_def by meson
    show ?thesis using kheap.apart[OF M(1) d(1,3) Va(3)] d(2,4) by linarith
  qed
  moreover have "V 0 = None"
  proof (rule ccontr)
    assume "V 0 \<noteq> None"
    then have "0 \<in> dom M" using M(2) unfolding view_of_def by blast
    then obtain d where "M 0 = Some d" by blast
    then show False by (auto elim: heap_holdsE[OF M(1)])
  qed
  ultimately show ?thesis by blast
qed

section \<open>A concrete kernel\<close>

definition witness_kernel :: heap_state where
  "witness_kernel = \<lparr>mem = (\<lambda>_. 0), g_hhdm_offset = 0xFFFF800000000000, bitmap = (\<lambda>_. 0)(0 := 3), bitmap_size = 16,
     total_pages = 128, free_pages = 126, usable_pages = 127, page_info = None, max_pages = 0,
     kernel_pml4_phys = 0x1000, cr3 = 0x1000, hmem = (\<lambda>_. 0), heap_start = 0, heap_end = 0, free_list = 0,
     total_allocated = 0, total_free = 0\<rparr>"

abbreviation witness_slots :: "(u64 \<times> u64) set" where "witness_slots \<equiv> {(0x1000, i) |i. i < 512}"

lemma witness_kernel_ok: "heap_root_ok witness_slots 0xFFFFFFFF00000000 16 witness_kernel"
proof -
  have u: "bitmap_is_used ((\<lambda>_. 0)(0 := 3)) p \<longleftrightarrow> unat p < 2" for p
  proof -
    have "(3 :: u8) = mask 2" by (simp add: mask_eq_exp_minus_1)
    then have "bit (3 :: u8) n \<longleftrightarrow> n < 2" if "n < 8" for n using that by (simp only: bit_mask_iff) simp
    moreover have "unat (p mod 8) < 8" by (simp add: unat_mod)
    moreover have "unat (p div 8) = unat p div 8" by (simp add: unat_div)
    then have "p div 8 = 0 \<longleftrightarrow> unat p div 8 = 0" by (metis unat_eq_0)
    ultimately show ?thesis by (simp add: bitmap_is_used_bit unat_mod) linarith
  qed
  have f: "free_frames witness_kernel = of_nat ` {2..<128}"
  proof (intro set_eqI iffI)
    fix p assume "p \<in> free_frames witness_kernel"
    then have "unat p \<in> {2..<128}" using u[of p] by (simp add: free_frames_def witness_kernel_def word_less_nat_alt)
    moreover have "p = of_nat (unat p)" by simp
    ultimately show "p \<in> of_nat ` {2..<128}" by blast
  next
    fix p assume "p \<in> (of_nat ` {2..<128} :: u64 set)"
    then obtain n where "p = of_nat n" "2 \<le> n" "n < 128" by auto
    then show "p \<in> free_frames witness_kernel"
      using u[of p] by (simp add: free_frames_def witness_kernel_def word_less_nat_alt unsigned_of_nat take_bit_nat_eq_self)
  qed
  have "inj_on (of_nat :: nat \<Rightarrow> u64) {2..<128}"
  proof (rule inj_onI)
    fix x y assume "x \<in> {2..<128 :: nat}" "y \<in> {2..<128 :: nat}" "(of_nat x :: u64) = of_nat y"
    then have "unat (of_nat x :: u64) = unat (of_nat y :: u64)" "x < 128" "y < 128" by simp_all
    then show "x = y" by (simp add: unsigned_of_nat take_bit_nat_eq_self)
  qed
  then have c: "card (free_frames witness_kernel) = 126" unfolding f by (simp add: card_image)
  have z: "0 \<notin> free_frames witness_kernel" "1 \<notin> free_frames witness_kernel"
    using u[of 0] u[of 1] by (simp_all add: free_frames_def witness_kernel_def)
  have pi: "pmm_inv witness_kernel" using c z by (simp add: pmm_inv_def) (simp add: witness_kernel_def)
  have ca: "card (avail_pages witness_kernel) = 126" using avail_card[OF pi] c by simp
  have t: "tabs witness_kernel = (\<lambda>_ _. 0)" by (intro ext) (simp add: tabs_def get_entry_def witness_kernel_def)
  have w: "walk (\<lambda>_ _. 0) r p = Some t \<longleftrightarrow> p = [] \<and> t = r" for r p t by (cases p) auto
  have na: "0x1000 \<notin> avail_pages witness_kernel"
  proof
    assume "0x1000 \<in> avail_pages witness_kernel"
    then obtain p where p: "p \<in> free_frames witness_kernel" "p * PAGE_SIZE = 1 * PAGE_SIZE" by (auto simp: avail_pages_def PAGE_SIZE_def)
    moreover have "p < 2 ^ 52" using p(1) by (auto simp: free_frames_def witness_kernel_def word_less_nat_alt)
    ultimately have "p = 1" using frame_address_inj[of p 1] by simp
    then show False using p(1) z(2) by simp
  qed
  have "pt_wf witness_slots (avail_pages witness_kernel) (tabs witness_kernel)"
    unfolding t pt_wf_def w using na by (auto simp: on_path_def)
  then show ?thesis using pi ca by (simp add: heap_root_ok_def vm_inv_def witness_kernel_def)
qed

definition witness_heap :: heap_state where
  "witness_heap = the (kheap_init witness_kernel)"

lemma witness_heap_ok:
  "heap_holds Map.empty witness_heap" "heap_end witness_heap = 0xFFFFFFFF00010000" "total_allocated witness_heap = 0"
  "heap_ready 100 witness_heap" "find_fit (kmalloc_size 100) (free_list witness_heap) witness_heap = Some 0xFFFFFFFF00000000"
proof -
  have k: "heap_inv [(0xFFFFFFFF00000000, 65536, True)] witness_heap \<and> heap_end witness_heap = 0xFFFFFFFF00010000
    \<and> total_allocated witness_heap = 0"
    using kheap_init_spec[OF witness_kernel_ok] by (auto simp: witness_heap_def)
  have i: "heap_inv [(0xFFFFFFFF00000000, 65536, True)] witness_heap" using k by blast
  then show "heap_holds Map.empty witness_heap" unfolding heap_holds_def by (auto simp: live_def)
  show h: "heap_end witness_heap = 0xFFFFFFFF00010000" "total_allocated witness_heap = 0" using k by blast+
  show "heap_ready 100 witness_heap" unfolding heap_ready_def h by simp
  obtain xs where H: "heap_lists [(0xFFFFFFFF00000000, 65536, True)] xs witness_heap"
    and X: "set xs = of_nat ` faddrs [(0xFFFFFFFF00000000, 65536, True)]" using i by (auto simp: heap_inv_def)
  have "distinct xs" "set xs = {0xFFFFFFFF00000000}" using H X by (auto simp: heap_wf_def faddrs_def)
  then have xs: "xs = [0xFFFFFFFF00000000]" by (cases xs; cases "tl xs") auto
  have b: "block_size witness_heap 0xFFFFFFFF00000000 = 65536" using hdr_fields(2)[OF H, of "0xFFFFFFFF00000000" 65536 True] by simp
  show "find_fit (kmalloc_size 100) (free_list witness_heap) witness_heap = Some 0xFFFFFFFF00000000"
    using find_fit_spec[of witness_heap 0 "free_list witness_heap" xs "kmalloc_size 100"] H xs b
    by (simp add: heap_wf_def) (simp add: kmalloc_size_def align_up_def HEADER_SIZE_def FREE_BLOCK_SIZE_def)
qed

section \<open>Properties\<close>

text \<open>
  C14. With at least 64 available pages \<^verbatim>\<open>kheap_init\<close> succeeds: the heap is one free block of 16
  pages, holds no object and counts nothing allocated, and every page of it is mapped present and writable in
  the kernel's tables, which stay well-formed.
\<close>

theorem kheap_init_correct:
  assumes "vm_inv D s" "\<forall>i<16. (kernel_pml4_phys s, PML4_INDEX (0xFFFFFFFF00000000 + of_nat i * PAGE_SIZE)) \<in> D"
    "64 \<le> card (avail_pages s)"
  shows "\<exists>s'. kheap_init s = Some s' \<and> heap_holds Map.empty s' \<and> vm_inv D s'
    \<and> heap_start s' = 0xFFFFFFFF00000000 \<and> heap_end s' = 0xFFFFFFFF00010000
    \<and> kheap_get_used s' = 0 \<and> kheap_get_free s' = 65528
    \<and> (\<forall>i<16. vmm_get_pte_flags (kernel_pml4_phys s) (0xFFFFFFFF00000000 + of_nat i * PAGE_SIZE) s'
         = PTE_PRESENT OR PTE_WRITABLE)"
proof -
  have "heap_root_ok D 0xFFFFFFFF00000000 16 s" using assms by (simp add: heap_root_ok_def)
  from kheap_init_spec[OF this] obtain s' where e: "kheap_init s = Some s'"
    and k: "heap_inv [(0xFFFFFFFF00000000, 65536, True)] s'" "vm_inv D s'" "heap_start s' = 0xFFFFFFFF00000000"
      "heap_end s' = 0xFFFFFFFF00010000" "total_allocated s' = 0" "total_free s' = 65528"
      "\<forall>i<16. vmm_get_pte_flags (kernel_pml4_phys s) (0xFFFFFFFF00000000 + of_nat i * PAGE_SIZE) s' = 3" by blast
  have "heap_holds Map.empty s'" using k(1) unfolding heap_holds_def by (auto simp: live_def)
  then show ?thesis unfolding e using k by (simp add: kheap_get_used_def kheap_get_free_def PTE_PRESENT_def PTE_WRITABLE_def)
qed

theorem kheap_init_correct_witness: "\<exists>s. kheap_init witness_kernel = Some s \<and> kheap_get_free s = 65528"
  using kheap_init_correct[of witness_slots witness_kernel] witness_kernel_ok by (auto simp: heap_root_ok_def)



text \<open>
  C16. \<^verbatim>\<open>kfree\<close> of an object removes exactly that object: all others keep their contents, the used and
  free counters move by its length, and freeing it again changes nothing. Its block is marked free and coalesced
  forward: when the block behind it lies in the heap and is free the two become one block of their joint size,
  otherwise the block keeps its size.
\<close>

theorem kfree_correct:
  assumes "heap_holds M s" "M (unat p) = Some c"
  shows "heap_holds (M(unat p := None)) (kfree p s)
    \<and> kheap_get_used (kfree p s) = kheap_get_used s - of_nat (length c)
    \<and> kheap_get_free (kfree p s) = kheap_get_free s + of_nat (length c)
    \<and> kfree p (kfree p s) = kfree p s
    \<and> block_is_free (kfree p s) (data_to_block p)
    \<and> block_size (kfree p s) (data_to_block p) =
        (if next_block s (data_to_block p) < heap_end s \<and> block_is_free s (next_block s (data_to_block p))
         then block_size s (data_to_block p) + block_size s (next_block s (data_to_block p)) else block_size s (data_to_block p))"
  using kfree_full[OF assms] kfree_merges[OF assms] by (simp add: kheap_get_used_def kheap_get_free_def)

lemma witness_object:
  obtains p s c where "kmalloc 100 witness_heap = Some (p, s)" "p \<noteq> 0" "heap_holds [unat p \<mapsto> c] s" "100 \<le> length c"
    "total_allocated s = of_nat (length c)" "heap_end s = 0xFFFFFFFF00010000"
proof -
  have "heap_end (snd (kmalloc_take t b n s)) = heap_end s" for t b n and s :: heap_state
    by (simp add: kmalloc_take_def Let_def block_set_used_def)
  then have "heap_end s = 0xFFFFFFFF00010000" if "kmalloc 100 witness_heap = Some (p, s)" for p s
    using that witness_heap_ok(2,5) by (auto simp: kmalloc_def Let_def dest!: arg_cong[where f = snd])
  with witness_heap_ok(1,4) show thesis by (cases rule: kmalloc_cases) (use that witness_heap_ok(3,5) in auto)
qed

theorem kfree_correct_witness:
  "\<exists>p s. kmalloc 100 witness_heap = Some (p, s) \<and> p \<noteq> 0 \<and> heap_holds Map.empty (kfree p s) \<and> kheap_get_used (kfree p s) = 0
     \<and> block_is_free (kfree p s) (data_to_block p)"
proof -
  obtain p s c where o: "kmalloc 100 witness_heap = Some (p, s)" "p \<noteq> 0" "heap_holds [unat p \<mapsto> c] s"
    "total_allocated s = of_nat (length c)" by (rule witness_object)
  have "(Map.empty(unat p \<mapsto> c))(unat p := None) = Map.empty" by auto
  then show ?thesis using kfree_correct[OF o(3), of p c] o(1,2,4) by (auto simp: kheap_get_used_def)
qed

text \<open>
  C17. \<^verbatim>\<open>krealloc\<close> of an object to 9 or more bytes always returns. Either the object is already large enough
  and nothing changes, or it moves to a fresh, longer object that starts with all its bytes and the old one is
  gone, or there is no memory and the object and its contents stay as they were.
\<close>

theorem krealloc_correct:
  assumes "heap_holds M s" "M (unat ptr) = Some c" "heap_ready sz s"
  shows "\<exists>p s'. krealloc ptr sz s = Some (p, s')
    \<and> (if p = 0 then heap_holds M s' \<and> length c < unat sz
       else if p = ptr then s' = s \<and> unat sz \<le> length c
       else \<exists>c'. heap_holds (M(unat ptr := None, unat p \<mapsto> c')) s' \<and> unat p \<notin> dom M
              \<and> unat sz \<le> length c' \<and> take (length c) c' = c)"
  using assms
proof (cases rule: krealloc_cases)
  case keep
  then show ?thesis using holds_object(6)[OF assms(1,2)] by simp
next
  case (fail s')
  then show ?thesis by simp
next
  case (move p s' c')
  then have "p \<noteq> ptr" using assms(2) by auto
  then show ?thesis using move by (simp del: fun_upd_apply) blast
qed

theorem krealloc_correct_witness:
  "\<exists>p s p' s'. kmalloc 100 witness_heap = Some (p, s) \<and> p \<noteq> 0 \<and> krealloc p 50 s = Some (p', s') \<and> (p' = p \<longrightarrow> s' = s)"
proof -
  obtain p s c where o: "kmalloc 100 witness_heap = Some (p, s)" "p \<noteq> 0" "heap_holds [unat p \<mapsto> c] s" "heap_end s = 0xFFFFFFFF00010000"
    by (rule witness_object)
  have "heap_ready 50 s" unfolding heap_ready_def o(4) by simp
  then show ?thesis using krealloc_correct[OF o(3), of p c 50] o(1,2) by (auto split: if_splits)
qed

theorem heap_run_objects_witness:
  "\<exists>p s. kmalloc 100 witness_heap = Some (p, s) \<and> hmem (put_byte (of_nat (unat p + 5)) 7 s) (of_nat (unat p + 5)) = 7"
proof -
  obtain p s c where o: "kmalloc 100 witness_heap = Some (p, s)" "p \<noteq> 0" by (rule witness_object)
  have r: "heap_run witness_heap [unat p \<mapsto> contents s (unat p) 100] s"
    using heap_run.malloc[OF heap_run.start witness_heap_ok(4) o] by simp
  let ?c = "(contents s (unat p) 100)[5 := 7]"
  have "heap_run witness_heap ([unat p \<mapsto> contents s (unat p) 100](unat p \<mapsto> ?c)) (put_byte (of_nat (unat p + 5)) 7 s)"
    by (rule heap_run.store[OF r]) (simp_all add: contents_def)
  note * = conjunct1[OF heap_run_objects[OF witness_heap_ok(1) this], rule_format, of "unat p" ?c 5]
  have "hmem (put_byte (of_nat (unat p + 5)) 7 s) (of_nat (unat p + 5)) = ?c ! 5"
    by (rule *) (simp_all add: contents_def)
  then show ?thesis using o(1) by (auto simp: contents_def)
qed

end
