(* ===== verification/Io.thy ===== *)
theory Io
  imports Heap
begin

text \<open>
  The processor as the kernel's C code sees it: port input and output
  (\<^verbatim>\<open>arch/x86/include/asm/io.h\<close>), memory-mapped device registers, model-specific registers and the
  interrupt flag; and the parts of \<^verbatim>\<open>apic.c\<close>, \<^verbatim>\<open>sync.h\<close> and \<^verbatim>\<open>percpu.c\<close> that are one instruction away
  from it.

  A device is arbitrary: what a read returns may depend on the whole history of accesses.
  \<open>io_log\<close> is that history, \<open>port_in\<close> and \<open>mmio_in\<close> are the devices' answers.
\<close>

section \<open>Devices\<close>

datatype io_event =
    Out8 u16 u8
  | In8 u16
  | Mmio_write u64 u32
  | Mmio_read u64

record io_state = heap_state +
  io_log :: "io_event list"
  port_in :: "io_event list \<Rightarrow> u16 \<Rightarrow> u8"
  mmio_in :: "io_event list \<Rightarrow> u64 \<Rightarrow> u32"
  msrs :: "u32 \<Rightarrow> u64"
  rflags :: u64

definition outb :: "u16 \<Rightarrow> u8 \<Rightarrow> 'a io_state_scheme \<Rightarrow> 'a io_state_scheme" where
  "outb port val s = s\<lparr>io_log := io_log s @ [Out8 port val]\<rparr>"

definition inb :: "u16 \<Rightarrow> 'a io_state_scheme \<Rightarrow> u8 \<times> 'a io_state_scheme" where
  "inb port s = (port_in s (io_log s) port, s\<lparr>io_log := io_log s @ [In8 port]\<rparr>)"

definition mmio_write32 :: "u64 \<Rightarrow> u32 \<Rightarrow> 'a io_state_scheme \<Rightarrow> 'a io_state_scheme" where
  "mmio_write32 a v s = s\<lparr>io_log := io_log s @ [Mmio_write a v]\<rparr>"

definition mmio_read32 :: "u64 \<Rightarrow> 'a io_state_scheme \<Rightarrow> u32 \<times> 'a io_state_scheme" where
  "mmio_read32 a s = (mmio_in s (io_log s) a, s\<lparr>io_log := io_log s @ [Mmio_read a]\<rparr>)"

text \<open>\<^verbatim>\<open>wrmsr\<close> splits the value into two halves and the processor joins them again.\<close>

definition rdmsr :: "u32 \<Rightarrow> 'a io_state_scheme \<Rightarrow> u64" where
  "rdmsr r s = (let low = ucast (msrs s r) :: u32; high = ucast (drop_bit 32 (msrs s r)) :: u32
     in push_bit 32 (ucast high) OR ucast low)"

definition wrmsr :: "u32 \<Rightarrow> u64 \<Rightarrow> 'a io_state_scheme \<Rightarrow> 'a io_state_scheme" where
  "wrmsr r value s =
     (let low = ucast (value AND 0xFFFFFFFF) :: u32; high = ucast (drop_bit 32 value) :: u32
      in s\<lparr>msrs := (msrs s)(r := push_bit 32 (ucast high) OR ucast low)\<rparr>)"

section \<open>The interrupt flag\<close>

definition RFLAGS_IF :: u64 where "RFLAGS_IF = 0x200"

definition cpu_enable_interrupts :: "'a io_state_scheme \<Rightarrow> 'a io_state_scheme" where
  "cpu_enable_interrupts s = s\<lparr>rflags := rflags s OR RFLAGS_IF\<rparr>"

definition cpu_disable_interrupts :: "'a io_state_scheme \<Rightarrow> 'a io_state_scheme" where
  "cpu_disable_interrupts s = s\<lparr>rflags := rflags s AND NOT RFLAGS_IF\<rparr>"

definition irq_save :: "'a io_state_scheme \<Rightarrow> u64 \<times> 'a io_state_scheme" where
  "irq_save s = (rflags s, cpu_disable_interrupts s)"

definition irq_restore :: "u64 \<Rightarrow> 'a io_state_scheme \<Rightarrow> 'a io_state_scheme" where
  "irq_restore flags s = s\<lparr>rflags := flags\<rparr>"

section \<open>The local APIC's registers\<close>

record apic_state = io_state +
  lapic_base :: u64
  tick_count :: u64
  timer_initial_count :: u32

definition LAPIC_ID :: u32 where "LAPIC_ID = 0x020"
definition LAPIC_EOI :: u32 where "LAPIC_EOI = 0x0B0"
definition LAPIC_SVR :: u32 where "LAPIC_SVR = 0x0F0"
definition LAPIC_ESR :: u32 where "LAPIC_ESR = 0x280"
definition LAPIC_LVT_TIMER :: u32 where "LAPIC_LVT_TIMER = 0x320"
definition LAPIC_TIMER_ICR :: u32 where "LAPIC_TIMER_ICR = 0x380"
definition LAPIC_TIMER_CCR :: u32 where "LAPIC_TIMER_CCR = 0x390"
definition LAPIC_TIMER_DCR :: u32 where "LAPIC_TIMER_DCR = 0x3E0"
definition LAPIC_SVR_ENABLE :: u32 where "LAPIC_SVR_ENABLE = push_bit 8 1"
definition LAPIC_TIMER_MASKED :: u32 where "LAPIC_TIMER_MASKED = push_bit 16 1"
definition LAPIC_TIMER_PERIODIC :: u32 where "LAPIC_TIMER_PERIODIC = push_bit 17 1"
definition LAPIC_TIMER_DIV_16 :: u32 where "LAPIC_TIMER_DIV_16 = 0x3"
definition IRQ_TIMER :: u32 where "IRQ_TIMER = 32"
definition IRQ_SPURIOUS :: u32 where "IRQ_SPURIOUS = 255"
definition TIMER_FREQUENCY_HZ :: u32 where "TIMER_FREQUENCY_HZ = 100"

text \<open>\<^verbatim>\<open>lapic_base[reg / 4]\<close> is the 32-bit register at byte offset \<open>4 * (reg div 4)\<close>.\<close>

definition lapic_reg :: "'a apic_state_scheme \<Rightarrow> u32 \<Rightarrow> u64" where
  "lapic_reg s r = lapic_base s + 4 * ucast (r div 4)"

definition lapic_read :: "u32 \<Rightarrow> 'a apic_state_scheme \<Rightarrow> u32 \<times> 'a apic_state_scheme" where
  "lapic_read r s = mmio_read32 (lapic_reg s r) s"

definition lapic_write :: "u32 \<Rightarrow> u32 \<Rightarrow> 'a apic_state_scheme \<Rightarrow> 'a apic_state_scheme" where
  "lapic_write r value s =
     (let s1 = mmio_write32 (lapic_reg s r) value s
      in snd (mmio_read32 (lapic_reg s1 LAPIC_ID) s1))"

definition apic_eoi :: "'a apic_state_scheme \<Rightarrow> 'a apic_state_scheme" where
  "apic_eoi s = lapic_write LAPIC_EOI 0 s"

definition apic_get_ticks :: "'a apic_state_scheme \<Rightarrow> u64" where
  "apic_get_ticks s = tick_count s"

definition apic_get_id :: "'a apic_state_scheme \<Rightarrow> u32 \<times> 'a apic_state_scheme" where
  "apic_get_id s = (let (v, s1) = lapic_read LAPIC_ID s in (drop_bit 24 v, s1))"

section \<open>Lemmas\<close>

lemma io_frames [simp, frame_simps]:
  "hmem (outb p v s) = hmem s" "hmem (snd (inb p s)) = hmem s"
  "rflags (outb p v s) = rflags s" "rflags (snd (inb p s)) = rflags s"
  "io_log (outb p v s) = io_log s @ [Out8 p v]" "io_log (snd (inb p s)) = io_log s @ [In8 p]"
  "port_in (outb p v s) = port_in s" "port_in (snd (inb p s)) = port_in s"
  "fst (inb p s) = port_in s (io_log s) p"
  by (simp_all add: outb_def inb_def)

lemma split_join_64: "push_bit 32 (ucast (ucast (drop_bit 32 v) :: u32)) OR ucast (ucast v :: u32) = (v :: u64)"
  by (rule bit_word_eqI) (auto simp: bit_simps)

lemma rdmsr_wrmsr: "rdmsr r (wrmsr q v s) = (if r = q then v else rdmsr r s)"
proof -
  have m: "(0xFFFFFFFF :: u64) = mask 32" by (simp add: mask_eq_exp_minus_1)
  have "ucast (v AND mask 32) = (ucast v :: u32)" by (rule bit_word_eqI) (simp add: bit_simps)
  then show ?thesis unfolding rdmsr_def wrmsr_def m Let_def by (simp add: split_join_64 del: mask_numeral)
qed

lemma irq_restore_save: "irq_restore (fst (irq_save s)) (snd (irq_save s)) = s"
  by (simp add: irq_restore_def irq_save_def cpu_disable_interrupts_def)

end
