(* ===== verification/Kthread.thy ===== *)
theory Kthread
  imports Io
begin

text \<open>
  Kernel threads, \<^verbatim>\<open>kernel/kthread.c\<close> and \<^verbatim>\<open>kernel/kthread_switch.S\<close>: thread control blocks linked
  through their \<^verbatim>\<open>next\<close> fields from the static \<^verbatim>\<open>genesis_kthread\<close>, a round-robin scheduler, sleeping and
  blocking, creation, exit and reaping, and the context switch down to the saved registers.

  A thread control block is an object of the typed store \<open>kthreads\<close>; the pointer \<open>Kthread a\<close> is the
  block that \<^verbatim>\<open>kmalloc\<close> returned at \<open>a\<close>, a \<^verbatim>\<open>NULL\<close> pointer is \<open>None\<close>. The loops follow \<^verbatim>\<open>next\<close> links and need
  not end on a damaged list, so they are partial functions. Dereferencing \<^verbatim>\<open>NULL\<close> has no result either. Stacks are
  memory of the kernel's address space, \<open>hmem\<close>. A function that ends in \<^verbatim>\<open>kthread_switch\<close> is
  modelled up to the switch, where another thread's code goes on; \<open>Idle\<close> is the scheduler
  waiting in \<^verbatim>\<open>hlt\<close>, and \<open>idle_wakeup\<close> is what it does after the interrupt that ends the wait.
\<close>

section \<open>State\<close>

datatype thread_state = THREAD_READY | THREAD_RUNNING | THREAD_BLOCKED | THREAD_EXITED

datatype kthread_ptr = Genesis | Kthread u64

record kthread =
  kt_name :: string
  kt_id :: u64
  kt_rsp :: u64
  kt_stack_base :: u64
  kt_state :: thread_state
  kt_next :: "kthread_ptr option"
  kt_wait_next :: "kthread_ptr option"
  kt_entry :: u64
  kt_arg :: u64
  kt_wake_tick :: u64

text \<open>The registers that \<^verbatim>\<open>kthread_switch\<close> saves and restores.\<close>

record cpu_regs =
  rbx :: u64
  rbp :: u64
  r12 :: u64
  r13 :: u64
  r14 :: u64
  r15 :: u64
  rsp :: u64
  rip :: u64

record kthread_state = apic_state +
  kthreads :: "kthread_ptr \<Rightarrow> kthread"
  current_kthread :: "kthread_ptr option"
  next_thread_id :: u64
  preempt_count :: int
  cpu :: cpu_regs

definition KTHREAD_STACK_SIZE :: u64 where "KTHREAD_STACK_SIZE = 16384"
definition SIZEOF_KTHREAD :: u64 where "SIZEOF_KTHREAD = 80"

definition upd_thread :: "kthread_ptr \<Rightarrow> (kthread \<Rightarrow> kthread) \<Rightarrow> 'a kthread_state_scheme \<Rightarrow> 'a kthread_state_scheme" where
  "upd_thread t f s = s\<lparr>kthreads := (kthreads s)(t := f (kthreads s t))\<rparr>"

section \<open>Preemption control\<close>

text \<open>The nesting depth is an \<^verbatim>\<open>int\<close> in the code; it is unbounded here, because two billion nested calls do not happen.\<close>

definition preempt_disable :: "'a kthread_state_scheme \<Rightarrow> 'a kthread_state_scheme" where
  "preempt_disable s = s\<lparr>preempt_count := preempt_count s + 1\<rparr>"

definition preempt_enable :: "'a kthread_state_scheme \<Rightarrow> 'a kthread_state_scheme" where
  "preempt_enable s = s\<lparr>preempt_count := preempt_count s - 1\<rparr>"

definition preempt_enabled :: "'a kthread_state_scheme \<Rightarrow> bool" where
  "preempt_enabled s \<longleftrightarrow> preempt_count s = 0"

section \<open>The context switch\<close>

definition push :: "u64 \<Rightarrow> 'a kthread_state_scheme \<Rightarrow> 'a kthread_state_scheme" where
  "push v s = (let sp = rsp (cpu s) - 8 in
     s\<lparr>hmem := store64 (hmem s) sp v, cpu := (cpu s)\<lparr>rsp := sp\<rparr>\<rparr>)"

definition pop :: "(u64 \<Rightarrow> cpu_regs \<Rightarrow> cpu_regs) \<Rightarrow> 'a kthread_state_scheme \<Rightarrow> 'a kthread_state_scheme" where
  "pop set_reg s = (let sp = rsp (cpu s) in
     s\<lparr>cpu := set_reg (load64 (hmem s) sp) ((cpu s)\<lparr>rsp := sp + 8\<rparr>)\<rparr>)"

text \<open>
  \<^verbatim>\<open>kthread_switch(&old->rsp, new_rsp)\<close>: the call pushes the return address \<open>rip\<close>, and the final
  \<^verbatim>\<open>ret\<close> pops the one the new thread's stack holds.
\<close>

definition kthread_switch :: "kthread_ptr \<Rightarrow> u64 \<Rightarrow> 'a kthread_state_scheme \<Rightarrow> 'a kthread_state_scheme" where
  "kthread_switch old new_rsp s =
     (let s1 = push (rip (cpu s)) s;
          s2 = push (rbx (cpu s1)) s1;
          s3 = push (rbp (cpu s2)) s2;
          s4 = push (r12 (cpu s3)) s3;
          s5 = push (r13 (cpu s4)) s4;
          s6 = push (r14 (cpu s5)) s5;
          s7 = push (r15 (cpu s6)) s6;
          s8 = upd_thread old (\<lambda>k. k\<lparr>kt_rsp := rsp (cpu s7)\<rparr>) s7;
          s9 = s8\<lparr>cpu := (cpu s8)\<lparr>rsp := new_rsp\<rparr>\<rparr>;
          s10 = pop (\<lambda>v c. c\<lparr>r12 := v\<rparr>) (pop (\<lambda>v c. c\<lparr>r13 := v\<rparr>) (pop (\<lambda>v c. c\<lparr>r14 := v\<rparr>) (pop (\<lambda>v c. c\<lparr>r15 := v\<rparr>) s9)));
          s11 = pop (\<lambda>v c. c\<lparr>rbx := v\<rparr>) (pop (\<lambda>v c. c\<lparr>rbp := v\<rparr>) s10);
          s12 = cpu_enable_interrupts s11
      in pop (\<lambda>v c. c\<lparr>rip := v\<rparr>) s12)"

section \<open>The thread list\<close>

definition kthread_current :: "'a kthread_state_scheme \<Rightarrow> kthread_ptr option" where
  "kthread_current s = current_kthread s"

definition kthread_set_current :: "kthread_ptr option \<Rightarrow> 'a kthread_state_scheme \<Rightarrow> 'a kthread_state_scheme" where
  "kthread_set_current t s = s\<lparr>current_kthread := t\<rparr>"

definition kthread_exit :: "'a kthread_state_scheme \<Rightarrow> 'a kthread_state_scheme option" where
  "kthread_exit s =
     (case current_kthread s of None \<Rightarrow> None
      | Some exiting \<Rightarrow>
          let s1 = upd_thread exiting (\<lambda>k. k\<lparr>kt_state := THREAD_EXITED\<rparr>) s;
              s2 = kthread_set_current (Some Genesis) s1
          in Some (kthread_switch exiting (kt_rsp (kthreads s2 Genesis)) s2))"

partial_function (option) get_kthread_loop ::
  "u64 \<Rightarrow> kthread_ptr option \<Rightarrow> 'a kthread_state_scheme \<Rightarrow> kthread_ptr option option" where
  [code]: "get_kthread_loop kthread_id iter s =
     (case iter of None \<Rightarrow> Some None
      | Some t \<Rightarrow> if kt_id (kthreads s t) = kthread_id then Some (Some t)
                  else get_kthread_loop kthread_id (kt_next (kthreads s t)) s)"

definition kthread_get_kthread :: "u64 \<Rightarrow> 'a kthread_state_scheme \<Rightarrow> kthread_ptr option option" where
  "kthread_get_kthread kthread_id s = get_kthread_loop kthread_id (Some Genesis) s"

text \<open>The end of the list, where \<^verbatim>\<open>kthread_create\<close> links the new thread.\<close>

partial_function (option) last_thread :: "kthread_ptr \<Rightarrow> 'a kthread_state_scheme \<Rightarrow> kthread_ptr option" where
  [code]: "last_thread iter s =
     (case kt_next (kthreads s iter) of None \<Rightarrow> Some iter | Some t \<Rightarrow> last_thread t s)"

text \<open>
  \<^verbatim>\<open>kthread_create\<close>; \<open>trampoline\<close> is the address of \<^verbatim>\<open>kthread_trampoline\<close>. With no current thread the
  code panics, which halts the processor.
\<close>

definition thread_frame :: "u64 \<Rightarrow> u64 \<Rightarrow> bytes \<Rightarrow> u64 \<times> bytes" where
  "thread_frame trampoline sp m =
     (let m0 = store64 m (sp - 8) trampoline
      in fold (\<lambda>i (p, m). (p - 8, store64 m (p - 8) 0)) [0..<4 + 2] (sp - 8, m0))"

definition kthread_create ::
  "u64 \<Rightarrow> string \<Rightarrow> u64 \<Rightarrow> u64 \<Rightarrow> 'a kthread_state_scheme \<Rightarrow> (u64 \<times> 'a kthread_state_scheme) option" where
  "kthread_create trampoline kthread_friendly_name kthread_entry_point arg s =
     (case kmalloc SIZEOF_KTHREAD (preempt_disable s) of None \<Rightarrow> None
      | Some (p, s1) \<Rightarrow>
        if p = 0 then Some (0, preempt_enable s1)
        else let t = Kthread p;
                 s2 = upd_thread t (\<lambda>k. k\<lparr>kt_id := next_thread_id s1, kt_name := kthread_friendly_name,
                        kt_state := THREAD_READY, kt_wake_tick := 0, kt_wait_next := None\<rparr>)
                      (s1\<lparr>next_thread_id := next_thread_id s1 + 1\<rparr>)
             in case kmalloc KTHREAD_STACK_SIZE s2 of None \<Rightarrow> None
      | Some (base, s3) \<Rightarrow>
        if base = 0 then Some (0, preempt_enable (kfree p s3))
        else let stack_top = (base + KTHREAD_STACK_SIZE) AND NOT 0xF;
                 s4 = upd_thread t (\<lambda>k. k\<lparr>kt_stack_base := base, kt_rsp := stack_top, kt_next := None\<rparr>) s3
             in case (if current_kthread s4 = None then None
                      else case last_thread Genesis s4 of None \<Rightarrow> None
                        | Some iter \<Rightarrow> Some (upd_thread iter (\<lambda>k. k\<lparr>kt_next := Some t\<rparr>) s4)) of
                  None \<Rightarrow> None
                | Some s5 \<Rightarrow>
                    let (sp, m) = thread_frame trampoline stack_top (hmem s5);
                        s6 = upd_thread t (\<lambda>k. k\<lparr>kt_entry := kthread_entry_point, kt_arg := arg, kt_rsp := sp\<rparr>) (s5\<lparr>hmem := m\<rparr>)
                    in Some (kt_id (kthreads s6 t), preempt_enable s6))"

text \<open>\<^verbatim>\<open>kthread_init\<close>; \<open>reaper\<close> is the address of \<^verbatim>\<open>kthread_reaper_task\<close>.\<close>

definition kthread_init :: "u64 \<Rightarrow> u64 \<Rightarrow> 'a kthread_state_scheme \<Rightarrow> (u64 \<times> 'a kthread_state_scheme) option" where
  "kthread_init trampoline reaper s =
     (let s1 = upd_thread Genesis (\<lambda>k. k\<lparr>kt_id := 0, kt_name := ''genesis-kthread-0'', kt_next := None, kt_rsp := 0,
                 kt_stack_base := 0, kt_state := THREAD_RUNNING, kt_entry := 0x1337, kt_arg := 0\<rparr>) s
      in kthread_create trampoline ''kreaper'' reaper 0 (s1\<lparr>current_kthread := Some Genesis\<rparr>))"

section \<open>Scheduling\<close>

definition sleep_over :: "u64 \<Rightarrow> kthread \<Rightarrow> bool" where
  "sleep_over now k \<longleftrightarrow> kt_state k = THREAD_BLOCKED \<and> kt_wake_tick k \<noteq> 0 \<and> kt_wake_tick k \<le> now"

partial_function (option) wake_loop ::
  "u64 \<Rightarrow> kthread_ptr option \<Rightarrow> 'a kthread_state_scheme \<Rightarrow> 'a kthread_state_scheme option" where
  [code]: "wake_loop now t s =
     (case t of None \<Rightarrow> Some s
      | Some p \<Rightarrow>
          let s1 = (if sleep_over now (kthreads s p)
                    then upd_thread p (\<lambda>k. k\<lparr>kt_state := THREAD_READY, kt_wake_tick := 0\<rparr>) s else s)
          in wake_loop now (kt_next (kthreads s1 p)) s1)"

definition kthread_wake_sleepers :: "'a kthread_state_scheme \<Rightarrow> 'a kthread_state_scheme option" where
  "kthread_wake_sleepers s = wake_loop (apic_get_ticks s) (Some Genesis) s"

text \<open>The two searches of \<^verbatim>\<open>kthread_schedule\<close>: to the end of the list, and from its start up to the current thread.\<close>

partial_function (option) find_ready :: "kthread_ptr option \<Rightarrow> 'a kthread_state_scheme \<Rightarrow> kthread_ptr option option" where
  [code]: "find_ready t s =
     (case t of None \<Rightarrow> Some None
      | Some p \<Rightarrow> if kt_state (kthreads s p) = THREAD_READY then Some (Some p)
                  else find_ready (kt_next (kthreads s p)) s)"

partial_function (option) find_ready_until ::
  "kthread_ptr \<Rightarrow> kthread_ptr option \<Rightarrow> 'a kthread_state_scheme \<Rightarrow> kthread_ptr option" where
  [code]: "find_ready_until c t s =
     (case t of None \<Rightarrow> None
      | Some p \<Rightarrow> if p = c \<or> kt_state (kthreads s p) = THREAD_READY then Some p
                  else find_ready_until c (kt_next (kthreads s p)) s)"

definition find_next :: "kthread_ptr \<Rightarrow> 'a kthread_state_scheme \<Rightarrow> kthread_ptr option" where
  "find_next c s =
     (case find_ready (kt_next (kthreads s c)) s of None \<Rightarrow> None
      | Some (Some t) \<Rightarrow> Some t
      | Some None \<Rightarrow> find_ready_until c (Some Genesis) s)"

datatype sched_outcome = Returned | Switched | Idle

definition kthread_schedule :: "'a kthread_state_scheme \<Rightarrow> (sched_outcome \<times> 'a kthread_state_scheme) option" where
  "kthread_schedule s =
     (if preempt_count s > 0 then Some (Returned, s)
      else case wake_loop (apic_get_ticks s) (Some Genesis) s of None \<Rightarrow> None
      | Some s1 \<Rightarrow>
        case current_kthread s1 of None \<Rightarrow> None
      | Some c \<Rightarrow>
        case find_next c s1 of None \<Rightarrow> None
      | Some next_thread \<Rightarrow>
        if next_thread \<noteq> c
        then let s2 = (if kt_state (kthreads s1 c) = THREAD_RUNNING
                       then upd_thread c (\<lambda>k. k\<lparr>kt_state := THREAD_READY\<rparr>) s1 else s1);
                 s3 = s2\<lparr>current_kthread := Some next_thread\<rparr>;
                 s4 = upd_thread next_thread (\<lambda>k. k\<lparr>kt_state := THREAD_RUNNING\<rparr>) s3
             in Some (Switched, kthread_switch c (kt_rsp (kthreads s4 next_thread)) s4)
        else if kt_state (kthreads s1 c) = THREAD_BLOCKED then Some (Idle, cpu_enable_interrupts s1)
        else Some (Returned, s1))"

text \<open>One round of the wait loop of \<^verbatim>\<open>kthread_schedule\<close>, from the return of \<^verbatim>\<open>hlt\<close>.\<close>

definition idle_wakeup :: "'a kthread_state_scheme \<Rightarrow> (sched_outcome \<times> 'a kthread_state_scheme) option" where
  "idle_wakeup s =
     (case wake_loop (apic_get_ticks s) (Some Genesis) s of None \<Rightarrow> None
      | Some s1 \<Rightarrow>
        case current_kthread s1 of None \<Rightarrow> None
      | Some c \<Rightarrow>
        if kt_state (kthreads s1 c) \<noteq> THREAD_BLOCKED
        then Some (Returned, upd_thread c (\<lambda>k. k\<lparr>kt_state := THREAD_RUNNING\<rparr>) s1)
        else case find_ready (Some Genesis) s1 of None \<Rightarrow> None
      | Some None \<Rightarrow> Some (Idle, cpu_enable_interrupts s1)
      | Some (Some t) \<Rightarrow>
          let s2 = upd_thread t (\<lambda>k. k\<lparr>kt_state := THREAD_RUNNING\<rparr>) (s1\<lparr>current_kthread := Some t\<rparr>)
          in Some (Switched, kthread_switch c (kt_rsp (kthreads s2 t)) s2))"

definition kthread_yield :: "'a kthread_state_scheme \<Rightarrow> (sched_outcome \<times> 'a kthread_state_scheme) option" where
  "kthread_yield s =
     (case current_kthread s of None \<Rightarrow> None
      | Some c \<Rightarrow> kthread_schedule (upd_thread c (\<lambda>k. k\<lparr>kt_state := THREAD_READY\<rparr>) s))"

definition kthread_sleep :: "u64 \<Rightarrow> 'a kthread_state_scheme \<Rightarrow> (sched_outcome \<times> 'a kthread_state_scheme) option" where
  "kthread_sleep ms s =
     (let ticks = (ms + 9) div 10 in
      case current_kthread s of None \<Rightarrow> None
      | Some c \<Rightarrow> kthread_schedule (upd_thread c (\<lambda>k. k\<lparr>kt_wake_tick := apic_get_ticks s + ticks, kt_state := THREAD_BLOCKED\<rparr>) s))"

definition kthread_block :: "'a kthread_state_scheme \<Rightarrow> (sched_outcome \<times> 'a kthread_state_scheme) option" where
  "kthread_block s =
     (case current_kthread s of None \<Rightarrow> None
      | Some c \<Rightarrow> kthread_schedule (upd_thread c (\<lambda>k. k\<lparr>kt_state := THREAD_BLOCKED, kt_wake_tick := 0\<rparr>) s))"

definition kthread_unblock :: "kthread_ptr \<Rightarrow> 'a kthread_state_scheme \<Rightarrow> 'a kthread_state_scheme" where
  "kthread_unblock t s =
     (if kt_state (kthreads s t) = THREAD_BLOCKED then upd_thread t (\<lambda>k. k\<lparr>kt_state := THREAD_READY\<rparr>) s else s)"

section \<open>Reaping and listing\<close>

text \<open>The block behind a thread pointer; \<^verbatim>\<open>kfree\<close> refuses the static genesis thread, which is outside the heap.\<close>

fun kfree_thread :: "kthread_ptr \<Rightarrow> 'a kthread_state_scheme \<Rightarrow> 'a kthread_state_scheme" where
  "kfree_thread Genesis s = s"
| "kfree_thread (Kthread a) s = kfree a s"

partial_function (option) reap_loop ::
  "kthread_ptr \<Rightarrow> kthread_ptr option \<Rightarrow> 'a kthread_state_scheme \<Rightarrow> 'a kthread_state_scheme option" where
  [code]: "reap_loop prev iter s =
     (case iter of None \<Rightarrow> Some s
      | Some t \<Rightarrow>
          if kt_state (kthreads s t) = THREAD_EXITED
          then let s1 = upd_thread prev (\<lambda>k. k\<lparr>kt_next := kt_next (kthreads s t)\<rparr>) s;
                   iter' = kt_next (kthreads s1 t);
                   s2 = (if kt_stack_base (kthreads s1 t) \<noteq> 0 then kfree (kt_stack_base (kthreads s1 t)) s1 else s1)
               in reap_loop prev iter' (kfree_thread t s2)
          else reap_loop t (kt_next (kthreads s t)) s)"

definition kthread_reap :: "'a kthread_state_scheme \<Rightarrow> 'a kthread_state_scheme option" where
  "kthread_reap s =
     (let s1 = preempt_disable s in
      case reap_loop Genesis (kt_next (kthreads s1 Genesis)) s1 of None \<Rightarrow> None
      | Some s2 \<Rightarrow> Some (preempt_enable s2))"

fun state_to_string :: "thread_state \<Rightarrow> string" where
  "state_to_string THREAD_READY = ''READY''"
| "state_to_string THREAD_RUNNING = ''RUNNING''"
| "state_to_string THREAD_BLOCKED = ''BLOCKED''"
| "state_to_string THREAD_EXITED = ''EXITED''"

text \<open>The rows that \<^verbatim>\<open>kthreads_list\<close> prints: id, name, state and stack, and the count.\<close>

partial_function (option) list_loop ::
  "kthread_ptr option \<Rightarrow> (u64 \<times> string \<times> string \<times> u64) list \<Rightarrow> 'a kthread_state_scheme \<Rightarrow> (u64 \<times> string \<times> string \<times> u64) list option" where
  [code]: "list_loop iter rows s =
     (case iter of None \<Rightarrow> Some rows
      | Some t \<Rightarrow> let k = kthreads s t in
          list_loop (kt_next k) (rows @ [(kt_id k, kt_name k, state_to_string (kt_state k), kt_stack_base k)]) s)"

definition kthreads_list :: "'a kthread_state_scheme \<Rightarrow> ((u64 \<times> string \<times> string \<times> u64) list \<times> nat \<times> 'a kthread_state_scheme) option" where
  "kthreads_list s =
     (let s1 = preempt_disable s in
      case list_loop (Some Genesis) [] s1 of None \<Rightarrow> None
      | Some rows \<Rightarrow> Some (rows, length rows, preempt_enable s1))"

end
