(* ===== verification/Kthread_Sched.thy ===== *)
theory Kthread_Sched
  imports Kthread
begin

text \<open>
  Correctness of the scheduler and of the context switch: the thread list as a HOL list, round-robin
  choice and bounded waiting, the invariant of every run of scheduler calls, and the
  transparency of \<^verbatim>\<open>kthread_switch\<close>.
\<close>

section \<open>The thread list\<close>

text \<open>The threads reached from \<open>p\<close> through the \<^verbatim>\<open>next\<close> links.\<close>

fun chain :: "(kthread_ptr \<Rightarrow> kthread) \<Rightarrow> kthread_ptr option \<Rightarrow> kthread_ptr list \<Rightarrow> bool" where
  "chain K p [] \<longleftrightarrow> p = None"
| "chain K p (t # ts) \<longleftrightarrow> p = Some t \<and> chain K (kt_next (K t)) ts"

definition thread_list :: "'a kthread_state_scheme \<Rightarrow> kthread_ptr list \<Rightarrow> bool" where
  "thread_list s ts \<longleftrightarrow> chain (kthreads s) (Some Genesis) ts \<and> distinct ts"

definition ready :: "'a kthread_state_scheme \<Rightarrow> kthread_ptr \<Rightarrow> bool" where
  "ready s t \<longleftrightarrow> kt_state (kthreads s t) = THREAD_READY"

text \<open>The threads after \<open>c\<close> in cyclic order, \<open>c\<close> left out.\<close>

definition others_after :: "kthread_ptr \<Rightarrow> kthread_ptr list \<Rightarrow> kthread_ptr list" where
  "others_after c ts = tl (dropWhile (\<lambda>t. t \<noteq> c) ts) @ takeWhile (\<lambda>t. t \<noteq> c) ts"

definition woken :: "u64 \<Rightarrow> kthread \<Rightarrow> kthread" where
  "woken now k = (if sleep_over now k then k\<lparr>kt_state := THREAD_READY, kt_wake_tick := 0\<rparr> else k)"

lemma chain_cong: "(\<And>t. t \<in> set ts \<Longrightarrow> kt_next (K t) = kt_next (K' t)) \<Longrightarrow> chain K p ts \<longleftrightarrow> chain K' p ts"
  by (induction ts arbitrary: p) auto

lemma chain_append: "chain K p (xs @ t # ys) \<Longrightarrow> chain K (Some t) (t # ys)"
  by (induction xs arbitrary: p) auto

lemma woken_next [simp]: "kt_next (woken now k) = kt_next k"
  by (simp add: woken_def)

lemma wake_loop_chain:
  assumes "chain (kthreads s) p ts" "distinct ts"
  shows "wake_loop now p s = Some (s\<lparr>kthreads := \<lambda>t. if t \<in> set ts then woken now (kthreads s t) else kthreads s t\<rparr>)"
  using assms
proof (induction ts arbitrary: p s)
  case Nil
  then show ?case by (simp add: wake_loop.simps)
next
  case (Cons t ts)
  let ?s = "s\<lparr>kthreads := (kthreads s)(t := woken now (kthreads s t))\<rparr>"
  have "wake_loop now p s = wake_loop now (kt_next (kthreads s t)) ?s"
    using Cons.prems(1) by (subst wake_loop.simps) (simp add: upd_thread_def woken_def Let_def)
  also have "\<dots> = Some (?s\<lparr>kthreads := \<lambda>u. if u \<in> set ts then woken now (kthreads ?s u) else kthreads ?s u\<rparr>)"
  proof (rule Cons.IH)
    show "chain (kthreads ?s) (kt_next (kthreads s t)) ts"
      using Cons.prems(1) chain_cong[of ts "kthreads s" "kthreads ?s"] by simp
    show "distinct ts" using Cons.prems(2) by simp
  qed
  also have "\<dots> = Some (s\<lparr>kthreads := \<lambda>u. if u \<in> set (t # ts) then woken now (kthreads s u) else kthreads s u\<rparr>)"
    using Cons.prems(2) by (auto simp: fun_eq_iff)
  finally show ?case .
qed

lemma find_ready_chain:
  "chain (kthreads s) p ts \<Longrightarrow> find_ready p s = Some (List.find (ready s) ts)"
  by (induction ts arbitrary: p) (auto simp: find_ready.simps ready_def)

lemma find_ready_until_chain:
  "chain (kthreads s) p (xs @ c # ys) \<Longrightarrow> c \<notin> set xs \<Longrightarrow>
   find_ready_until c p s = Some (case List.find (ready s) xs of None \<Rightarrow> c | Some t \<Rightarrow> t)"
  by (induction xs arbitrary: p) (auto simp: find_ready_until.simps ready_def)

lemma others_after_split: "c \<notin> set xs \<Longrightarrow> others_after c (xs @ c # ys) = ys @ xs"
proof -
  assume "c \<notin> set xs"
  then have "dropWhile (\<lambda>t. t \<noteq> c) (xs @ c # ys) = c # ys" "takeWhile (\<lambda>t. t \<noteq> c) (xs @ c # ys) = xs"
    by (induction xs) auto
  then show ?thesis by (simp add: others_after_def)
qed

lemma find_append: "List.find P (xs @ ys) = (case List.find P xs of None \<Rightarrow> List.find P ys | Some x \<Rightarrow> Some x)"
  by (induction xs) auto

lemma find_next_chain:
  assumes "thread_list s ts" "c \<in> set ts"
  shows "find_next c s = Some (case List.find (ready s) (others_after c ts) of None \<Rightarrow> c | Some t \<Rightarrow> t)"
proof -
  obtain xs ys where ts: "ts = xs @ c # ys" "c \<notin> set xs" using assms(2) by (meson split_list_first)
  have ch: "chain (kthreads s) (Some Genesis) (xs @ c # ys)" using assms(1) ts by (simp add: thread_list_def)
  have "chain (kthreads s) (kt_next (kthreads s c)) ys" using chain_append[OF ch] by simp
  then show ?thesis
    using find_ready_chain[of s _ ys] find_ready_until_chain[OF ch ts(2)] ts
    by (simp add: find_next_def others_after_split find_append split: option.splits)
qed

text \<open>What a switch keeps: everything of the threads but the saved stack pointer of the old one.\<close>

lemma kthread_switch_frame [simp]:
  "current_kthread (kthread_switch c r s) = current_kthread s"
  "preempt_count (kthread_switch c r s) = preempt_count s"
  "tick_count (kthread_switch c r s) = tick_count s"
  "next_thread_id (kthread_switch c r s) = next_thread_id s"
  "kt_state (kthreads (kthread_switch c r s) t) = kt_state (kthreads s t)"
  "kt_next (kthreads (kthread_switch c r s) t) = kt_next (kthreads s t)"
  "kt_wake_tick (kthreads (kthread_switch c r s) t) = kt_wake_tick (kthreads s t)"
  by (simp_all add: kthread_switch_def Let_def push_def pop_def upd_thread_def cpu_enable_interrupts_def)

definition awake :: "'a kthread_state_scheme \<Rightarrow> kthread_ptr \<Rightarrow> kthread" where
  "awake s t = woken (tick_count s) (kthreads s t)"

definition next_ready :: "'a kthread_state_scheme \<Rightarrow> kthread_ptr \<Rightarrow> kthread_ptr list \<Rightarrow> kthread_ptr option" where
  "next_ready s c ts = List.find (\<lambda>t. kt_state (awake s t) = THREAD_READY) (others_after c ts)"

lemma others_after_set: "c \<in> set ts \<Longrightarrow> distinct ts \<Longrightarrow> set (others_after c ts) = set ts - {c}"
  by (drule split_list_first) (auto simp: others_after_split)

lemma thread_list_cong:
  "(\<And>t. t \<in> set ts \<Longrightarrow> kt_next (kthreads s' t) = kt_next (kthreads s t)) \<Longrightarrow> thread_list s ts \<Longrightarrow> thread_list s' ts"
  unfolding thread_list_def using chain_cong[of ts "kthreads s'" "kthreads s"] by auto

lemma schedule_spec:
  assumes "thread_list s ts" "current_kthread s = Some c" "c \<in> set ts" "preempt_count s \<le> 0"
  shows "\<exists>r s'. kthread_schedule s = Some (r, s') \<and> thread_list s' ts \<and> preempt_count s' = preempt_count s \<and> tick_count s' = tick_count s \<and>
    (case next_ready s c ts of
       Some t \<Rightarrow> r = Switched \<and> current_kthread s' = Some t \<and> (\<forall>u\<in>set ts. kt_state (kthreads s' u) =
           (if u = t then THREAD_RUNNING
            else if u = c \<and> kt_state (awake s c) = THREAD_RUNNING then THREAD_READY
            else kt_state (awake s u)))
     | None \<Rightarrow> r = (if kt_state (awake s c) = THREAD_BLOCKED then Idle else Returned)
         \<and> current_kthread s' = Some c \<and> (\<forall>u\<in>set ts. kt_state (kthreads s' u) = kt_state (awake s u)))"
proof -
  let ?K = "\<lambda>t. if t \<in> set ts then awake s t else kthreads s t"
  let ?w = "s\<lparr>kthreads := ?K\<rparr>"
  have w: "wake_loop (apic_get_ticks s) (Some Genesis) s = Some ?w"
    using wake_loop_chain[of s "Some Genesis" ts] assms(1) by (simp add: thread_list_def apic_get_ticks_def awake_def cong: if_cong)
  have tl: "thread_list ?w ts" using assms(1) by (rule thread_list_cong[rotated]) (simp add: awake_def)
  have d: "distinct ts" using assms(1) by (simp add: thread_list_def)
  have o: "set (others_after c ts) = set ts - {c}" by (rule others_after_set[OF assms(3) d])
  have "List.find (ready ?w) (others_after c ts) = next_ready s c ts"
    unfolding next_ready_def by (rule find_cong) (auto simp: ready_def o)
  then have f: "find_next c ?w = Some (case next_ready s c ts of None \<Rightarrow> c | Some t \<Rightarrow> t)"
    using find_next_chain[OF tl assms(3)] by simp
  show ?thesis
  proof (cases "next_ready s c ts")
    case None
    then show ?thesis using w f assms tl
      by (auto simp: kthread_schedule_def cpu_enable_interrupts_def intro: thread_list_cong[OF _ tl])
  next
    case (Some t)
    then have "t \<in> set (others_after c ts)" by (auto simp: next_ready_def find_Some_iff)
    then have t: "t \<noteq> c" "t \<in> set ts" using o by auto
    have tl': "thread_list s' ts" if "\<And>t. kt_next (kthreads s' t) = kt_next (?K t)" for s' :: "'a kthread_state_scheme"
      using that by (intro thread_list_cong[OF _ tl]) simp
    show ?thesis using w f assms(2-) Some t
      by (auto simp: kthread_schedule_def Let_def upd_thread_def intro!: tl')
  qed
qed

text \<open>A round of the wait loop, after the interrupt that ended \<^verbatim>\<open>hlt\<close>.\<close>

lemma idle_spec:
  assumes "thread_list s ts" "current_kthread s = Some c" "c \<in> set ts"
  shows "\<exists>r s'. idle_wakeup s = Some (r, s') \<and> thread_list s' ts \<and>
    (if kt_state (awake s c) \<noteq> THREAD_BLOCKED
     then r = Returned \<and> current_kthread s' = Some c
       \<and> (\<forall>u\<in>set ts. kt_state (kthreads s' u) = (if u = c then THREAD_RUNNING else kt_state (awake s u)))
     else case List.find (\<lambda>t. kt_state (awake s t) = THREAD_READY) ts of
       Some t \<Rightarrow> r = Switched \<and> current_kthread s' = Some t
         \<and> (\<forall>u\<in>set ts. kt_state (kthreads s' u) = (if u = t then THREAD_RUNNING else kt_state (awake s u)))
     | None \<Rightarrow> r = Idle \<and> current_kthread s' = Some c \<and> (\<forall>u\<in>set ts. kt_state (kthreads s' u) = kt_state (awake s u)))"
proof -
  let ?K = "\<lambda>t. if t \<in> set ts then awake s t else kthreads s t"
  let ?w = "s\<lparr>kthreads := ?K\<rparr>"
  have w: "wake_loop (apic_get_ticks s) (Some Genesis) s = Some ?w"
    using wake_loop_chain[of s "Some Genesis" ts] assms(1) by (simp add: thread_list_def apic_get_ticks_def awake_def cong: if_cong)
  have tl: "thread_list ?w ts" using assms(1) by (rule thread_list_cong[rotated]) (simp add: awake_def)
  have tl': "thread_list s' ts" if "\<And>t. kt_next (kthreads s' t) = kt_next (?K t)" for s' :: "'a kthread_state_scheme"
    using that by (intro thread_list_cong[OF _ tl]) simp
  have f: "find_ready (Some Genesis) ?w = Some (List.find (\<lambda>t. kt_state (awake s t) = THREAD_READY) ts)"
    using find_ready_chain[of ?w _ ts] tl find_cong[of ts ts "ready ?w" "\<lambda>t. kt_state (awake s t) = THREAD_READY"]
    by (simp add: thread_list_def ready_def)
  have in_list: "List.find P ts = Some t \<Longrightarrow> t \<in> set ts" for P t by (auto simp: find_Some_iff)
  show ?thesis using w f assms(2,3)
    by (auto simp: idle_wakeup_def Let_def upd_thread_def cpu_enable_interrupts_def split: option.split dest: in_list intro!: tl')
qed

text \<open>
  C19. The scheduler, with preemption enabled, is round-robin. With the sleepers whose time has come made ready, it
  switches to the first ready thread after the current one in cyclic list order, marks it running, and makes the thread
  it leaves ready if that one was running. When no other thread is ready it stays with the
  current one: it returns, or waits in \<^verbatim>\<open>hlt\<close> (outcome \<open>Idle\<close>) if the current thread is blocked. Each interrupt
  that ends the wait makes the sleepers whose time has come ready again. Then the current thread goes on, running, if
  it is no longer blocked; otherwise the processor goes to the first ready thread from the head of
  the list; if there is none the wait continues. No other thread and no link changes.
\<close>

theorem kthread_schedule_round_robin:
  assumes "thread_list s ts" "current_kthread s = Some c" "c \<in> set ts" "preempt_count s \<le> 0"
  shows "(\<exists>r s'. kthread_schedule s = Some (r, s') \<and> thread_list s' ts \<and>
    (case next_ready s c ts of
       Some t \<Rightarrow> r = Switched \<and> current_kthread s' = Some t \<and> (\<forall>u\<in>set ts. kt_state (kthreads s' u) =
           (if u = t then THREAD_RUNNING
            else if u = c \<and> kt_state (awake s c) = THREAD_RUNNING then THREAD_READY
            else kt_state (awake s u)))
     | None \<Rightarrow> r = (if kt_state (awake s c) = THREAD_BLOCKED then Idle else Returned)
         \<and> current_kthread s' = Some c \<and> (\<forall>u\<in>set ts. kt_state (kthreads s' u) = kt_state (awake s u))))
   \<and> (\<exists>r s'. idle_wakeup s = Some (r, s') \<and> thread_list s' ts \<and>
    (if kt_state (awake s c) \<noteq> THREAD_BLOCKED
     then r = Returned \<and> current_kthread s' = Some c
       \<and> (\<forall>u\<in>set ts. kt_state (kthreads s' u) = (if u = c then THREAD_RUNNING else kt_state (awake s u)))
     else case List.find (\<lambda>t. kt_state (awake s t) = THREAD_READY) ts of
       Some t \<Rightarrow> r = Switched \<and> current_kthread s' = Some t
         \<and> (\<forall>u\<in>set ts. kt_state (kthreads s' u) = (if u = t then THREAD_RUNNING else kt_state (awake s u)))
     | None \<Rightarrow> r = Idle \<and> current_kthread s' = Some c \<and> (\<forall>u\<in>set ts. kt_state (kthreads s' u) = kt_state (awake s u))))"
  using schedule_spec[OF assms] idle_spec[OF assms(1-3)] by blast

definition no_cpu :: cpu_regs where
  "no_cpu = \<lparr>rbx = 0, rbp = 0, r12 = 0, r13 = 0, r14 = 0, r15 = 0, rsp = 0, rip = 0\<rparr>"

text \<open>Three threads: the running genesis thread, a ready one and one whose sleep is over.\<close>

definition witness_tcb :: "u64 \<Rightarrow> thread_state \<Rightarrow> kthread_ptr option \<Rightarrow> u64 \<Rightarrow> kthread" where
  "witness_tcb i st nxt wk = \<lparr>kt_name = ''t'', kt_id = i, kt_rsp = 0, kt_stack_base = 0, kt_state = st, kt_next = nxt,
     kt_wait_next = None, kt_entry = 0, kt_arg = 0, kt_wake_tick = wk\<rparr>"

definition witness_threads :: kthread_state where
  "witness_threads =
     \<lparr>mem = (\<lambda>_. 0), g_hhdm_offset = 0, bitmap = (\<lambda>_. 0), bitmap_size = 0, total_pages = 0, free_pages = 0, usable_pages = 0,
      page_info = None, max_pages = 0, kernel_pml4_phys = 0, cr3 = 0,
      hmem = (\<lambda>_. 0), heap_start = 0, heap_end = 0, free_list = 0, total_allocated = 0, total_free = 0,
      io_log = [], port_in = (\<lambda>_ _. 0), mmio_in = (\<lambda>_ _. 0), msrs = (\<lambda>_. 0), rflags = 0x202,
      lapic_base = 0, tick_count = 7, timer_initial_count = 0,
      kthreads = (\<lambda>t. case t of Genesis \<Rightarrow> witness_tcb 0 THREAD_RUNNING (Some (Kthread 0x1000)) 0
        | Kthread a \<Rightarrow> if a = 0x1000 then witness_tcb 1 THREAD_READY (Some (Kthread 0x2000)) 0 else witness_tcb 2 THREAD_BLOCKED None 5),
      current_kthread = Some Genesis, next_thread_id = 3, preempt_count = 0, cpu = no_cpu\<rparr>"

lemma witness_threads_ok:
  "thread_list witness_threads [Genesis, Kthread 0x1000, Kthread 0x2000]" "current_kthread witness_threads = Some Genesis"
  "preempt_count witness_threads = 0" "tick_count witness_threads = 7"
  by (simp_all add: thread_list_def witness_threads_def witness_tcb_def)

theorem kthread_schedule_round_robin_witness:
  "\<exists>s'. kthread_schedule witness_threads = Some (Switched, s') \<and> current_kthread s' = Some (Kthread 0x1000)
     \<and> kt_state (kthreads s' Genesis) = THREAD_READY \<and> kt_state (kthreads s' (Kthread 0x2000)) = THREAD_READY"
proof -
  have n: "next_ready witness_threads Genesis [Genesis, Kthread 0x1000, Kthread 0x2000] = Some (Kthread 0x1000)"
    by (simp add: next_ready_def others_after_def awake_def woken_def witness_threads_def witness_tcb_def sleep_over_def)
  have a: "kt_state (awake witness_threads Genesis) = THREAD_RUNNING" "kt_state (awake witness_threads (Kthread 0x2000)) = THREAD_READY"
    by (simp_all add: awake_def woken_def witness_threads_def witness_tcb_def sleep_over_def)
  show ?thesis
    using conjunct1[OF kthread_schedule_round_robin[OF witness_threads_ok(1,2)]] witness_threads_ok(3) a by (auto simp: n)
qed

text \<open>The cyclic order seen from a later thread.\<close>

lemma others_after_rotate:
  assumes "distinct ts" "c \<in> set ts" "others_after c ts = as @ x # bs"
  shows "others_after x ts = bs @ c # as"
proof -
  obtain xs ys where ts: "ts = xs @ c # ys" "c \<notin> set xs" using assms(2) by (meson split_list_first)
  then have e: "ys @ xs = as @ x # bs" using assms(3) by (simp add: others_after_split)
  then consider us where "ys = as @ x # us" "bs = us @ xs" | us where "as = ys @ us" "xs = us @ x # bs"
    by (fastforce simp: append_eq_append_conv2 append_eq_Cons_conv)
  then show ?thesis
  proof cases
    case 1
    then have "ts = (xs @ c # as) @ x # us" "x \<notin> set (xs @ c # as)" using ts assms(1) by auto
    then show ?thesis using others_after_split[of x "xs @ c # as" us] 1 by simp
  next
    case 2
    then have "ts = us @ x # (bs @ c # ys)" "x \<notin> set us" using ts assms(1) by auto
    then show ?thesis using others_after_split[of x us "bs @ c # ys"] 2 by simp
  qed
qed

text \<open>The threads yield in turn.\<close>

fun yields :: "nat \<Rightarrow> 'a kthread_state_scheme \<Rightarrow> 'a kthread_state_scheme option" where
  "yields 0 s = Some s"
| "yields (Suc n) s = (case kthread_yield s of None \<Rightarrow> None | Some (_, s') \<Rightarrow> yields n s')"

lemma find_hit: "P t \<Longrightarrow> \<exists>x. List.find P (as @ t # bs) = Some x \<and> (x = t \<or> x \<in> set as)"
  by (induction as) auto

lemma yields_reach:
  assumes "thread_list s ts" "current_kthread s = Some c" "c \<in> set ts" "preempt_count s = 0"
    "kt_state (kthreads s t) = THREAD_READY" "others_after c ts = as @ t # bs"
  shows "\<exists>k s'. k \<le> Suc (length as) \<and> yields k s = Some s' \<and> current_kthread s' = Some t"
  using assms
proof (induction "length as" arbitrary: s c as bs rule: less_induct)
  case less
  let ?s = "upd_thread c (\<lambda>k. k\<lparr>kt_state := THREAD_READY\<rparr>) s"
  have d: "distinct ts" using less.prems(1) by (simp add: thread_list_def)
  have tc: "t \<noteq> c" "t \<in> set ts" using others_after_set[OF less.prems(3) d] less.prems(6) by auto
  have p: "thread_list ?s ts" "current_kthread ?s = Some c" "preempt_count ?s \<le> 0"
    using less.prems by (auto simp: upd_thread_def intro: thread_list_cong[OF _ less.prems(1)])
  have rt: "kt_state (awake ?s t) = THREAD_READY" using less.prems(5) tc by (simp add: awake_def woken_def upd_thread_def)
  obtain r s' where k: "kthread_schedule ?s = Some (r, s')" "thread_list s' ts" "preempt_count s' = 0"
    and n: "case next_ready ?s c ts of
       Some t \<Rightarrow> r = Switched \<and> current_kthread s' = Some t \<and> (\<forall>u\<in>set ts. kt_state (kthreads s' u) =
           (if u = t then THREAD_RUNNING
            else if u = c \<and> kt_state (awake ?s c) = THREAD_RUNNING then THREAD_READY
            else kt_state (awake ?s u)))
     | None \<Rightarrow> r = (if kt_state (awake ?s c) = THREAD_BLOCKED then Idle else Returned)
         \<and> current_kthread s' = Some c \<and> (\<forall>u\<in>set ts. kt_state (kthreads s' u) = kt_state (awake ?s u))"
    using schedule_spec[OF p(1,2) less.prems(3) p(3)] less.prems(4) by (auto simp: upd_thread_def)
  have y: "yields (Suc n) s = yields n s'" for n using k(1) less.prems(2) by (simp add: kthread_yield_def)
  obtain x where x: "next_ready ?s c ts = Some x" "x = t \<or> x \<in> set as"
    using find_hit[of "\<lambda>u. kt_state (awake ?s u) = THREAD_READY" t as bs] rt less.prems(6) by (auto simp: next_ready_def)
  show ?case
  proof (cases "x = t")
    case True
    then show ?thesis using n x y[of 0] by (intro exI[of _ 1]) auto
  next
    case False
    then obtain a1 a2 where a: "as = a1 @ x # a2" using x(2) by (meson split_list)
    have "others_after x ts = (a2) @ t # (bs @ c # a1)"
      using others_after_rotate[OF d less.prems(3), of a1 x "a2 @ t # bs"] less.prems(6) a by simp
    moreover have "x \<in> set ts" using others_after_set[OF less.prems(3) d] less.prems(6) a by auto
    ultimately obtain k s'' where "k \<le> Suc (length a2)" "yields k s' = Some s''" "current_kthread s'' = Some t"
      using less.hyps[of a2 s' x "bs @ c # a1"] k(2,3) n x(1) a rt tc False by auto
    then show ?thesis using y[of k] a by (intro exI[of _ "Suc k"]) auto
  qed
qed

text \<open>
  C20. Bounded waiting: while the threads only yield, a ready thread runs after at most as many yields as there
  are threads before it in cyclic order, itself included, so in fewer yields than there are threads.
\<close>

theorem ready_thread_runs:
  assumes "thread_list s ts" "current_kthread s = Some c" "c \<in> set ts" "preempt_count s = 0"
    "t \<in> set ts" "t \<noteq> c" "kt_state (kthreads s t) = THREAD_READY"
  shows "\<exists>k s'. k < length ts \<and> yields k s = Some s' \<and> current_kthread s' = Some t"
proof -
  have d: "distinct ts" using assms(1) by (simp add: thread_list_def)
  have "t \<in> set (others_after c ts)" using others_after_set[OF assms(3) d] assms(5,6) by simp
  then obtain as bs where o: "others_after c ts = as @ t # bs" by (meson split_list)
  obtain xs ys where "ts = xs @ c # ys" "c \<notin> set xs" using assms(3) by (meson split_list_first)
  then have "length (others_after c ts) < length ts" by (simp add: others_after_split)
  then have l: "Suc (length as) < length ts" using o by simp
  obtain k s' where "k \<le> Suc (length as)" "yields k s = Some s'" "current_kthread s' = Some t"
    using yields_reach[OF assms(1-4,7) o] by blast
  then show ?thesis using l by (intro exI[of _ k] exI[of _ s']) simp
qed

theorem ready_thread_runs_witness:
  "\<exists>k s'. k < 3 \<and> yields k witness_threads = Some s' \<and> current_kthread s' = Some (Kthread 0x1000)"
proof -
  have "kt_state (kthreads witness_threads (Kthread 0x1000)) = THREAD_READY" by (simp add: witness_threads_def witness_tcb_def)
  then show ?thesis using ready_thread_runs[OF witness_threads_ok(1,2) _ witness_threads_ok(3), of "Kthread 0x1000"]
    by (simp add: numeral_3_eq_3)
qed

section \<open>Runs of the scheduler\<close>

text \<open>
  What happens between the creation and the reaping of threads: the current thread calls into the
  scheduler or exits, any thread is unblocked, the timer ticks, preemption is switched off and on.
\<close>

inductive thread_step :: "'a kthread_state_scheme \<Rightarrow> 'a kthread_state_scheme \<Rightarrow> bool" where
  schedule: "kthread_schedule s = Some (r, s') \<Longrightarrow> thread_step s s'"
| yield: "kthread_yield s = Some (r, s') \<Longrightarrow> thread_step s s'"
| sleep: "kthread_sleep ms s = Some (r, s') \<Longrightarrow> thread_step s s'"
| block: "kthread_block s = Some (r, s') \<Longrightarrow> thread_step s s'"
| idle: "idle_wakeup s = Some (r, s') \<Longrightarrow> thread_step s s'"
| exit: "kthread_exit s = Some s' \<Longrightarrow> thread_step s s'"
| unblock: "thread_step s (kthread_unblock t s)"
| tick: "kthread_wake_sleepers (s\<lparr>tick_count := tick_count s + 1\<rparr>) = Some s' \<Longrightarrow> thread_step s s'"
| disable: "thread_step s (preempt_disable s)"
| enable: "thread_step s (preempt_enable s)"

inductive_cases thread_stepE: "thread_step s s'"

definition sched_inv :: "kthread_ptr list \<Rightarrow> 'a kthread_state_scheme \<Rightarrow> bool" where
  "sched_inv ts s \<longleftrightarrow> thread_list s ts \<and>
     (\<exists>c\<in>set ts. current_kthread s = Some c \<and> (\<forall>t\<in>set ts. t \<noteq> c \<longrightarrow> kt_state (kthreads s t) \<noteq> THREAD_RUNNING)
        \<and> (c \<noteq> Genesis \<longrightarrow> kt_state (kthreads s c) \<noteq> THREAD_EXITED))"

lemma sched_invI:
  assumes "thread_list s ts" "c \<in> set ts" "current_kthread s = Some c"
    "\<And>t. t \<in> set ts \<Longrightarrow> t \<noteq> c \<Longrightarrow> kt_state (kthreads s t) \<noteq> THREAD_RUNNING"
    "c \<noteq> Genesis \<Longrightarrow> kt_state (kthreads s c) \<noteq> THREAD_EXITED"
  shows "sched_inv ts s"
  unfolding sched_inv_def using assms by blast

lemma woken_state: "kt_state (woken now k) = (if sleep_over now k then THREAD_READY else kt_state k)"
  by (simp add: woken_def)

lemma sched_inv_awake:
  assumes "sched_inv ts s" "current_kthread s = Some c"
  shows "t \<in> set ts \<Longrightarrow> t \<noteq> c \<Longrightarrow> kt_state (awake s t) \<noteq> THREAD_RUNNING" "c \<in> set ts" "thread_list s ts"
    "c \<noteq> Genesis \<Longrightarrow> kt_state (awake s c) \<noteq> THREAD_EXITED"
  using assms by (auto simp: sched_inv_def awake_def woken_state)

lemma next_ready_in:
  "next_ready s c ts = Some t \<Longrightarrow> c \<in> set ts \<Longrightarrow> distinct ts \<Longrightarrow> t \<in> set ts \<and> t \<noteq> c"
  using others_after_set[of c ts] by (auto simp: next_ready_def find_Some_iff dest: nth_mem)

lemma schedule_inv:
  assumes I: "sched_inv ts s" and k: "kthread_schedule s = Some (r, s')"
  shows "sched_inv ts s'"
proof (cases "preempt_count s > 0")
  case True
  then show ?thesis using I k by (simp add: kthread_schedule_def)
next
  case False
  obtain c where c: "current_kthread s = Some c" using I by (auto simp: sched_inv_def)
  note a = sched_inv_awake[OF I c]
  have d: "distinct ts" using a(3) by (simp add: thread_list_def)
  note sp = schedule_spec[OF a(3) c a(2)]
  show ?thesis
  proof (cases "next_ready s c ts")
    case None
    then show ?thesis using sp False k a by (intro sched_invI[of _ _ c]) auto
  next
    case (Some t)
    then have "t \<in> set ts" using next_ready_in[OF _ a(2) d] by blast
    then show ?thesis using sp False k a Some by (intro sched_invI[of _ _ t]) auto
  qed
qed

lemma sched_inv_upd:
  assumes "sched_inv ts s" "current_kthread s = Some c" "\<And>k. kt_next (f k) = kt_next k" "\<And>k. kt_state (f k) \<noteq> THREAD_EXITED"
  shows "sched_inv ts (upd_thread c f s)"
  using assms sched_inv_awake(2,3)[OF assms(1,2)]
  by (intro sched_invI[of _ _ c]) (auto simp: sched_inv_def upd_thread_def intro: thread_list_cong[of ts _ s])

lemma wake_inv:
  assumes "sched_inv ts s"
  shows "wake_loop (apic_get_ticks s) (Some Genesis) s = Some (s\<lparr>kthreads := \<lambda>t. if t \<in> set ts then awake s t else kthreads s t\<rparr>)"
    "sched_inv ts (s\<lparr>kthreads := \<lambda>t. if t \<in> set ts then awake s t else kthreads s t\<rparr>)"
proof -
  obtain c where c: "current_kthread s = Some c" using assms by (auto simp: sched_inv_def)
  note a = sched_inv_awake[OF assms c]
  show "wake_loop (apic_get_ticks s) (Some Genesis) s = Some (s\<lparr>kthreads := \<lambda>t. if t \<in> set ts then awake s t else kthreads s t\<rparr>)"
    using wake_loop_chain[of s "Some Genesis" ts] a(3) by (simp add: thread_list_def apic_get_ticks_def awake_def cong: if_cong)
  have "thread_list (s\<lparr>kthreads := \<lambda>t. if t \<in> set ts then awake s t else kthreads s t\<rparr>) ts"
    by (rule thread_list_cong[OF _ a(3)]) (simp add: awake_def)
  then show "sched_inv ts (s\<lparr>kthreads := \<lambda>t. if t \<in> set ts then awake s t else kthreads s t\<rparr>)"
    using a c by (intro sched_invI[of _ _ c]) auto
qed

lemma genesis_in: "thread_list s ts \<Longrightarrow> c \<in> set ts \<Longrightarrow> Genesis \<in> set ts"
  by (cases ts) (auto simp: thread_list_def)

lemma exit_inv:
  assumes I: "sched_inv ts s" and e: "kthread_exit s = Some s'"
  shows "sched_inv ts s'"
proof -
  obtain c where c: "current_kthread s = Some c" using I by (auto simp: sched_inv_def)
  note a = sched_inv_awake[OF I c]
  have "thread_list s' ts" by (rule thread_list_cong[OF _ a(3)]) (use e c in \<open>auto simp: kthread_exit_def Let_def upd_thread_def kthread_set_current_def\<close>)
  moreover have "kt_state (kthreads s' t) = (if t = c then THREAD_EXITED else kt_state (kthreads s t))" for t
    using e c by (auto simp: kthread_exit_def Let_def upd_thread_def kthread_set_current_def)
  moreover have "current_kthread s' = Some Genesis"
    using e c by (auto simp: kthread_exit_def Let_def upd_thread_def kthread_set_current_def)
  ultimately show ?thesis using c I genesis_in[OF a(3,2)]
    by (intro sched_invI[of _ _ Genesis]) (auto simp: sched_inv_def)
qed

lemma idle_inv:
  assumes I: "sched_inv ts s" and e: "idle_wakeup s = Some (r, s')"
  shows "sched_inv ts s'"
proof -
  let ?w = "s\<lparr>kthreads := \<lambda>t. if t \<in> set ts then awake s t else kthreads s t\<rparr>"
  note w = wake_inv[OF I]
  obtain c where c: "current_kthread s = Some c" using I by (auto simp: sched_inv_def)
  then have cw: "current_kthread ?w = Some c" by simp
  note a = sched_inv_awake[OF w(2) cw]
  have f: "find_ready (Some Genesis) ?w = Some (List.find (ready ?w) ts)"
    using a(3) by (intro find_ready_chain) (simp add: thread_list_def)
  have e': "(if kt_state (kthreads ?w c) \<noteq> THREAD_BLOCKED
        then Some (Returned, upd_thread c (\<lambda>k. k\<lparr>kt_state := THREAD_RUNNING\<rparr>) ?w)
        else case List.find (ready ?w) ts of
        None \<Rightarrow> Some (Idle, cpu_enable_interrupts ?w)
      | Some t \<Rightarrow>
          let s2 = upd_thread t (\<lambda>k. k\<lparr>kt_state := THREAD_RUNNING\<rparr>) (?w\<lparr>current_kthread := Some t\<rparr>)
          in Some (Switched, kthread_switch c (kt_rsp (kthreads s2 t)) s2)) = Some (r, s')"
    using e unfolding idle_wakeup_def w(1) option.case cw f by (simp split: option.splits)
  show ?thesis
  proof (cases "kt_state (kthreads ?w c) \<noteq> THREAD_BLOCKED")
    case True
    then have "s' = upd_thread c (\<lambda>k. k\<lparr>kt_state := THREAD_RUNNING\<rparr>) ?w" using e' by simp
    then show ?thesis using sched_inv_upd[OF w(2) cw] by simp
  next
    case False
    show ?thesis
    proof (cases "List.find (ready ?w) ts")
      case None
      then have "s' = cpu_enable_interrupts ?w" using e' False by simp
      then show ?thesis using w(2) by (simp add: sched_inv_def cpu_enable_interrupts_def thread_list_def)
    next
      case (Some t)
      define s2 where "s2 = upd_thread t (\<lambda>k. k\<lparr>kt_state := THREAD_RUNNING\<rparr>) (?w\<lparr>current_kthread := Some t\<rparr>)"
      have s': "s' = kthread_switch c (kt_rsp (kthreads s2 t)) s2" using e' False Some by (simp add: s2_def Let_def)
      have t: "t \<in> set ts" using Some by (auto simp: find_Some_iff)
      have "thread_list s' ts" by (rule thread_list_cong[OF _ a(3)]) (simp add: s' s2_def upd_thread_def t)
      moreover have "kt_state (kthreads s' u) = (if u = t then THREAD_RUNNING else kt_state (kthreads ?w u))" for u
        by (simp add: s' s2_def upd_thread_def)
      moreover have "current_kthread s' = Some t" by (simp add: s' s2_def upd_thread_def)
      ultimately show ?thesis using a(1,2) False w(2) c
        by (intro sched_invI[OF _ t]) (auto simp: sched_inv_def split: if_splits)
    qed
  qed
qed

lemma thread_step_inv:
  assumes I: "sched_inv ts s" and st: "thread_step s s'"
  shows "sched_inv ts s'"
proof -
  obtain c where c: "current_kthread s = Some c" using I by (auto simp: sched_inv_def)
  note a = sched_inv_awake[OF I c] and u = sched_inv_upd[OF I c]
  from st show ?thesis
  proof cases
    case (schedule r)
    then show ?thesis by (rule schedule_inv[OF I])
  next
    case (yield r)
    then show ?thesis using c by (intro schedule_inv[OF u]) (auto simp: kthread_yield_def)
  next
    case (sleep ms r)
    then show ?thesis using c by (intro schedule_inv[OF u]) (auto simp: kthread_sleep_def Let_def)
  next
    case (block r)
    then show ?thesis using c by (intro schedule_inv[OF u]) (auto simp: kthread_block_def)
  next
    case (idle r)
    then show ?thesis by (rule idle_inv[OF I])
  next
    case exit
    then show ?thesis by (rule exit_inv[OF I])
  next
    case (unblock t)
    then show ?thesis using I a(3) c
      by (auto simp: kthread_unblock_def upd_thread_def sched_inv_def intro: thread_list_cong[of ts _ s])
  next
    case tick
    have "sched_inv ts (s\<lparr>tick_count := tick_count s + 1\<rparr>)" using I by (simp add: sched_inv_def thread_list_def)
    from wake_inv[OF this] show ?thesis using tick by (simp add: kthread_wake_sleepers_def)
  next
    case disable
    then show ?thesis using I by (simp add: sched_inv_def preempt_disable_def thread_list_def)
  next
    case enable
    then show ?thesis using I by (simp add: sched_inv_def preempt_enable_def thread_list_def)
  qed
qed

text \<open>
  C21. However the threads yield, sleep, block, wake, exit or are preempted, the thread list stays
  intact, the current thread is in it, no other thread is marked running, and a current thread that
  has exited can only be the genesis thread.
\<close>

theorem at_most_one_running:
  assumes "sched_inv ts s" "thread_step\<^sup>*\<^sup>* s s'"
  shows "thread_list s' ts \<and> (\<exists>c\<in>set ts. current_kthread s' = Some c
    \<and> (\<forall>t\<in>set ts. kt_state (kthreads s' t) = THREAD_RUNNING \<longrightarrow> t = c)
    \<and> (kt_state (kthreads s' c) = THREAD_EXITED \<longrightarrow> c = Genesis))"
proof -
  have "sched_inv ts s'" using assms(2,1) by (induction rule: rtranclp_induct) (auto intro: thread_step_inv)
  then show ?thesis unfolding sched_inv_def by blast
qed

lemma witness_threads_inv: "sched_inv [Genesis, Kthread 0x1000, Kthread 0x2000] witness_threads"
  by (rule sched_invI[OF witness_threads_ok(1), of Genesis]) (auto simp: witness_threads_def witness_tcb_def)

theorem at_most_one_running_witness:
  "\<exists>s'. kthread_sleep 25 witness_threads = Some (Switched, s') \<and> (\<exists>c. current_kthread s' = Some c
     \<and> (kt_state (kthreads s' Genesis) = THREAD_RUNNING \<longrightarrow> Genesis = c))"
proof -
  let ?s = "upd_thread Genesis (\<lambda>k. k\<lparr>kt_wake_tick := 10, kt_state := THREAD_BLOCKED\<rparr>) witness_threads"
  have t: "thread_list ?s [Genesis, Kthread 0x1000, Kthread 0x2000]"
    by (rule thread_list_cong[OF _ witness_threads_ok(1)]) (simp add: upd_thread_def)
  have n: "next_ready ?s Genesis [Genesis, Kthread 0x1000, Kthread 0x2000] = Some (Kthread 0x1000)"
    by (simp add: next_ready_def others_after_def awake_def woken_def witness_threads_def witness_tcb_def sleep_over_def upd_thread_def)
  have e: "kthread_sleep 25 witness_threads = kthread_schedule ?s"
    by (simp add: kthread_sleep_def witness_threads_ok apic_get_ticks_def)
  obtain s' where s': "kthread_schedule ?s = Some (Switched, s')"
    using schedule_spec[OF t, of Genesis] n witness_threads_ok(2,3) by (auto simp: upd_thread_def)
  then have "thread_step witness_threads s'" using e by (intro thread_step.sleep) simp
  then show ?thesis using at_most_one_running[OF witness_threads_inv r_into_rtranclp, of s'] s' e by auto
qed

section \<open>The context switch\<close>

text \<open>The registers that a stack pointer saved by \<^verbatim>\<open>kthread_switch\<close> stands for.\<close>

definition saved_regs :: "bytes \<Rightarrow> u64 \<Rightarrow> cpu_regs" where
  "saved_regs m sp = \<lparr>rbx = load64 m (sp + 40), rbp = load64 m (sp + 32), r12 = load64 m (sp + 24),
     r13 = load64 m (sp + 16), r14 = load64 m (sp + 8), r15 = load64 m sp, rsp = sp + 56, rip = load64 m (sp + 48)\<rparr>"

definition stored_regs :: "cpu_regs \<Rightarrow> bytes \<Rightarrow> bytes" where
  "stored_regs c m = (let sp = rsp c - 56 in
     store64 (store64 (store64 (store64 (store64 (store64 (store64 m (sp + 48) (rip c)) (sp + 40) (rbx c)) (sp + 32) (rbp c))
       (sp + 24) (r12 c)) (sp + 16) (r13 c)) (sp + 8) (r14 c)) sp (r15 c))"

lemma kthread_switch_effect:
  "hmem (kthread_switch old new_rsp s) = stored_regs (cpu s) (hmem s)"
  "cpu (kthread_switch old new_rsp s) = saved_regs (stored_regs (cpu s) (hmem s)) new_rsp"
  "kthreads (kthread_switch old new_rsp s) = (kthreads s)(old := (kthreads s old)\<lparr>kt_rsp := rsp (cpu s) - 56\<rparr>)"
  "rflags (kthread_switch old new_rsp s) = rflags s OR RFLAGS_IF"
  by (simp_all add: kthread_switch_def Let_def push_def pop_def upd_thread_def cpu_enable_interrupts_def
      stored_regs_def saved_regs_def algebra_simps)

lemma aligned8_add:
  assumes "a AND 7 = (0 :: u64)" "b AND 7 = 0"
  shows "(a + b) AND 7 = 0"
  using assms by (simp add: aligned8_iff unat_word_ariths dvd_mod)

lemma saved_stores:
  assumes "sp AND 7 = (0 :: u64)"
  shows "saved_regs (store64 (store64 (store64 (store64 (store64 (store64 (store64 m (sp + 48) g) (sp + 40) a) (sp + 32) b)
       (sp + 24) c) (sp + 16) d) (sp + 8) e) sp f) sp
    = \<lparr>rbx = a, rbp = b, r12 = c, r13 = d, r14 = e, r15 = f, rsp = sp + 56, rip = g\<rparr>"
  by (simp add: saved_regs_def load64_store64_other assms aligned8_add)

lemma saved_stored: "rsp c AND 7 = 0 \<Longrightarrow> saved_regs (stored_regs c m) (rsp c - 56) = c"
  using saved_stores[of "rsp c - 56"] aligned8_add[of "rsp c" "-56"] by (simp add: stored_regs_def)

lemma saved_regs_cong:
  assumes "\<And>i. i < 56 \<Longrightarrow> m' (sp + of_nat i) = m (sp + of_nat i)"
  shows "saved_regs m' sp = saved_regs m sp"
proof -
  have "load64 m' (sp + of_nat j) = load64 m (sp + of_nat j)" if "j + 8 \<le> 56" for j
    unfolding load64_def by (rule load_le_cong) (use assms[of "j + _"] that in \<open>simp add: ac_simps\<close>)
  note this[of 0] this[of 8] this[of 16] this[of 24] this[of 32] this[of 40] this[of 48]
  then show ?thesis by (simp add: saved_regs_def)
qed

text \<open>Where the frame of a switch is written.\<close>

lemma stored_regs_other:
  assumes "\<And>i. i < 56 \<Longrightarrow> x \<noteq> rsp c - 56 + of_nat i"
  shows "stored_regs c m x = m x"
proof -
  have "store64 m' (rsp c - 56 + of_nat j) v x = m' x" if "j + 8 \<le> 56" for m' v j
    unfolding store64_def by (rule store_le_other) (use assms[of "j + _"] that in \<open>auto simp: ac_simps\<close>)
  note w = this[of 0] this[of 8] this[of 16] this[of 24] this[of 32] this[of 40] this[of 48]
  show ?thesis unfolding stored_regs_def Let_def using w by simp
qed

text \<open>
  C22. Context switches are transparent. A thread that calls \<^verbatim>\<open>kthread_switch\<close> gets all its callee-saved
  registers, its stack pointer and its return address back when any other thread later switches to the stack pointer saved for
  it, provided its saved frame and its saved stack pointer are left alone in between and the other
  thread's stack is elsewhere.
\<close>

theorem kthread_switch_roundtrip:
  assumes "rsp (cpu s) AND 7 = 0" "s1 = kthread_switch t new_rsp s"
    "kt_rsp (kthreads s2 t) = kt_rsp (kthreads s1 t)"
    "\<forall>i<56. hmem s2 (rsp (cpu s) - 56 + of_nat i) = hmem s1 (rsp (cpu s) - 56 + of_nat i)"
    "\<forall>i<56. \<forall>j<56. rsp (cpu s) - 56 + of_nat i \<noteq> rsp (cpu s2) - 56 + of_nat j"
  shows "cpu (kthread_switch u (kt_rsp (kthreads s2 t)) s2) = cpu s"
proof -
  let ?sp = "rsp (cpu s) - 56"
  have "kt_rsp (kthreads s2 t) = ?sp" using assms(2,3) by (simp add: kthread_switch_effect)
  moreover have "saved_regs (stored_regs (cpu s2) (hmem s2)) ?sp = saved_regs (hmem s1) ?sp"
  proof (rule saved_regs_cong)
    fix i :: nat assume "i < 56"
    then show "stored_regs (cpu s2) (hmem s2) (?sp + of_nat i) = hmem s1 (?sp + of_nat i)"
      using assms(4,5) by (subst stored_regs_other) auto
  qed
  moreover have "saved_regs (hmem s1) ?sp = cpu s"
    using saved_stored[OF assms(1)] assms(2) by (simp add: kthread_switch_effect)
  ultimately show ?thesis by (simp add: kthread_switch_effect)
qed

definition witness_regs :: cpu_regs where
  "witness_regs = \<lparr>rbx = 1, rbp = 2, r12 = 3, r13 = 4, r14 = 5, r15 = 6, rsp = 0x9000, rip = 7\<rparr>"

theorem kthread_switch_roundtrip_witness:
  "cpu (kthread_switch (Kthread 0x1000)
     (kt_rsp (kthreads (kthread_switch Genesis 0x20000 (witness_threads\<lparr>cpu := witness_regs\<rparr>)) Genesis))
     (kthread_switch Genesis 0x20000 (witness_threads\<lparr>cpu := witness_regs\<rparr>))) = witness_regs"
proof -
  let ?s = "witness_threads\<lparr>cpu := witness_regs\<rparr>"
  have sp: "rsp (cpu (kthread_switch Genesis 0x20000 ?s)) = 0x20038" by (simp add: kthread_switch_effect saved_regs_def)
  have "cpu (kthread_switch (Kthread 0x1000) (kt_rsp (kthreads (kthread_switch Genesis 0x20000 ?s) Genesis)) (kthread_switch Genesis 0x20000 ?s)) = cpu ?s"
  proof (rule kthread_switch_roundtrip[OF _ refl refl])
    show "\<forall>i<56. \<forall>j<56. rsp (cpu ?s) - 56 + word_of_nat i \<noteq> rsp (cpu (kthread_switch Genesis 0x20000 ?s)) - 56 + word_of_nat j"
    proof (intro allI impI)
      fix i j :: nat assume "i < 56" "j < 56"
      then have "unat (0x8FC8 + word_of_nat i :: u64) = 0x8FC8 + i" "unat (0x20000 + word_of_nat j :: u64) = 0x20000 + j"
        by (simp_all add: unat_plus_offset)
      then have "unat (0x8FC8 + word_of_nat i :: u64) < unat (0x20000 + word_of_nat j :: u64)" using \<open>i < 56\<close> by linarith
      then have "0x8FC8 + word_of_nat i \<noteq> (0x20000 + word_of_nat j :: u64)" by auto
      then show "rsp (cpu ?s) - 56 + word_of_nat i \<noteq> rsp (cpu (kthread_switch Genesis 0x20000 ?s)) - 56 + word_of_nat j"
        unfolding sp by (simp add: witness_regs_def)
    qed
  qed (simp_all add: witness_regs_def)
  then show ?thesis by simp
qed

text \<open>The frame that \<^verbatim>\<open>kthread_create\<close> lays out is one that \<^verbatim>\<open>kthread_switch\<close> restores.\<close>

lemma thread_frame_regs:
  assumes "sp AND 7 = 0"
  shows "fst (thread_frame trampoline sp m) = sp - 56"
    "saved_regs (snd (thread_frame trampoline sp m)) (sp - 56)
       = \<lparr>rbx = 0, rbp = 0, r12 = 0, r13 = 0, r14 = 0, r15 = 0, rsp = sp, rip = trampoline\<rparr>"
proof -
  have u: "[0..<4 + 2] = [0, 1, 2, 3, 4, 5 :: nat]" by (simp add: upt_rec)
  show "fst (thread_frame trampoline sp m) = sp - 56" unfolding thread_frame_def u Let_def by simp
  show "saved_regs (snd (thread_frame trampoline sp m)) (sp - 56)
       = \<lparr>rbx = 0, rbp = 0, r12 = 0, r13 = 0, r14 = 0, r15 = 0, rsp = sp, rip = trampoline\<rparr>"
    unfolding thread_frame_def u Let_def
    using saved_stores[of "sp - 56" m trampoline 0 0 0 0 0 0] aligned8_add[of sp "-56"] assms by simp
qed

end
