(* ===== verification/Sync.thy ===== *)
theory Sync
  imports Kthread_Sched
begin

text \<open>
  Synchronization, \<^verbatim>\<open>kernel/sync.c\<close>: spinlocks, mutexes and condition variables with first-in first-out
  wait queues linked through the threads' \<^verbatim>\<open>wait_next\<close> fields.

  A lock is a value that the operations take and return. \<^verbatim>\<open>mutex_lock\<close> and \<^verbatim>\<open>cond_wait\<close> may give up
  the processor in \<^verbatim>\<open>kthread_block\<close>; they are modelled up to there, and the code that runs when the thread is
  resumed is \<open>mutex_lock\<close> again (its loop starts over with preemption disabled) and \<open>cond_reacquire\<close>.
  The other processors are visible to a spinning thread only through the lock word: \<open>others n\<close> is what
  they do to it during the \<open>n\<close>-th \<^verbatim>\<open>pause\<close>.
\<close>

section \<open>Spinlocks\<close>

type_synonym spinlock = int

definition spin_init :: "spinlock \<Rightarrow> spinlock" where
  "spin_init lock = 0"

text \<open>\<^verbatim>\<open>__sync_lock_test_and_set(&lock->locked, 1)\<close>\<close>

definition test_and_set :: "spinlock \<Rightarrow> int \<times> spinlock" where
  "test_and_set lock = (lock, 1)"

partial_function (option) spin_lock :: "(nat \<Rightarrow> spinlock \<Rightarrow> spinlock) \<Rightarrow> nat \<Rightarrow> spinlock \<Rightarrow> (nat \<times> spinlock) option" where
  [code]: "spin_lock others n lock =
     (case test_and_set lock of (old, lock1) \<Rightarrow>
        if old \<noteq> 0 then spin_lock others (n + 1) (others n lock1) else Some (n, lock1))"

definition spin_unlock :: "spinlock \<Rightarrow> spinlock" where
  "spin_unlock lock = 0"

definition spin_trylock :: "spinlock \<Rightarrow> bool \<times> spinlock" where
  "spin_trylock lock = (let (old, lock1) = test_and_set lock in (old = 0, lock1))"

definition spin_lock_irqsave ::
  "(nat \<Rightarrow> spinlock \<Rightarrow> spinlock) \<Rightarrow> spinlock \<Rightarrow> 'a io_state_scheme \<Rightarrow> (u64 \<times> spinlock \<times> 'a io_state_scheme) option" where
  "spin_lock_irqsave others lock s =
     (let (flags, s1) = irq_save s in
      case spin_lock others 0 lock of None \<Rightarrow> None | Some (_, lock1) \<Rightarrow> Some (flags, lock1, s1))"

definition spin_unlock_irqrestore :: "spinlock \<Rightarrow> u64 \<Rightarrow> 'a io_state_scheme \<Rightarrow> spinlock \<times> 'a io_state_scheme" where
  "spin_unlock_irqrestore lock flags s = (0, irq_restore flags s)"

section \<open>Wait queues\<close>

type_synonym waitq = "kthread_ptr option \<times> kthread_ptr option"

definition waitq_add :: "waitq \<Rightarrow> kthread_ptr \<Rightarrow> 'a kthread_state_scheme \<Rightarrow> waitq \<times> 'a kthread_state_scheme" where
  "waitq_add q thread s =
     (case q of (head, tail) \<Rightarrow>
      let s1 = upd_thread thread (\<lambda>k. k\<lparr>kt_wait_next := None\<rparr>) s in
      case tail of None \<Rightarrow> ((Some thread, Some thread), s1)
      | Some l \<Rightarrow> ((head, Some thread), upd_thread l (\<lambda>k. k\<lparr>kt_wait_next := Some thread\<rparr>) s1))"

definition waitq_remove :: "waitq \<Rightarrow> 'a kthread_state_scheme \<Rightarrow> kthread_ptr option \<times> waitq \<times> 'a kthread_state_scheme" where
  "waitq_remove q s =
     (case q of (head, tail) \<Rightarrow>
      case head of None \<Rightarrow> (None, q, s)
      | Some thread \<Rightarrow>
          let head1 = kt_wait_next (kthreads s thread);
              tail1 = if head1 = None then None else tail
          in (Some thread, (head1, tail1), upd_thread thread (\<lambda>k. k\<lparr>kt_wait_next := None\<rparr>) s))"

section \<open>Mutexes\<close>

record mutex =
  mx_locked :: int
  mx_owner :: "kthread_ptr option"
  mx_wait :: waitq

definition mutex_init :: "mutex \<Rightarrow> mutex" where
  "mutex_init m = m\<lparr>mx_locked := 0, mx_owner := None, mx_wait := (None, None)\<rparr>"

text \<open>
  The test of \<^verbatim>\<open>mutex_lock\<close>'s loop, up to where it either holds the mutex or is about to call
  \<^verbatim>\<open>kthread_block\<close>.
\<close>

definition mutex_enter :: "mutex \<Rightarrow> 'a kthread_state_scheme \<Rightarrow> (bool \<times> mutex \<times> 'a kthread_state_scheme) option" where
  "mutex_enter m s =
     (let s1 = preempt_disable s in
      if mx_locked m = 0
      then Some (True, m\<lparr>mx_locked := 1, mx_owner := kthread_current s1\<rparr>, preempt_enable s1)
      else case kthread_current s1 of None \<Rightarrow> None
        | Some t \<Rightarrow> let (q, s2) = waitq_add (mx_wait m) t s1 in Some (False, m\<lparr>mx_wait := q\<rparr>, preempt_enable s2))"

datatype lock_outcome = Acquired | Blocked sched_outcome

definition mutex_lock :: "mutex \<Rightarrow> 'a kthread_state_scheme \<Rightarrow> (lock_outcome \<times> mutex \<times> 'a kthread_state_scheme) option" where
  "mutex_lock m s =
     (case mutex_enter m s of None \<Rightarrow> None
      | Some (held, m1, s1) \<Rightarrow>
          if held then Some (Acquired, m1, s1)
          else case kthread_block s1 of None \<Rightarrow> None | Some (r, s2) \<Rightarrow> Some (Blocked r, m1, s2))"

text \<open>Waking the first waiter of a queue, as \<^verbatim>\<open>mutex_unlock\<close>, \<^verbatim>\<open>cond_wait\<close> and \<^verbatim>\<open>cond_signal\<close> do.\<close>

definition wake_first :: "waitq \<Rightarrow> 'a kthread_state_scheme \<Rightarrow> waitq \<times> 'a kthread_state_scheme" where
  "wake_first q s =
     (case waitq_remove q s of (waiter, q1, s1) \<Rightarrow>
        (q1, case waiter of None \<Rightarrow> s1 | Some t \<Rightarrow> kthread_unblock t s1))"

definition mutex_unlock :: "mutex \<Rightarrow> 'a kthread_state_scheme \<Rightarrow> mutex \<times> 'a kthread_state_scheme" where
  "mutex_unlock m s =
     (let (q, s1) = wake_first (mx_wait m) (preempt_disable s)
      in (m\<lparr>mx_locked := 0, mx_owner := None, mx_wait := q\<rparr>, preempt_enable s1))"

definition mutex_trylock :: "mutex \<Rightarrow> 'a kthread_state_scheme \<Rightarrow> bool \<times> mutex \<times> 'a kthread_state_scheme" where
  "mutex_trylock m s =
     (let s1 = preempt_disable s in
      if mx_locked m \<noteq> 0 then (False, m, preempt_enable s1)
      else (True, m\<lparr>mx_locked := 1, mx_owner := kthread_current s1\<rparr>, preempt_enable s1))"

section \<open>Condition variables\<close>

type_synonym cond = waitq

definition cond_init :: "cond \<Rightarrow> cond" where
  "cond_init c = (None, None)"

text \<open>\<^verbatim>\<open>cond_wait\<close> up to its first \<^verbatim>\<open>kthread_block\<close>: the thread is in the queue and the mutex is free.\<close>

definition cond_release :: "cond \<Rightarrow> mutex \<Rightarrow> 'a kthread_state_scheme \<Rightarrow> (cond \<times> mutex \<times> 'a kthread_state_scheme) option" where
  "cond_release c m s =
     (let s1 = preempt_disable s in
      case kthread_current s1 of None \<Rightarrow> None
      | Some t \<Rightarrow>
          let (c1, s2) = waitq_add c t s1;
              (q, s3) = wake_first (mx_wait m) s2
          in Some (c1, m\<lparr>mx_locked := 0, mx_owner := None, mx_wait := q\<rparr>, preempt_enable s3))"

definition cond_wait ::
  "cond \<Rightarrow> mutex \<Rightarrow> 'a kthread_state_scheme \<Rightarrow> (sched_outcome \<times> cond \<times> mutex \<times> 'a kthread_state_scheme) option" where
  "cond_wait c m s =
     (case cond_release c m s of None \<Rightarrow> None
      | Some (c1, m1, s1) \<Rightarrow> case kthread_block s1 of None \<Rightarrow> None | Some (r, s2) \<Rightarrow> Some (r, c1, m1, s2))"

text \<open>The test of the loop that takes the mutex back, up to where it holds it or is about to call \<^verbatim>\<open>kthread_block\<close>.\<close>

definition cond_enter :: "mutex \<Rightarrow> 'a kthread_state_scheme \<Rightarrow> (bool \<times> mutex \<times> 'a kthread_state_scheme) option" where
  "cond_enter m s =
     (let s1 = preempt_disable s in
      if mx_locked m \<noteq> 0
      then case kthread_current s1 of None \<Rightarrow> None
        | Some t \<Rightarrow> let (q, s2) = waitq_add (mx_wait m) t s1 in Some (False, m\<lparr>mx_wait := q\<rparr>, preempt_enable s2)
      else Some (True, m\<lparr>mx_locked := 1, mx_owner := kthread_current s1\<rparr>, preempt_enable s1))"

definition cond_reacquire :: "mutex \<Rightarrow> 'a kthread_state_scheme \<Rightarrow> (lock_outcome \<times> mutex \<times> 'a kthread_state_scheme) option" where
  "cond_reacquire m s =
     (case cond_enter m s of None \<Rightarrow> None
      | Some (held, m1, s1) \<Rightarrow>
          if held then Some (Acquired, m1, s1)
          else case kthread_block s1 of None \<Rightarrow> None | Some (r, s2) \<Rightarrow> Some (Blocked r, m1, s2))"

definition cond_signal :: "cond \<Rightarrow> 'a kthread_state_scheme \<Rightarrow> cond \<times> 'a kthread_state_scheme" where
  "cond_signal c s = (let (c1, s1) = wake_first c (preempt_disable s) in (c1, preempt_enable s1))"

partial_function (option) broadcast_loop :: "cond \<Rightarrow> 'a kthread_state_scheme \<Rightarrow> (cond \<times> 'a kthread_state_scheme) option" where
  [code]: "broadcast_loop c s =
     (case waitq_remove c s of (waiter, c1, s1) \<Rightarrow>
        case waiter of None \<Rightarrow> Some (c1, s1) | Some t \<Rightarrow> broadcast_loop c1 (kthread_unblock t s1))"

definition cond_broadcast :: "cond \<Rightarrow> 'a kthread_state_scheme \<Rightarrow> (cond \<times> 'a kthread_state_scheme) option" where
  "cond_broadcast c s =
     (case broadcast_loop c (preempt_disable s) of None \<Rightarrow> None | Some (c1, s1) \<Rightarrow> Some (c1, preempt_enable s1))"

end
