(* ===== verification/Sync_Queue.thy ===== *)
theory Sync_Queue
  imports Sync
begin

text \<open>
  The locks are correct: wait queues implement the first-in first-out contract \<open>fifo_queue\<close>, waking takes the
  longest waiter, at most one thread holds a mutex, and a spinning thread gets the lock once it is released.
\<close>

section \<open>The queue contract\<close>

text \<open>
  A run of queue operations gives the answers of its removals. \<open>list_answers\<close> is the run on a list, and
  \<open>adds_new\<close> says that an element is added only while it is not in the queue.
\<close>

datatype 'e queue_request = Add 'e | Remove

fun queue_answers :: "('q \<Rightarrow> 'e \<Rightarrow> 's \<Rightarrow> 'q \<times> 's) \<Rightarrow> ('q \<Rightarrow> 's \<Rightarrow> 'e option \<times> 'q \<times> 's) \<Rightarrow> 'e queue_request list \<Rightarrow> 'q \<Rightarrow> 's \<Rightarrow> 'e option list" where
  "queue_answers add remove [] q s = []"
| "queue_answers add remove (Add x # rs) q s = (case add q x s of (q', s') \<Rightarrow> queue_answers add remove rs q' s')"
| "queue_answers add remove (Remove # rs) q s = (case remove q s of (a, q', s') \<Rightarrow> a # queue_answers add remove rs q' s')"

fun list_answers :: "'e queue_request list \<Rightarrow> 'e list \<Rightarrow> 'e option list" where
  "list_answers [] xs = []"
| "list_answers (Add x # rs) xs = list_answers rs (xs @ [x])"
| "list_answers (Remove # rs) [] = None # list_answers rs []"
| "list_answers (Remove # rs) (x # xs) = Some x # list_answers rs xs"

fun adds_new :: "'e queue_request list \<Rightarrow> 'e list \<Rightarrow> bool" where
  "adds_new [] xs \<longleftrightarrow> True"
| "adds_new (Add x # rs) xs \<longleftrightarrow> x \<notin> set xs \<and> adds_new rs (xs @ [x])"
| "adds_new (Remove # rs) xs \<longleftrightarrow> adds_new rs (tl xs)"

text \<open>
  What the locks rely on: adding puts a new element behind the others, removing takes the
  first. \<open>holds s q xs\<close> says that the queue \<open>q\<close> has the elements \<open>xs\<close> in state \<open>s\<close>.
\<close>

locale fifo_queue =
  fixes holds :: "'s \<Rightarrow> 'q \<Rightarrow> 'e list \<Rightarrow> bool"
    and add :: "'q \<Rightarrow> 'e \<Rightarrow> 's \<Rightarrow> 'q \<times> 's"
    and remove :: "'q \<Rightarrow> 's \<Rightarrow> 'e option \<times> 'q \<times> 's"
  assumes add_ok: "holds s q xs \<Longrightarrow> x \<notin> set xs \<Longrightarrow> holds (snd (add q x s)) (fst (add q x s)) (xs @ [x])"
    and remove_ok: "holds s q (x # xs) \<Longrightarrow> \<exists>q' s'. remove q s = (Some x, q', s') \<and> holds s' q' xs"
    and remove_empty: "holds s q [] \<Longrightarrow> remove q s = (None, q, s)"
begin

lemma fifo: "holds s q xs \<Longrightarrow> adds_new rs xs \<Longrightarrow> queue_answers add remove rs q s = list_answers rs xs"
proof (induction rs xs arbitrary: q s rule: adds_new.induct)
  case (2 x rs xs)
  then show ?case using add_ok[of s q xs x] by (auto split: prod.split)
next
  case (3 rs xs)
  show ?case
  proof (cases xs)
    case Nil
    then show ?thesis using remove_empty[of s q] 3 by simp
  next
    case (Cons x ys)
    then obtain q' s' where "remove q s = (Some x, q', s')" "holds s' q' ys" using remove_ok[of s q x ys] 3 by blast
    then show ?thesis using 3 Cons by simp
  qed
qed simp

end

section \<open>Wait queues implement it\<close>

fun wchain :: "(kthread_ptr \<Rightarrow> kthread) \<Rightarrow> kthread_ptr option \<Rightarrow> kthread_ptr list \<Rightarrow> bool" where
  "wchain K p [] \<longleftrightarrow> p = None"
| "wchain K p (t # ts) \<longleftrightarrow> p = Some t \<and> wchain K (kt_wait_next (K t)) ts"

definition waitq_holds :: "'a kthread_state_scheme \<Rightarrow> waitq \<Rightarrow> kthread_ptr list \<Rightarrow> bool" where
  "waitq_holds s q ts \<longleftrightarrow> wchain (kthreads s) (fst q) ts \<and> distinct ts \<and> snd q = (if ts = [] then None else Some (last ts))"

lemma wchain_cong: "(\<And>t. t \<in> set ts \<Longrightarrow> kt_wait_next (K t) = kt_wait_next (K' t)) \<Longrightarrow> wchain K p ts \<longleftrightarrow> wchain K' p ts"
  by (induction ts arbitrary: p) auto

lemma wchain_snoc:
  "wchain K p ts \<Longrightarrow> distinct ts \<Longrightarrow> ts \<noteq> [] \<Longrightarrow> x \<notin> set ts \<Longrightarrow> kt_wait_next (K' (last ts)) = Some x \<Longrightarrow> kt_wait_next (K' x) = None \<Longrightarrow>
   (\<And>t. t \<in> set (butlast ts) \<Longrightarrow> kt_wait_next (K' t) = kt_wait_next (K t)) \<Longrightarrow> wchain K' p (ts @ [x])"
proof (induction ts arbitrary: p)
  case (Cons a ts)
  then show ?case by (cases ts) auto
qed simp

interpretation wq: fifo_queue waitq_holds waitq_add waitq_remove
proof
  fix s :: "'a kthread_state_scheme" and q xs x
  assume h: "waitq_holds s q xs" and x: "x \<notin> set xs"
  show "waitq_holds (snd (waitq_add q x s)) (fst (waitq_add q x s)) (xs @ [x])"
  proof (cases "xs = []")
    case True
    then show ?thesis using h by (auto simp: waitq_holds_def waitq_add_def upd_thread_def split: prod.splits)
  next
    case False
    have last: "last xs \<in> set xs" "last xs \<noteq> x" using False x by auto
    have "last xs \<notin> set (butlast xs)" using h False
      by (metis append_butlast_last_id distinct.simps(2) distinct1_rotate rotate1.simps(2) waitq_holds_def)
    then show ?thesis using h x False last
      by (auto simp: waitq_holds_def waitq_add_def upd_thread_def split: prod.splits
          intro!: wchain_snoc[of "kthreads s"] dest: in_set_butlastD)
  qed
next
  fix s :: "'a kthread_state_scheme" and q x xs
  assume h: "waitq_holds s q (x # xs)"
  have "wchain ((kthreads s)(x := (kthreads s x)\<lparr>kt_wait_next := None\<rparr>)) (kt_wait_next (kthreads s x)) xs
      \<longleftrightarrow> wchain (kthreads s) (kt_wait_next (kthreads s x)) xs"
    by (rule wchain_cong) (use h in \<open>auto simp: waitq_holds_def\<close>)
  then have "wchain ((kthreads s)(x := (kthreads s x)\<lparr>kt_wait_next := None\<rparr>)) (kt_wait_next (kthreads s x)) xs"
    using h by (simp add: waitq_holds_def)
  moreover have "xs = [] \<longleftrightarrow> kt_wait_next (kthreads s x) = None" using h by (cases xs) (auto simp: waitq_holds_def)
  ultimately show "\<exists>q' s'. waitq_remove q s = (Some x, q', s') \<and> waitq_holds s' q' xs"
    using h by (auto simp: waitq_holds_def waitq_remove_def upd_thread_def split: prod.splits)
next
  fix s :: "'a kthread_state_scheme" and q
  assume "waitq_holds s q []"
  then show "waitq_remove q s = (None, q, s)" by (auto simp: waitq_holds_def waitq_remove_def split: prod.splits)
qed

text \<open>What the queue operations leave alone.\<close>

lemma upd_thread_simps [simp]:
  "kthreads (upd_thread t f s) = (kthreads s)(t := f (kthreads s t))"
  "current_kthread (upd_thread t f s) = current_kthread s" "preempt_count (upd_thread t f s) = preempt_count s"
  by (simp_all add: upd_thread_def)

lemma waitq_frames:
  "kt_state (kthreads (snd (waitq_add q x s)) t) = kt_state (kthreads s t)"
  "kt_state (kthreads (snd (snd (waitq_remove q s))) t) = kt_state (kthreads s t)"
  "current_kthread (snd (waitq_add q x s)) = current_kthread s" "preempt_count (snd (waitq_add q x s)) = preempt_count s"
  "current_kthread (snd (snd (waitq_remove q s))) = current_kthread s"
  "preempt_count (snd (snd (waitq_remove q s))) = preempt_count s"
  by (auto simp: waitq_add_def waitq_remove_def Let_def split: prod.splits option.splits)

lemma kthread_unblock_simps [simp]:
  "kt_state (kthreads (kthread_unblock x s) t) =
     (if t = x \<and> kt_state (kthreads s x) = THREAD_BLOCKED then THREAD_READY else kt_state (kthreads s t))"
  "current_kthread (kthread_unblock x s) = current_kthread s" "preempt_count (kthread_unblock x s) = preempt_count s"
  "kt_wait_next (kthreads (kthread_unblock x s) t) = kt_wait_next (kthreads s t)"
  by (auto simp: kthread_unblock_def)

lemma waitq_holds_cong:
  "(\<And>t. kt_wait_next (kthreads s' t) = kt_wait_next (kthreads s t)) \<Longrightarrow> waitq_holds s' q ts \<longleftrightarrow> waitq_holds s q ts"
  unfolding waitq_holds_def using wchain_cong[of ts "kthreads s'" "kthreads s"] by auto

lemma waitq_empty: "waitq_holds s q [] \<longleftrightarrow> q = (None, None)"
  by (cases q) (auto simp: waitq_holds_def)

lemma preempt_simps [simp]:
  "kthreads (preempt_disable s) = kthreads s" "kthreads (preempt_enable s) = kthreads s"
  "current_kthread (preempt_disable s) = current_kthread s" "current_kthread (preempt_enable s) = current_kthread s"
  "preempt_count (preempt_disable s) = preempt_count s + 1" "preempt_count (preempt_enable s) = preempt_count s - 1"
  "waitq_holds (preempt_disable s) q ts = waitq_holds s q ts" "waitq_holds (preempt_enable s) q ts = waitq_holds s q ts"
  by (simp_all add: preempt_disable_def preempt_enable_def waitq_holds_def)

lemma wake_first_ok:
  assumes "waitq_holds s q ts"
  shows "waitq_holds (snd (wake_first q s)) (fst (wake_first q s)) (tl ts)"
    "kt_state (kthreads (snd (wake_first q s)) t) =
      (if ts \<noteq> [] \<and> t = hd ts \<and> kt_state (kthreads s t) = THREAD_BLOCKED then THREAD_READY else kt_state (kthreads s t))"
    "current_kthread (snd (wake_first q s)) = current_kthread s" "preempt_count (snd (wake_first q s)) = preempt_count s"
proof -
  have *: "waitq_holds (snd (wake_first q s)) (fst (wake_first q s)) (tl ts)
    \<and> kt_state (kthreads (snd (wake_first q s)) t) =
      (if ts \<noteq> [] \<and> t = hd ts \<and> kt_state (kthreads s t) = THREAD_BLOCKED then THREAD_READY else kt_state (kthreads s t))
    \<and> current_kthread (snd (wake_first q s)) = current_kthread s \<and> preempt_count (snd (wake_first q s)) = preempt_count s"
  proof (cases ts)
    case Nil
    then show ?thesis using wq.remove_empty[of s q] assms by (simp add: wake_first_def)
  next
    case (Cons x xs)
    obtain q' s' where r: "waitq_remove q s = (Some x, q', s')" "waitq_holds s' q' xs"
      using wq.remove_ok[of s q x xs] assms Cons by blast
    have f: "kt_state (kthreads s' u) = kt_state (kthreads s u)" "current_kthread s' = current_kthread s" "preempt_count s' = preempt_count s" for u
      using waitq_frames(2,5,6)[of q s] r(1) by simp_all
    have w: "wake_first q s = (q', kthread_unblock x s')" using r(1) by (simp add: wake_first_def)
    have "waitq_holds (kthread_unblock x s') q' xs" using r(2) waitq_holds_cong[of "kthread_unblock x s'" s'] by simp
    then show ?thesis using Cons f by (auto simp: w)
  qed
  then show "waitq_holds (snd (wake_first q s)) (fst (wake_first q s)) (tl ts)"
    "kt_state (kthreads (snd (wake_first q s)) t) =
      (if ts \<noteq> [] \<and> t = hd ts \<and> kt_state (kthreads s t) = THREAD_BLOCKED then THREAD_READY else kt_state (kthreads s t))"
    "current_kthread (snd (wake_first q s)) = current_kthread s" "preempt_count (snd (wake_first q s)) = preempt_count s"
    by blast+
qed

lemma broadcast_loop_ok:
  "waitq_holds s c ts \<Longrightarrow> \<exists>s'. broadcast_loop c s = Some ((None, None), s') \<and> current_kthread s' = current_kthread s
     \<and> preempt_count s' = preempt_count s \<and> (\<forall>t. kt_state (kthreads s' t) =
       (if t \<in> set ts \<and> kt_state (kthreads s t) = THREAD_BLOCKED then THREAD_READY else kt_state (kthreads s t)))"
proof (induction ts arbitrary: c s)
  case Nil
  then show ?case using wq.remove_empty[of s c] waitq_empty[of s c] by (subst broadcast_loop.simps) simp
next
  case (Cons x xs)
  obtain q' s' where r: "waitq_remove c s = (Some x, q', s')" "waitq_holds s' q' xs"
    using wq.remove_ok[of s c x xs] Cons.prems by blast
  have f: "kt_state (kthreads s' u) = kt_state (kthreads s u)" "current_kthread s' = current_kthread s" "preempt_count s' = preempt_count s" for u
    using waitq_frames(2,5,6)[of c s] r(1) by simp_all
  have h: "waitq_holds (kthread_unblock x s') q' xs" using r(2) waitq_holds_cong[of "kthread_unblock x s'" s'] by simp
  have "broadcast_loop c s = broadcast_loop q' (kthread_unblock x s')" by (subst broadcast_loop.simps) (simp add: r(1))
  then show ?case using Cons.IH[OF h] f by auto
qed

text \<open>
  C23. \<^verbatim>\<open>cond_broadcast\<close> always returns on a well-formed queue: it leaves the queue empty, makes exactly the blocked waiters
  ready, and changes nothing else about the threads or the preemption count.
\<close>

theorem cond_broadcast_wakes_all:
  assumes "waitq_holds s c ts"
  shows "\<exists>s'. cond_broadcast c s = Some ((None, None), s') \<and> current_kthread s' = current_kthread s
     \<and> preempt_count s' = preempt_count s \<and> (\<forall>t. kt_state (kthreads s' t) =
       (if t \<in> set ts \<and> kt_state (kthreads s t) = THREAD_BLOCKED then THREAD_READY else kt_state (kthreads s t)))"
proof -
  have "waitq_holds (preempt_disable s) c ts" using assms by simp
  from broadcast_loop_ok[OF this] show ?thesis unfolding cond_broadcast_def by fastforce
qed

text \<open>
  C24. Wait queues are first-in first-out under every interleaving of additions and removals: from the empty queue the
  removals answer exactly what they answer on a list that grows at the end and shrinks at the front, an empty queue
  included, provided that a thread is not added while it is in the queue.
\<close>

theorem waitq_fifo:
  assumes "adds_new rs []"
  shows "queue_answers waitq_add waitq_remove rs (None, None) s = list_answers rs []"
proof -
  have "waitq_holds s (None, None) []" by (simp add: waitq_empty)
  from wq.fifo[OF this assms] show ?thesis .
qed

theorem cond_broadcast_wakes_all_witness:
  "\<exists>s'. cond_broadcast (Some (Kthread 0x2000), Some (Kthread 0x2000)) witness_threads = Some ((None, None), s')
     \<and> kt_state (kthreads s' (Kthread 0x2000)) = THREAD_READY"
proof -
  have "waitq_holds witness_threads (Some (Kthread 0x2000), Some (Kthread 0x2000)) [Kthread 0x2000]"
    "kt_state (kthreads witness_threads (Kthread 0x2000)) = THREAD_BLOCKED"
    by (simp_all add: waitq_holds_def witness_threads_def witness_tcb_def)
  then show ?thesis using cond_broadcast_wakes_all by fastforce
qed

theorem waitq_fifo_witness:
  "queue_answers waitq_add waitq_remove [Add Genesis, Remove, Add (Kthread 0x2000), Add Genesis, Remove, Remove, Remove] (None, None) witness_threads
     = [Some Genesis, Some (Kthread 0x2000), Some Genesis, None]"
  using waitq_fifo[of "[Add Genesis, Remove, Add (Kthread 0x2000), Add Genesis, Remove, Remove, Remove]" witness_threads] by simp

section \<open>Mutual exclusion\<close>

text \<open>
  Runs of the mutex operations by whatever thread is current, with any steps of the scheduler
  in between; \<open>H\<close> is the set of threads that hold the mutex. Only a holder unlocks or waits.
\<close>

inductive mutex_run :: "kthread_ptr set \<Rightarrow> mutex \<Rightarrow> 'a kthread_state_scheme \<Rightarrow> bool" where
  init: "mutex_run {} (mutex_init m) s"
| lock: "mutex_run H m s \<Longrightarrow> current_kthread s = Some t \<Longrightarrow> mutex_lock m s = Some (Acquired, m', s') \<Longrightarrow> mutex_run (insert t H) m' s'"
| block: "mutex_run H m s \<Longrightarrow> mutex_lock m s = Some (Blocked r, m', s') \<Longrightarrow> mutex_run H m' s'"
| trylock: "mutex_run H m s \<Longrightarrow> current_kthread s = Some t \<Longrightarrow> mutex_trylock m s = (got, m', s') \<Longrightarrow>
    mutex_run (if got then insert t H else H) m' s'"
| unlock: "mutex_run H m s \<Longrightarrow> current_kthread s = Some t \<Longrightarrow> t \<in> H \<Longrightarrow> mutex_unlock m s = (m', s') \<Longrightarrow> mutex_run (H - {t}) m' s'"
| wait: "mutex_run H m s \<Longrightarrow> current_kthread s = Some t \<Longrightarrow> t \<in> H \<Longrightarrow> cond_wait c m s = Some (r, c', m', s') \<Longrightarrow> mutex_run (H - {t}) m' s'"
| reacquire: "mutex_run H m s \<Longrightarrow> current_kthread s = Some t \<Longrightarrow> cond_reacquire m s = Some (Acquired, m', s') \<Longrightarrow> mutex_run (insert t H) m' s'"
| reblock: "mutex_run H m s \<Longrightarrow> cond_reacquire m s = Some (Blocked r, m', s') \<Longrightarrow> mutex_run H m' s'"
| other: "mutex_run H m s \<Longrightarrow> thread_step s s' \<Longrightarrow> mutex_run H m s'"

lemma mutex_run_owner:
  "mutex_run H m s \<Longrightarrow> (if mx_locked m = 0 then H = {} \<and> mx_owner m = None else \<exists>t. mx_owner m = Some t \<and> H = {t})"
proof (induction rule: mutex_run.induct)
  case (wait H m s t c r c' m' s')
  then have "mx_locked m' = 0 \<and> mx_owner m' = None"
    by (auto simp: cond_wait_def cond_release_def Let_def kthread_current_def split: prod.splits option.splits)
  then show ?case using wait by (auto split: if_splits)
next
  case (reacquire H m s t m' s')
  then show ?case by (auto simp: cond_reacquire_def cond_enter_def Let_def kthread_current_def split: prod.splits option.splits if_splits)
next
  case (reblock H m s r m' s')
  then have "mx_locked m' = mx_locked m \<and> mx_owner m' = mx_owner m"
    by (auto simp: cond_reacquire_def cond_enter_def Let_def kthread_current_def split: prod.splits option.splits if_splits)
  then show ?case using reblock by simp
next
  case (lock H m s t m' s')
  then show ?case by (auto simp: mutex_lock_def mutex_enter_def Let_def kthread_current_def split: prod.splits option.splits if_splits)
next
  case (block H m s r m' s')
  then have "mx_locked m' = mx_locked m \<and> mx_owner m' = mx_owner m"
    by (auto simp: mutex_lock_def mutex_enter_def Let_def kthread_current_def split: prod.splits option.splits if_splits)
  then show ?case using block by simp
next
  case (trylock H m s t got m' s')
  then show ?case by (auto simp: mutex_trylock_def Let_def kthread_current_def split: if_splits)
next
  case (unlock H m s t m' s')
  then have "mx_locked m' = 0 \<and> mx_owner m' = None" by (auto simp: mutex_unlock_def Let_def split: prod.splits)
  then show ?case using unlock by (auto split: if_splits)
qed (auto simp: mutex_init_def)

text \<open>
  C25. Mutual exclusion: in every run of locking, try-locking, unlocking and waiting on a
  condition, whatever the scheduler does in between, at most one thread holds the mutex, it is the
  recorded owner, and the mutex is free exactly when nobody holds it.
\<close>

theorem mutex_mutual_exclusion:
  assumes "mutex_run H m s"
  shows "(\<forall>t u. t \<in> H \<longrightarrow> u \<in> H \<longrightarrow> t = u) \<and> (mx_locked m = 0 \<longleftrightarrow> H = {}) \<and> (\<forall>t. t \<in> H \<longleftrightarrow> mx_owner m = Some t)"
  using mutex_run_owner[OF assms] by (auto split: if_splits)

definition witness_mutex :: mutex where
  "witness_mutex = mutex_init \<lparr>mx_locked = 0, mx_owner = None, mx_wait = (None, None)\<rparr>"

theorem mutex_mutual_exclusion_witness:
  "\<exists>m s. mutex_lock witness_mutex witness_threads = Some (Acquired, m, s) \<and> mx_owner m = Some Genesis"
proof -
  obtain m s where l: "mutex_lock witness_mutex witness_threads = Some (Acquired, m, s)"
    by (simp add: mutex_lock_def mutex_enter_def witness_mutex_def mutex_init_def Let_def)
  have "mutex_run {Genesis} m s"
    using mutex_run.lock[OF mutex_run.init witness_threads_ok(2) l[unfolded witness_mutex_def]] by simp
  from mutex_mutual_exclusion[OF this] show ?thesis using l by auto
qed

text \<open>
  C26. \<^verbatim>\<open>mutex_unlock\<close> releases the mutex and hands the turn to the thread that waited longest: it leaves the queue
  and, if blocked, becomes ready; no other thread's state and no other queue entry changes.
\<close>

theorem mutex_unlock_wakes_first:
  assumes "waitq_holds s (mx_wait m) ts" "mutex_unlock m s = (m', s')"
  shows "mx_locked m' = 0 \<and> mx_owner m' = None \<and> waitq_holds s' (mx_wait m') (tl ts)
    \<and> current_kthread s' = current_kthread s \<and> preempt_count s' = preempt_count s
    \<and> (\<forall>t. kt_state (kthreads s' t) =
         (if ts \<noteq> [] \<and> t = hd ts \<and> kt_state (kthreads s t) = THREAD_BLOCKED then THREAD_READY else kt_state (kthreads s t)))"
proof -
  have h: "waitq_holds (preempt_disable s) (mx_wait m) ts" using assms(1) by simp
  show ?thesis using assms(2) wake_first_ok[OF h] by (auto simp: mutex_unlock_def split: prod.splits)
qed

theorem mutex_unlock_wakes_first_witness:
  "kt_state (kthreads (snd (mutex_unlock (witness_mutex\<lparr>mx_wait := (Some (Kthread 0x2000), Some (Kthread 0x2000))\<rparr>) witness_threads))
     (Kthread 0x2000)) = THREAD_READY"
proof -
  let ?m = "witness_mutex\<lparr>mx_wait := (Some (Kthread 0x2000), Some (Kthread 0x2000))\<rparr>"
  have "waitq_holds witness_threads (mx_wait ?m) [Kthread 0x2000]"
    "kt_state (kthreads witness_threads (Kthread 0x2000)) = THREAD_BLOCKED"
    by (simp_all add: waitq_holds_def witness_threads_def witness_tcb_def)
  then show ?thesis using mutex_unlock_wakes_first[OF _ surjective_pairing] by fastforce
qed

text \<open>
  The wake-up is lost when the waiter has queued itself but not yet blocked: \<^verbatim>\<open>mutex_lock\<close> enables preemption
  before it calls \<^verbatim>\<open>kthread_block\<close>, and an unlock in between removes the thread from the queue
  without effect. The thread then blocks with no wake-up time and in no queue, while the mutex is free.
\<close>

lemma mutex_lost_wakeup:
  assumes "waitq_holds s (mx_wait m) [t]" "kt_state (kthreads s t) = THREAD_READY" "mutex_unlock m s = (m', s')"
  shows "mx_locked m' = 0" "mx_wait m' = (None, None)" "kt_state (kthreads s' t) = THREAD_READY"
proof -
  have h: "waitq_holds (preempt_disable s) (mx_wait m) [t]" using assms(1) by simp
  show "mx_locked m' = 0" "mx_wait m' = (None, None)" "kt_state (kthreads s' t) = THREAD_READY"
    using assms(2,3) wake_first_ok[OF h] by (auto simp: mutex_unlock_def waitq_empty split: prod.splits)
qed

section \<open>Spinlocks\<close>

lemma spin_lock_acquires:
  assumes "lock = 0 \<or> (\<exists>k\<ge>n. others k 1 = 0)"
  shows "\<exists>k. spin_lock others n lock = Some (k, 1)"
proof -
  have *: "\<exists>k. spin_lock others n 0 = Some (k, 1)" for n by (subst spin_lock.simps) (simp add: test_and_set_def)
  have "\<exists>j. spin_lock others n lock = Some (j, 1)" if "others (n + d) 1 = 0" for d lock n
    using that
  proof (induction d arbitrary: n lock)
    case 0
    then show ?case using *[of "n + 1"] *[of n]
      by (cases "lock = 0") (auto simp: test_and_set_def spin_lock.simps[of others n lock])
  next
    case (Suc d)
    then show ?case using Suc.IH[of "n + 1" "others n 1"] *[of n]
      by (cases "lock = 0") (auto simp: test_and_set_def spin_lock.simps[of others n lock])
  qed
  then show ?thesis using assms * by (metis le_Suc_ex)
qed

end
