(* ===== verification/Descriptors.thy ===== *)
theory Descriptors
  imports Kthread_Sched
begin

text \<open>
  The processor's tables: the global descriptor table and the task state segment
  (\<^verbatim>\<open>arch/x86/kernel/gdt.c\<close>), the interrupt descriptor table and the registered interrupt handlers
  (\<^verbatim>\<open>arch/x86/kernel/idt.c\<close>), and the per-processor data (\<^verbatim>\<open>percpu.c\<close>).

  The addresses that the linker gives to the tables, stacks and interrupt stubs are arguments.
  The lemmas read the tables the way the processor does and find what the code meant to put there.
\<close>

section \<open>State\<close>

record gdt_entry =
  limit_low :: u16
  base_low :: u16
  base_mid :: u8
  access :: u8
  limit_flags :: u8
  base_high :: u8

record x86_tss =
  tss_rsp0 :: u64
  tss_rsp1 :: u64
  tss_rsp2 :: u64
  tss_ist1 :: u64
  tss_ist2 :: u64
  tss_ist3 :: u64
  tss_ist4 :: u64
  tss_ist5 :: u64
  tss_ist6 :: u64
  tss_ist7 :: u64
  iopb_offset :: u16

record idt_entry =
  offset_low :: u16
  selector :: u16
  ist :: u8
  type_attr :: u8
  offset_mid :: u16
  offset_high :: u32
  idt_zero :: u32

text \<open>The handlers that the kernel registers: the timer, the keyboard and the serial port.\<close>

datatype irq_handler = timer_irq | keyboard_irq | serial_irq

record percpu =
  pc_current :: "u64 option"
  kernel_rsp :: u64
  user_rsp :: u64
  pc_self :: u64
  cpu_id :: u32
  irq_depth :: u32

record table_state = kthread_state +
  gdt :: "gdt_entry list"
  gdtr :: "u16 \<times> u64"
  tr :: u16
  tss :: x86_tss
  idt :: "idt_entry list"
  idtr :: "u16 \<times> u64"
  irq_handlers :: "irq_handler option list"
  cpu0_percpu :: percpu

section \<open>The global descriptor table\<close>

definition GDT_KERNEL_CODE :: u16 where "GDT_KERNEL_CODE = 0x08"
definition GDT_KERNEL_DATA :: u16 where "GDT_KERNEL_DATA = 0x10"
definition GDT_USER_DATA :: u16 where "GDT_USER_DATA = 0x18"
definition GDT_USER_CODE :: u16 where "GDT_USER_CODE = 0x20"
definition GDT_TSS :: u16 where "GDT_TSS = 0x28"
definition GDT_ENTRIES :: nat where "GDT_ENTRIES = 7"

definition GDT_ACCESS_PRESENT :: u8 where "GDT_ACCESS_PRESENT = push_bit 7 1"
definition GDT_ACCESS_DPL0 :: u8 where "GDT_ACCESS_DPL0 = push_bit 5 0"
definition GDT_ACCESS_DPL3 :: u8 where "GDT_ACCESS_DPL3 = push_bit 5 3"
definition GDT_ACCESS_CODE_DATA :: u8 where "GDT_ACCESS_CODE_DATA = push_bit 4 1"
definition GDT_ACCESS_EXEC :: u8 where "GDT_ACCESS_EXEC = push_bit 3 1"
definition GDT_ACCESS_RW :: u8 where "GDT_ACCESS_RW = push_bit 1 1"

definition GDT_ACCESS_KERNEL_CODE :: u8 where
  "GDT_ACCESS_KERNEL_CODE = GDT_ACCESS_PRESENT OR GDT_ACCESS_DPL0 OR GDT_ACCESS_CODE_DATA OR GDT_ACCESS_EXEC OR GDT_ACCESS_RW"
definition GDT_ACCESS_KERNEL_DATA :: u8 where
  "GDT_ACCESS_KERNEL_DATA = GDT_ACCESS_PRESENT OR GDT_ACCESS_DPL0 OR GDT_ACCESS_CODE_DATA OR GDT_ACCESS_RW"
definition GDT_ACCESS_USER_CODE :: u8 where
  "GDT_ACCESS_USER_CODE = GDT_ACCESS_PRESENT OR GDT_ACCESS_DPL3 OR GDT_ACCESS_CODE_DATA OR GDT_ACCESS_EXEC OR GDT_ACCESS_RW"
definition GDT_ACCESS_USER_DATA :: u8 where
  "GDT_ACCESS_USER_DATA = GDT_ACCESS_PRESENT OR GDT_ACCESS_DPL3 OR GDT_ACCESS_CODE_DATA OR GDT_ACCESS_RW"
definition GDT_ACCESS_TSS :: u8 where
  "GDT_ACCESS_TSS = GDT_ACCESS_PRESENT OR 0x09"
definition GDT_FLAG_GRANULARITY :: u8 where "GDT_FLAG_GRANULARITY = push_bit 7 1"
definition GDT_FLAGS_CODE64 :: u8 where "GDT_FLAGS_CODE64 = push_bit 5 1"
definition GDT_FLAGS_DATA :: u8 where "GDT_FLAGS_DATA = 0"

definition IST_GUARD_SIZE :: u64 where "IST_GUARD_SIZE = 4096"
definition IST_STACK_TOTAL :: u64 where "IST_STACK_TOTAL = 8192 + IST_GUARD_SIZE"
definition SIZEOF_TSS :: u32 where "SIZEOF_TSS = 104"

definition gdt_set_entry :: "nat \<Rightarrow> u32 \<Rightarrow> u32 \<Rightarrow> u8 \<Rightarrow> u8 \<Rightarrow> 'a table_state_scheme \<Rightarrow> 'a table_state_scheme" where
  "gdt_set_entry index base limit acc flags s =
     s\<lparr>gdt := (gdt s)[index :=
        \<lparr>limit_low = ucast (limit AND 0xFFFF), base_low = ucast (base AND 0xFFFF),
         base_mid = ucast (drop_bit 16 base AND 0xFF), access = acc,
         limit_flags = ucast (drop_bit 16 limit AND 0x0F) OR (flags AND 0xF0),
         base_high = ucast (drop_bit 24 base AND 0xFF)\<rparr>]\<rparr>"

text \<open>
  The 16-byte TSS descriptor overlays slots 5 and 6: \<^verbatim>\<open>base_high\<close> and \<^verbatim>\<open>reserved\<close> are the eight bytes
  of slot 6.
\<close>

definition gdt_set_tss :: "u64 \<Rightarrow> 'a table_state_scheme \<Rightarrow> 'a table_state_scheme" where
  "gdt_set_tss tss_base s =
     (let tss_limit = SIZEOF_TSS - 1;
          high = ucast (drop_bit 32 tss_base AND 0xFFFFFFFF) :: u32
      in s\<lparr>gdt := (gdt s)[5 :=
             \<lparr>limit_low = ucast (tss_limit AND 0xFFFF), base_low = ucast (tss_base AND 0xFFFF),
              base_mid = ucast (drop_bit 16 tss_base AND 0xFF), access = GDT_ACCESS_TSS,
              limit_flags = ucast (drop_bit 16 tss_limit AND 0x0F),
              base_high = ucast (drop_bit 24 tss_base AND 0xFF)\<rparr>,
            6 := \<lparr>limit_low = ucast high, base_low = ucast (drop_bit 16 high), base_mid = 0, access = 0, limit_flags = 0, base_high = 0\<rparr>]\<rparr>)"

text \<open>The addresses of the three IST stacks.\<close>

type_synonym ist_stacks = "u64 \<times> u64 \<times> u64"

definition tss_init :: "ist_stacks \<Rightarrow> 'a table_state_scheme \<Rightarrow> 'a table_state_scheme" where
  "tss_init stacks s =
     (case stacks of (nmi, df, mce) \<Rightarrow>
      s\<lparr>tss := \<lparr>tss_rsp0 = 0, tss_rsp1 = 0, tss_rsp2 = 0,
         tss_ist1 = nmi + IST_STACK_TOTAL, tss_ist2 = df + IST_STACK_TOTAL, tss_ist3 = mce + IST_STACK_TOTAL,
         tss_ist4 = 0, tss_ist5 = 0, tss_ist6 = 0, tss_ist7 = 0, iopb_offset = ucast SIZEOF_TSS\<rparr>\<rparr>)"

definition gdt_install_ist_guards :: "ist_stacks \<Rightarrow> 'a table_state_scheme \<Rightarrow> 'a table_state_scheme" where
  "gdt_install_ist_guards stacks s =
     (case stacks of (nmi, df, mce) \<Rightarrow>
      fold (\<lambda>base s'. snd (vmm_unmap_page (vmm_get_kernel_pml4 s) base s')) [nmi, df, mce] s)"

definition gdt_init :: "u64 \<Rightarrow> u64 \<Rightarrow> ist_stacks \<Rightarrow> 'a table_state_scheme \<Rightarrow> 'a table_state_scheme" where
  "gdt_init gdt_addr tss_addr stacks s =
     (let s0 = gdt_set_entry 0 0 0 0 0 s;
          s1 = gdt_set_entry 1 0 0xFFFFF GDT_ACCESS_KERNEL_CODE (GDT_FLAG_GRANULARITY OR GDT_FLAGS_CODE64) s0;
          s2 = gdt_set_entry 2 0 0xFFFFF GDT_ACCESS_KERNEL_DATA (GDT_FLAG_GRANULARITY OR GDT_FLAGS_DATA) s1;
          s3 = gdt_set_entry 3 0 0xFFFFF GDT_ACCESS_USER_DATA (GDT_FLAG_GRANULARITY OR GDT_FLAGS_DATA) s2;
          s4 = gdt_set_entry 4 0 0xFFFFF GDT_ACCESS_USER_CODE (GDT_FLAG_GRANULARITY OR GDT_FLAGS_CODE64) s3;
          s5 = gdt_set_tss tss_addr (tss_init stacks s4)
      in s5\<lparr>gdtr := (of_nat (8 * GDT_ENTRIES) - 1, gdt_addr), tr := GDT_TSS\<rparr>)"

definition gdt_set_tss_rsp0 :: "u64 \<Rightarrow> 'a table_state_scheme \<Rightarrow> 'a table_state_scheme" where
  "gdt_set_tss_rsp0 rsp0 s = s\<lparr>tss := (tss s)\<lparr>tss_rsp0 := rsp0\<rparr>\<rparr>"

section \<open>The interrupt descriptor table\<close>

definition IDT_SIZE :: nat where "IDT_SIZE = 256"
definition IDT_GATE_INTERRUPT :: u8 where "IDT_GATE_INTERRUPT = 0x8E"

text \<open>The stubs that exist: vectors 0 to 47 and the spurious vector 255; \<open>isr v\<close> is the address of \<^verbatim>\<open>isr_v\<close>.\<close>

definition isr_stubs :: "(nat \<Rightarrow> u64) \<Rightarrow> nat \<Rightarrow> u64" where
  "isr_stubs isr v = (if v \<le> 47 \<or> v = 255 then isr v else 0)"

definition idt_set_gate :: "nat \<Rightarrow> u64 \<Rightarrow> u16 \<Rightarrow> u8 \<Rightarrow> u8 \<Rightarrow> 'a table_state_scheme \<Rightarrow> 'a table_state_scheme" where
  "idt_set_gate n handler sel attr ist_index s =
     s\<lparr>idt := (idt s)[n :=
        \<lparr>offset_low = ucast (handler AND 0xFFFF), selector = sel, ist = ist_index AND 0x07, type_attr = attr,
         offset_mid = ucast (drop_bit 16 handler AND 0xFFFF), offset_high = ucast (drop_bit 32 handler AND 0xFFFFFFFF), idt_zero = 0\<rparr>]\<rparr>"

definition idt_install :: "(nat \<Rightarrow> u64) \<Rightarrow> u64 \<Rightarrow> 'a table_state_scheme \<Rightarrow> 'a table_state_scheme" where
  "idt_install isr idt_addr s =
     (let s1 = fold (\<lambda>i s. s\<lparr>irq_handlers := (irq_handlers s)[i := None]\<rparr>) [0..<256] s;
          s2 = fold (\<lambda>i s. if isr_stubs isr i \<noteq> 0
                 then idt_set_gate i (isr_stubs isr i) GDT_KERNEL_CODE IDT_GATE_INTERRUPT 0 s else s) [0..<IDT_SIZE] s1;
          s3 = idt_set_gate 2 (isr 2) GDT_KERNEL_CODE IDT_GATE_INTERRUPT 1 s2;
          s4 = idt_set_gate 8 (isr 8) GDT_KERNEL_CODE IDT_GATE_INTERRUPT 2 s3;
          s5 = idt_set_gate 18 (isr 18) GDT_KERNEL_CODE IDT_GATE_INTERRUPT 3 s4
      in s5\<lparr>idtr := (of_nat (16 * IDT_SIZE) - 1, idt_addr)\<rparr>)"

definition idt_register_irq :: "int \<Rightarrow> irq_handler \<Rightarrow> 'a table_state_scheme \<Rightarrow> 'a table_state_scheme" where
  "idt_register_irq irq handler s =
     (if irq \<ge> 0 \<and> irq < 256 then s\<lparr>irq_handlers := (irq_handlers s)[nat irq := Some handler]\<rparr> else s)"

section \<open>Per-processor data\<close>

definition MSR_GS_BASE :: u32 where "MSR_GS_BASE = 0xC0000101"
definition MSR_KERNEL_GS_BASE :: u32 where "MSR_KERNEL_GS_BASE = 0xC0000102"

definition percpu_init :: "u64 \<Rightarrow> 'a table_state_scheme \<Rightarrow> 'a table_state_scheme" where
  "percpu_init percpu_addr s =
     (let s1 = s\<lparr>cpu0_percpu := \<lparr>pc_current = None, kernel_rsp = 0, user_rsp = 0, pc_self = percpu_addr, cpu_id = 0, irq_depth = 0\<rparr>\<rparr>
      in wrmsr MSR_KERNEL_GS_BASE percpu_addr (wrmsr MSR_GS_BASE percpu_addr s1))"

definition percpu_set_kernel_stack :: "u64 \<Rightarrow> 'a table_state_scheme \<Rightarrow> 'a table_state_scheme" where
  "percpu_set_kernel_stack r s = s\<lparr>cpu0_percpu := (cpu0_percpu s)\<lparr>kernel_rsp := r\<rparr>\<rparr>"

definition percpu_set_current :: "u64 option \<Rightarrow> 'a table_state_scheme \<Rightarrow> 'a table_state_scheme" where
  "percpu_set_current proc s = s\<lparr>cpu0_percpu := (cpu0_percpu s)\<lparr>pc_current := proc\<rparr>\<rparr>"

definition percpu_get_current :: "'a table_state_scheme \<Rightarrow> u64 option" where
  "percpu_get_current s = pc_current (cpu0_percpu s)"

section \<open>What the processor reads\<close>

definition descriptor_base :: "gdt_entry \<Rightarrow> u32" where
  "descriptor_base e = ucast (base_low e) OR push_bit 16 (ucast (base_mid e)) OR push_bit 24 (ucast (base_high e))"

definition descriptor_limit :: "gdt_entry \<Rightarrow> u32" where
  "descriptor_limit e = ucast (limit_low e) OR push_bit 16 (ucast (limit_flags e AND 0x0F))"

definition descriptor_dpl :: "gdt_entry \<Rightarrow> u8" where
  "descriptor_dpl e = drop_bit 5 (access e) AND 3"

definition tss_descriptor_base :: "gdt_entry \<Rightarrow> gdt_entry \<Rightarrow> u64" where
  "tss_descriptor_base lo hi = ucast (descriptor_base lo)
     OR push_bit 32 (ucast (limit_low hi)) OR push_bit 48 (ucast (base_low hi))"

definition gate_offset :: "idt_entry \<Rightarrow> u64" where
  "gate_offset e = ucast (offset_low e) OR push_bit 16 (ucast (offset_mid e)) OR push_bit 32 (ucast (offset_high e))"

definition gate_present :: "idt_entry \<Rightarrow> bool" where
  "gate_present e \<longleftrightarrow> bit (type_attr e) 7"

definition gate_dpl :: "idt_entry \<Rightarrow> u8" where
  "gate_dpl e = drop_bit 5 (type_attr e) AND 3"

definition gate_type :: "idt_entry \<Rightarrow> u8" where
  "gate_type e = type_attr e AND 0x1F"

section \<open>The tables read back\<close>

definition gate :: "u64 \<Rightarrow> u16 \<Rightarrow> u8 \<Rightarrow> u8 \<Rightarrow> idt_entry" where
  "gate handler sel attr ist_index =
     \<lparr>offset_low = ucast (handler AND 0xFFFF), selector = sel, ist = ist_index AND 0x07, type_attr = attr,
      offset_mid = ucast (drop_bit 16 handler AND 0xFFFF), offset_high = ucast (drop_bit 32 handler AND 0xFFFFFFFF), idt_zero = 0\<rparr>"

lemma low_masks: "(0xFFFF :: u64) = mask 16" "(0xFFFFFFFF :: u64) = mask 32"
  by (simp_all add: mask_eq_exp_minus_1)

lemma gate_offset_gate [simp]: "gate_offset (gate handler sel attr i) = handler"
proof (rule bit_eqI)
  fix n assume "possible_bit TYPE(u64) n"
  then have n: "n < 64" by simp
  have "bit (gate_offset (gate handler sel attr i)) n \<longleftrightarrow>
     n < 16 \<and> bit handler n \<or> 16 \<le> n \<and> n - 16 < 16 \<and> bit handler (16 + (n - 16)) \<or> 32 \<le> n \<and> n - 32 < 32 \<and> bit handler (32 + (n - 32))"
    using n by (auto simp: gate_offset_def gate_def low_masks bit_simps)
  then show "bit (gate_offset (gate handler sel attr i)) n \<longleftrightarrow> bit handler n"
    using n by (cases "n < 16"; cases "n < 32") auto
qed

lemma idt_set_gate_idt: "idt (idt_set_gate n handler sel attr i s) = (idt s)[n := gate handler sel attr i]"
  by (simp add: idt_set_gate_def gate_def)

lemma install_loop_idt:
  assumes "n \<le> length (idt s)"
  shows "idt (fold (\<lambda>i s. if h i \<noteq> 0 then idt_set_gate i (h i) sel attr 0 s else s) [0..<n] s)
    = map (\<lambda>i. if i < n \<and> h i \<noteq> 0 then gate (h i) sel attr 0 else idt s ! i) [0..<length (idt s)]"
  using assms
proof (induction n)
  case 0
  then show ?case by (simp add: map_nth)
next
  case (Suc n)
  then show ?case by (auto simp: idt_set_gate_idt less_Suc_eq nth_list_update intro!: nth_equalityI)
qed

lemma clear_handlers_idt [simp]: "idt (fold (\<lambda>i s. s\<lparr>irq_handlers := (irq_handlers s)[i := None]\<rparr>) is s) = idt s"
  by (induction "is" arbitrary: s) auto

definition stack_table :: "nat \<Rightarrow> u8" where
  "stack_table v = (if v = 2 then 1 else if v = 8 then 2 else if v = 18 then 3 else 0)"

text \<open>
  C32. After \<^verbatim>\<open>idt_install\<close> every vector with a stub has a present gate to exactly that stub in the kernel code
  segment (selector 8). The gate is a 64-bit interrupt gate (type 14, so interrupts are off in the handler) that only
  ring 0 can enter with an \<^verbatim>\<open>int\<close> instruction (privilege level 0). The emergency stacks are on the
  non-maskable interrupt, the double fault and the machine check only. The other gates keep their contents.
\<close>

theorem idt_install_gates:
  assumes "length (idt s) = IDT_SIZE" "v < IDT_SIZE" "isr 2 \<noteq> 0" "isr 8 \<noteq> 0" "isr 18 \<noteq> 0"
  shows "if isr_stubs isr v \<noteq> 0
     then gate_offset (idt (idt_install isr a s) ! v) = isr v \<and> gate_present (idt (idt_install isr a s) ! v) \<and>
          selector (idt (idt_install isr a s) ! v) = 8 \<and> ist (idt (idt_install isr a s) ! v) = stack_table v \<and>
          gate_type (idt (idt_install isr a s) ! v) = 14 \<and> gate_dpl (idt (idt_install isr a s) ! v) = 0
     else idt (idt_install isr a s) ! v = idt s ! v"
proof -
  have stub: "isr_stubs isr 2 = isr 2" "isr_stubs isr 8 = isr 8" "isr_stubs isr 18 = isr 18" "isr_stubs isr v \<noteq> 0 \<Longrightarrow> isr_stubs isr v = isr v"
    by (auto simp: isr_stubs_def split: if_splits)
  have "idt (idt_install isr a s) = (map (\<lambda>i. if i < IDT_SIZE \<and> isr_stubs isr i \<noteq> 0 then gate (isr_stubs isr i) GDT_KERNEL_CODE IDT_GATE_INTERRUPT 0 else idt s ! i) [0..<IDT_SIZE])
     [2 := gate (isr 2) GDT_KERNEL_CODE IDT_GATE_INTERRUPT 1, 8 := gate (isr 8) GDT_KERNEL_CODE IDT_GATE_INTERRUPT 2,
      18 := gate (isr 18) GDT_KERNEL_CODE IDT_GATE_INTERRUPT 3]"
    using assms(1) by (simp add: idt_install_def Let_def idt_set_gate_idt install_loop_idt cong: if_cong)
  then have "idt (idt_install isr a s) ! v =
    (if isr_stubs isr v \<noteq> 0 then gate (isr v) GDT_KERNEL_CODE IDT_GATE_INTERRUPT (stack_table v) else idt s ! v)"
    using assms stub by (auto simp: nth_list_update stack_table_def IDT_SIZE_def)
  moreover have "gate_present (gate h sel IDT_GATE_INTERRUPT i)" "gate_type (gate h sel IDT_GATE_INTERRUPT i) = 14"
    "gate_dpl (gate h sel IDT_GATE_INTERRUPT i) = 0" for h sel i
    by (simp_all add: gate_present_def gate_type_def gate_dpl_def gate_def IDT_GATE_INTERRUPT_def)
  moreover have "selector (gate h sel attr i) = sel" "ist (gate h sel attr i) = i AND 7" for h sel attr i by (simp_all add: gate_def)
  moreover have "stack_table v AND 7 = stack_table v" by (simp add: stack_table_def)
  ultimately show ?thesis by (simp add: GDT_KERNEL_CODE_def)
qed

definition witness_tables :: table_state where
  "witness_tables = kthread_state.extend witness_threads (table_state.fields [] (0, 0) 0
     \<lparr>tss_rsp0 = 0, tss_rsp1 = 0, tss_rsp2 = 0, tss_ist1 = 0, tss_ist2 = 0, tss_ist3 = 0, tss_ist4 = 0, tss_ist5 = 0,
      tss_ist6 = 0, tss_ist7 = 0, iopb_offset = 0\<rparr>
     (replicate IDT_SIZE (gate 0 0 0 0)) (0, 0) (replicate 256 None)
     \<lparr>pc_current = None, kernel_rsp = 0, user_rsp = 0, pc_self = 0, cpu_id = 0, irq_depth = 0\<rparr>)"

theorem idt_install_gates_witness:
  "gate_offset (idt (idt_install (\<lambda>v. 0x1000 + of_nat v) 0x9000 witness_tables) ! 8) = 0x1008 \<and>
   ist (idt (idt_install (\<lambda>v. 0x1000 + of_nat v) 0x9000 witness_tables) ! 8) = 2 \<and>
   gate_dpl (idt (idt_install (\<lambda>v. 0x1000 + of_nat v) 0x9000 witness_tables) ! 8) = 0"
proof -
  have "length (idt witness_tables) = IDT_SIZE"
    by (simp add: witness_tables_def kthread_state.defs table_state.defs)
  then show ?thesis using idt_install_gates[of witness_tables 8 "\<lambda>v. 0x1000 + of_nat v" "0x9000"]
    by (simp add: isr_stubs_def IDT_SIZE_def stack_table_def)
qed

end
