(* ===== verification/Acpi.thy ===== *)
theory Acpi
  imports Descriptors
begin

text \<open>
  Discovery of the interrupt controllers, \<^verbatim>\<open>arch/x86/kernel/acpi.c\<close>, and the I/O APIC driver,
  \<^verbatim>\<open>arch/x86/kernel/ioapic.c\<close>.

  The tables are in physical memory; \<^verbatim>\<open>acpi_map_region\<close> maps them in the kernel's address space and the code
  reads them through that mapping. \<open>vmem\<close> is memory as the processor sees it through the page tables of
  \<open>cr3\<close>. The address of the root pointer comes from the boot loader and is an argument. The walk
  over the entries of a table whose lengths are read from memory is a partial function.
\<close>

section \<open>Memory behind the page tables\<close>

text \<open>The translation of an address that is mapped by a page table of the last level.\<close>

definition translate :: "'a vmm_state_scheme \<Rightarrow> u64 \<Rightarrow> u64" where
  "translate s v = vmm_get_physical (cr3 s) v s + (v AND (PAGE_SIZE - 1))"

definition vmem :: "'a vmm_state_scheme \<Rightarrow> bytes" where
  "vmem s v = mem s (translate s v)"

definition vload8 :: "'a vmm_state_scheme \<Rightarrow> u64 \<Rightarrow> u8" where "vload8 s a = vmem s a"
definition vload16 :: "'a vmm_state_scheme \<Rightarrow> u64 \<Rightarrow> u16" where "vload16 s a = load_le (vmem s) a 2"
definition vload32 :: "'a vmm_state_scheme \<Rightarrow> u64 \<Rightarrow> u32" where "vload32 s a = load_le (vmem s) a 4"
definition vload64 :: "'a vmm_state_scheme \<Rightarrow> u64 \<Rightarrow> u64" where "vload64 s a = load_le (vmem s) a 8"

section \<open>Parsed information\<close>

record irq_override =
  ov_irq_source :: u8
  ov_gsi :: u32
  ov_flags :: u16

record acpi_info =
  local_apic_address :: u64
  io_apic_address :: u64
  io_apic_id :: u8
  io_apic_gsi_base :: u32
  cpu_count :: nat
  cpu_apic_ids :: "u8 list"
  has_pic :: u32
  override_count :: nat
  overrides :: "irq_override list"

record acpi_state = table_state +
  acpi_info :: acpi_info
  acpi_virt_next :: u64
  ioapic_base :: u64
  ioapic_max_entry :: u8

definition MAX_IRQ_OVERRIDES :: nat where "MAX_IRQ_OVERRIDES = 16"
definition SIZEOF_SDT_HEADER :: u64 where "SIZEOF_SDT_HEADER = 36"
definition SIZEOF_RSDP2 :: u64 where "SIZEOF_RSDP2 = 36"
definition SIZEOF_MADT :: u64 where "SIZEOF_MADT = 44"

section \<open>ACPI tables\<close>

text \<open>The page loop of \<^verbatim>\<open>acpi_map_region\<close>; it stops at the first page that cannot be mapped.\<close>

fun map_region_pages :: "nat \<Rightarrow> u64 \<Rightarrow> u64 \<Rightarrow> u64 \<Rightarrow> 'a acpi_state_scheme \<Rightarrow> bool \<times> 'a acpi_state_scheme" where
  "map_region_pages 0 pml4 virt phys s = (True, s)"
| "map_region_pages (Suc n) pml4 virt phys s =
     (let (result, s1) = vmm_map_page pml4 virt phys (PTE_PRESENT OR PTE_WRITABLE) s in
      if result \<noteq> 0 then (False, s1)
      else map_region_pages n pml4 (virt + PAGE_SIZE) (phys + PAGE_SIZE) s1)"

definition acpi_map_region :: "u64 \<Rightarrow> u64 \<Rightarrow> 'a acpi_state_scheme \<Rightarrow> u64 \<times> 'a acpi_state_scheme" where
  "acpi_map_region phys sz s =
     (let pml4 = vmm_get_kernel_pml4 s;
          phys_base = phys AND NOT (PAGE_SIZE - 1);
          offset = phys - phys_base;
          pages_needed = (offset + sz + PAGE_SIZE - 1) div PAGE_SIZE;
          virt_base = acpi_virt_next s;
          s1 = s\<lparr>acpi_virt_next := acpi_virt_next s + pages_needed * PAGE_SIZE\<rparr>;
          (ok, s2) = map_region_pages (unat pages_needed) pml4 virt_base phys_base s1
      in (if ok then virt_base + offset else 0, s2))"

definition acpi_checksum :: "'a vmm_state_scheme \<Rightarrow> u64 \<Rightarrow> u32 \<Rightarrow> bool" where
  "acpi_checksum s ptr len = (fold (\<lambda>i sum. sum + vload8 s (ptr + of_nat i)) [0..<unat len] 0 = 0)"

definition sig_match :: "'a vmm_state_scheme \<Rightarrow> u64 \<Rightarrow> u8 list \<Rightarrow> bool" where
  "sig_match s a b \<longleftrightarrow> vload8 s a = b ! 0 \<and> vload8 s (a + 1) = b ! 1 \<and> vload8 s (a + 2) = b ! 2 \<and> vload8 s (a + 3) = b ! 3"

text \<open>The effect of one MADT entry; types without a case are skipped.\<close>

definition madt_entry :: "bytes \<Rightarrow> u64 \<Rightarrow> acpi_info \<Rightarrow> acpi_info" where
  "madt_entry m p i =
     (let ty = m p in
      if ty = 0 then
        (if (load_le m (p + 4) 4 :: u32) AND 1 \<noteq> 0 \<and> cpu_count i < 256
         then i\<lparr>cpu_apic_ids := (cpu_apic_ids i)[cpu_count i := m (p + 3)], cpu_count := cpu_count i + 1\<rparr> else i)
      else if ty = 1 then
        i\<lparr>io_apic_address := ucast (load_le m (p + 4) 4 :: u32), io_apic_id := m (p + 2), io_apic_gsi_base := load_le m (p + 8) 4\<rparr>
      else if ty = 2 then
        (if override_count i < MAX_IRQ_OVERRIDES
         then i\<lparr>overrides := (overrides i)[override_count i :=
                  \<lparr>ov_irq_source = m (p + 3), ov_gsi = load_le m (p + 4) 4, ov_flags = load_le m (p + 8) 2\<rparr>],
                override_count := override_count i + 1\<rparr> else i)
      else if ty = 5 then i\<lparr>local_apic_address := load_le m (p + 4) 8\<rparr>
      else i)"

partial_function (option) madt_loop :: "bytes \<Rightarrow> u64 \<Rightarrow> u64 \<Rightarrow> acpi_info \<Rightarrow> acpi_info option" where
  [code]: "madt_loop m entry_ptr end_ptr i =
     (if entry_ptr < end_ptr
      then let i1 = madt_entry m entry_ptr i; len = m (entry_ptr + 1) in
        if len = 0 then Some i1 else madt_loop m (entry_ptr + ucast len) end_ptr i1
      else Some i)"

definition parse_madt :: "u64 \<Rightarrow> 'a acpi_state_scheme \<Rightarrow> 'a acpi_state_scheme option" where
  "parse_madt madt s =
     (let i = (acpi_info s)\<lparr>local_apic_address := ucast (vload32 s (madt + 36)), has_pic := vload32 s (madt + 40) AND 1\<rparr>;
          entry_ptr = madt + SIZEOF_MADT;
          end_ptr = madt + ucast (vload32 s (madt + 4))
      in map_option (\<lambda>i'. s\<lparr>acpi_info := i'\<rparr>) (madt_loop (vmem s) entry_ptr end_ptr i))"

text \<open>
  The search of \<^verbatim>\<open>find_table\<close>; the two branches differ in the width of a table pointer. The number of entries
  is computed in 64 bits and stored in an \<^verbatim>\<open>int\<close>.
\<close>

definition sdt_entries :: "u32 \<Rightarrow> u64 \<Rightarrow> int" where
  "sdt_entries len width = signed_take_bit 31 (uint ((ucast len - SIZEOF_SDT_HEADER) div width))"

definition sdt_pointer :: "'a vmm_state_scheme \<Rightarrow> u64 \<Rightarrow> bool \<Rightarrow> nat \<Rightarrow> u64" where
  "sdt_pointer s root_sdt use_xsdt i =
     (if use_xsdt then vload64 s (root_sdt + SIZEOF_SDT_HEADER + 8 * of_nat i)
      else ucast (vload32 s (root_sdt + SIZEOF_SDT_HEADER + 4 * of_nat i)))"

fun find_table_loop :: "nat list \<Rightarrow> u64 \<Rightarrow> u8 list \<Rightarrow> bool \<Rightarrow> 'a acpi_state_scheme \<Rightarrow> u64 \<times> 'a acpi_state_scheme" where
  "find_table_loop [] root_sdt signature use_xsdt s = (0, s)"
| "find_table_loop (i # is) root_sdt signature use_xsdt s =
     (let table_phys = sdt_pointer s root_sdt use_xsdt i in
      if table_phys = 0 then find_table_loop is root_sdt signature use_xsdt s
      else let (header, s1) = acpi_map_region table_phys SIZEOF_SDT_HEADER s in
        if header = 0 then find_table_loop is root_sdt signature use_xsdt s1
        else if sig_match s1 header signature then acpi_map_region table_phys (ucast (vload32 s1 (header + 4))) s1
        else find_table_loop is root_sdt signature use_xsdt s1)"

definition find_table :: "u64 \<Rightarrow> u8 list \<Rightarrow> bool \<Rightarrow> 'a acpi_state_scheme \<Rightarrow> u64 \<times> 'a acpi_state_scheme" where
  "find_table root_sdt signature use_xsdt s =
     (let entries = sdt_entries (vload32 s (root_sdt + 4)) (if use_xsdt then 8 else 4)
      in find_table_loop [0..<nat entries] root_sdt signature use_xsdt s)"

text \<open>The signatures, as bytes: \<^verbatim>\<open>"RSD PTR "\<close> and \<^verbatim>\<open>"APIC"\<close>.\<close>

definition RSDP_SIGNATURE :: "u8 list" where "RSDP_SIGNATURE = [0x52, 0x53, 0x44, 0x20, 0x50, 0x54, 0x52, 0x20]"
definition MADT_SIGNATURE :: "u8 list" where "MADT_SIGNATURE = [0x41, 0x50, 0x49, 0x43]"

definition acpi_init :: "u64 \<Rightarrow> 'a acpi_state_scheme \<Rightarrow> (int \<times> 'a acpi_state_scheme) option" where
  "acpi_init rsdp_phys s =
     (if rsdp_phys = 0 then Some (-1, s)
      else let (rsdp, s1) = acpi_map_region rsdp_phys SIZEOF_RSDP2 s in
      if rsdp = 0 then Some (-1, s1)
      else if \<exists>i<8. vload8 s1 (rsdp + of_nat i) \<noteq> RSDP_SIGNATURE ! i then Some (-1, s1)
      else if \<not> acpi_checksum s1 rsdp 20 then Some (-1, s1)
      else let use_xsdt = vload8 s1 (rsdp + 15) \<ge> 2 in
      if use_xsdt \<and> \<not> acpi_checksum s1 rsdp (vload32 s1 (rsdp + 20)) then Some (-1, s1)
      else let root_sdt_phys = (if use_xsdt then vload64 s1 (rsdp + 24) else ucast (vload32 s1 (rsdp + 16)));
               (root_header, s2) = acpi_map_region root_sdt_phys SIZEOF_SDT_HEADER s1 in
      if root_header = 0 then Some (-1, s2)
      else let (root_sdt, s3) = acpi_map_region root_sdt_phys (ucast (vload32 s2 (root_header + 4))) s2 in
      if root_sdt = 0 then Some (-1, s3)
      else if \<not> acpi_checksum s3 root_sdt (vload32 s3 (root_sdt + 4)) then Some (-1, s3)
      else let (madt, s4) = find_table root_sdt MADT_SIGNATURE use_xsdt s3 in
      if madt = 0 then Some (-1, s4)
      else if \<not> acpi_checksum s4 madt (vload32 s4 (madt + 4)) then Some (-1, s4)
      else map_option (\<lambda>s5. (0, s5)) (parse_madt madt s4))"

definition acpi_get_info :: "'a acpi_state_scheme \<Rightarrow> acpi_info" where
  "acpi_get_info s = acpi_info s"

section \<open>The I/O APIC\<close>

definition PTE_NOCACHE :: u64 where "PTE_NOCACHE = 0x10"
definition IOAPIC_REGSEL :: u64 where "IOAPIC_REGSEL = 0x00"
definition IOAPIC_WIN :: u64 where "IOAPIC_WIN = 0x10"
definition IOAPIC_VER :: u32 where "IOAPIC_VER = 0x01"
definition IOAPIC_REDTBL_BASE :: u32 where "IOAPIC_REDTBL_BASE = 0x10"
definition IOAPIC_POLARITY_HIGH :: u64 where "IOAPIC_POLARITY_HIGH = push_bit 13 0"
definition IOAPIC_POLARITY_LOW :: u64 where "IOAPIC_POLARITY_LOW = push_bit 13 1"
definition IOAPIC_TRIGGER_EDGE :: u64 where "IOAPIC_TRIGGER_EDGE = push_bit 15 0"
definition IOAPIC_TRIGGER_LEVEL :: u64 where "IOAPIC_TRIGGER_LEVEL = push_bit 15 1"
definition IOAPIC_MASKED :: u64 where "IOAPIC_MASKED = push_bit 16 1"
definition IOAPIC_DEST :: "u8 \<Rightarrow> u64" where "IOAPIC_DEST apic_id = push_bit 56 (ucast apic_id)"
definition ISA_IRQ_KEYBOARD :: u8 where "ISA_IRQ_KEYBOARD = 1"
definition ISA_IRQ_COM1 :: u8 where "ISA_IRQ_COM1 = 4"

definition ioapic_read :: "u32 \<Rightarrow> 'a acpi_state_scheme \<Rightarrow> u32 \<times> 'a acpi_state_scheme" where
  "ioapic_read r s = mmio_read32 (ioapic_base s + IOAPIC_WIN) (mmio_write32 (ioapic_base s + IOAPIC_REGSEL) r s)"

definition ioapic_write :: "u32 \<Rightarrow> u32 \<Rightarrow> 'a acpi_state_scheme \<Rightarrow> 'a acpi_state_scheme" where
  "ioapic_write r value s = mmio_write32 (ioapic_base s + IOAPIC_WIN) value (mmio_write32 (ioapic_base s + IOAPIC_REGSEL) r s)"

definition ioapic_read_redir :: "u8 \<Rightarrow> 'a acpi_state_scheme \<Rightarrow> u64 \<times> 'a acpi_state_scheme" where
  "ioapic_read_redir entry s =
     (let (lo, s1) = ioapic_read (IOAPIC_REDTBL_BASE + ucast entry * 2) s;
          (hi, s2) = ioapic_read (IOAPIC_REDTBL_BASE + ucast entry * 2 + 1) s1
      in (push_bit 32 (ucast hi) OR ucast lo, s2))"

definition ioapic_write_redir :: "u8 \<Rightarrow> u64 \<Rightarrow> 'a acpi_state_scheme \<Rightarrow> 'a acpi_state_scheme" where
  "ioapic_write_redir entry value s =
     ioapic_write (IOAPIC_REDTBL_BASE + ucast entry * 2 + 1) (ucast (drop_bit 32 value))
       (ioapic_write (IOAPIC_REDTBL_BASE + ucast entry * 2) (ucast value) s)"

definition ioapic_init :: "'a acpi_state_scheme \<Rightarrow> 'a acpi_state_scheme" where
  "ioapic_init s =
     (let ioapic_phys = io_apic_address (acpi_get_info s);
          ioapic_virt = 0xFFFFFFFD00001000;
          (result, s1) = vmm_map_page (vmm_get_kernel_pml4 s) ioapic_virt ioapic_phys (PTE_PRESENT OR PTE_WRITABLE OR PTE_NOCACHE) s
      in if result \<noteq> 0 then s1
         else let (ver, s2) = ioapic_read IOAPIC_VER (s1\<lparr>ioapic_base := ioapic_virt\<rparr>);
                  s3 = s2\<lparr>ioapic_max_entry := ucast (drop_bit 16 ver AND 0xFF)\<rparr>
              in fold (\<lambda>i s. let (entry, s') = ioapic_read_redir (of_nat i) s
                             in ioapic_write_redir (of_nat i) (entry OR IOAPIC_MASKED) s')
                   [0..<Suc (unat (ioapic_max_entry s3))] s3)"

text \<open>\<^verbatim>\<open>irq_to_gsi\<close> with its two output parameters: polarity, trigger mode and interrupt number.\<close>

definition irq_to_gsi :: "u8 \<Rightarrow> 'a acpi_state_scheme \<Rightarrow> u64 \<times> u64 \<times> u32" where
  "irq_to_gsi irq s =
     (let acpi = acpi_get_info s in
      case List.find (\<lambda>ov. ov_irq_source ov = irq) (take (override_count acpi) (overrides acpi)) of
        Some ov \<Rightarrow>
          (if ov_flags ov AND 0x03 = 3 then IOAPIC_POLARITY_LOW else IOAPIC_POLARITY_HIGH,
           if drop_bit 2 (ov_flags ov) AND 0x03 = 3 then IOAPIC_TRIGGER_LEVEL else IOAPIC_TRIGGER_EDGE,
           ov_gsi ov)
      | None \<Rightarrow> (IOAPIC_POLARITY_HIGH, IOAPIC_TRIGGER_EDGE, ucast irq))"

definition ioapic_route_irq :: "u8 \<Rightarrow> u8 \<Rightarrow> u8 \<Rightarrow> 'a acpi_state_scheme \<Rightarrow> 'a acpi_state_scheme" where
  "ioapic_route_irq irq vector apic_id s =
     (let (polarity, trigger, gsi) = irq_to_gsi irq s in
      if gsi > ucast (ioapic_max_entry s) then s
      else ioapic_write_redir (ucast gsi) (ucast vector OR push_bit 8 0 OR push_bit 11 0 OR polarity OR trigger OR IOAPIC_DEST apic_id) s)"

definition ioapic_mask_irq :: "u8 \<Rightarrow> 'a acpi_state_scheme \<Rightarrow> 'a acpi_state_scheme" where
  "ioapic_mask_irq irq s =
     (if irq > ioapic_max_entry s then s
      else let (entry, s1) = ioapic_read_redir irq s in ioapic_write_redir irq (entry OR IOAPIC_MASKED) s1)"

definition ioapic_unmask_irq :: "u8 \<Rightarrow> 'a acpi_state_scheme \<Rightarrow> 'a acpi_state_scheme" where
  "ioapic_unmask_irq irq s =
     (if irq > ioapic_max_entry s then s
      else let (entry, s1) = ioapic_read_redir irq s in ioapic_write_redir irq (entry AND NOT IOAPIC_MASKED) s1)"

end
