(* ===== verification/Keyboard.thy ===== *)
theory Keyboard
  imports Acpi
begin

text \<open>
  Input: the PS/2 keyboard, \<^verbatim>\<open>drivers/input/keyboard.c\<close>, and the serial port,
  \<^verbatim>\<open>drivers/tty/serial.c\<close>, which both feed one ring buffer of characters.

  A \<^verbatim>\<open>char\<close> is a byte. Loops that poll a device end only if the device says so, so they are partial
  functions. \<^verbatim>\<open>keyboard_read\<close> waits in \<^verbatim>\<open>hlt\<close> for an interrupt; \<open>irq n\<close> is what the handlers that run during
  the \<open>n\<close>-th wait do to the state.
\<close>

section \<open>State\<close>

record input_state = acpi_state +
  buffer :: "u8 list"
  buffer_head :: nat
  buffer_tail :: nat
  shift_pressed :: bool
  ctrl_pressed :: bool
  alt_pressed :: bool
  caps_lock :: bool
  csi_state :: int

definition KBD_BUFFER_SIZE :: nat where "KBD_BUFFER_SIZE = 64"
definition PS2_DATA :: u16 where "PS2_DATA = 0x60"
definition PS2_STATUS :: u16 where "PS2_STATUS = 0x64"
definition PS2_STATUS_OUTPUT :: u8 where "PS2_STATUS_OUTPUT = 0x01"
definition IRQ_KEYBOARD :: int where "IRQ_KEYBOARD = 33"

section \<open>The keyboard\<close>

definition scancode_to_ascii :: "u8 list" where
  "scancode_to_ascii =
    [0,    0x1B, 0x31, 0x32, 0x33, 0x34, 0x35, 0x36,
     0x37, 0x38, 0x39, 0x30, 0x2D, 0x3D, 0x08, 0x09,
     0x71, 0x77, 0x65, 0x72, 0x74, 0x79, 0x75, 0x69,
     0x6F, 0x70, 0x5B, 0x5D, 0x0A, 0,    0x61, 0x73,
     0x64, 0x66, 0x67, 0x68, 0x6A, 0x6B, 0x6C, 0x3B,
     0x27, 0x60, 0,    0x5C, 0x7A, 0x78, 0x63, 0x76,
     0x62, 0x6E, 0x6D, 0x2C, 0x2E, 0x2F, 0,    0x2A,
     0,    0x20, 0,    0x80, 0x81, 0x82, 0x83, 0x84,
     0x85, 0x86, 0x87, 0x88, 0x89, 0,    0,    0x94,
     0x90, 0x96, 0x2D, 0x92, 0,    0x93, 0x2B, 0x95,
     0x91, 0x97, 0x98, 0x99, 0,    0,    0,    0x8A,
     0x8B, 0,    0,    0,    0,    0,    0,    0,
     0, 0, 0, 0, 0, 0, 0, 0,
     0, 0, 0, 0, 0, 0, 0, 0,
     0, 0, 0, 0, 0, 0, 0, 0,
     0, 0, 0, 0, 0, 0, 0, 0]"

definition scancode_to_ascii_shift :: "u8 list" where
  "scancode_to_ascii_shift =
    [0,    0x1B, 0x21, 0x40, 0x23, 0x24, 0x25, 0x5E,
     0x26, 0x2A, 0x28, 0x29, 0x5F, 0x2B, 0x08, 0x09,
     0x51, 0x57, 0x45, 0x52, 0x54, 0x59, 0x55, 0x49,
     0x4F, 0x50, 0x7B, 0x7D, 0x0A, 0,    0x41, 0x53,
     0x44, 0x46, 0x47, 0x48, 0x4A, 0x4B, 0x4C, 0x3A,
     0x22, 0x7E, 0,    0x7C, 0x5A, 0x58, 0x43, 0x56,
     0x42, 0x4E, 0x4D, 0x3C, 0x3E, 0x3F, 0,    0x2A,
     0,    0x20, 0,    0x80, 0x81, 0x82, 0x83, 0x84,
     0x85, 0x86, 0x87, 0x88, 0x89, 0,    0,    0x94,
     0x90, 0x96, 0x2D, 0x92, 0,    0x93, 0x2B, 0x95,
     0x91, 0x97, 0x98, 0x99, 0,    0,    0,    0x8A,
     0x8B, 0,    0,    0,    0,    0,    0,    0,
     0, 0, 0, 0, 0, 0, 0, 0,
     0, 0, 0, 0, 0, 0, 0, 0,
     0, 0, 0, 0, 0, 0, 0, 0,
     0, 0, 0, 0, 0, 0, 0, 0]"

definition buffer_put :: "u8 \<Rightarrow> 'a input_state_scheme \<Rightarrow> 'a input_state_scheme" where
  "buffer_put c s =
     (let nxt = (buffer_head s + 1) mod KBD_BUFFER_SIZE in
      if nxt \<noteq> buffer_tail s
      then s\<lparr>buffer := (buffer s)[buffer_head s := c], buffer_head := nxt\<rparr> else s)"

definition buffer_get :: "'a input_state_scheme \<Rightarrow> int \<times> 'a input_state_scheme" where
  "buffer_get s =
     (if buffer_head s = buffer_tail s then (-1, s)
      else (uint (buffer s ! buffer_tail s), s\<lparr>buffer_tail := (buffer_tail s + 1) mod KBD_BUFFER_SIZE\<rparr>))"

text \<open>
  The character of a key press: letters follow shift and caps lock, other keys only shift, and
  control turns a letter into its control code. \<^verbatim>\<open>char\<close> is signed, so the keys from 0x80 are below \<^verbatim>\<open>'a'\<close>.
\<close>

definition is_lower :: "u8 \<Rightarrow> bool" where "is_lower c \<longleftrightarrow> 0x61 \<le> c \<and> c \<le> 0x7A"
definition is_upper :: "u8 \<Rightarrow> bool" where "is_upper c \<longleftrightarrow> 0x41 \<le> c \<and> c \<le> 0x5A"

definition key_char :: "bool \<Rightarrow> bool \<Rightarrow> bool \<Rightarrow> u8 \<Rightarrow> u8" where
  "key_char shift caps ctrl scancode =
     (let plain = scancode_to_ascii ! unat scancode;
          shifted = scancode_to_ascii_shift ! unat scancode;
          c = (if is_lower plain then (if shift \<noteq> caps then shifted else plain)
               else (if shift then shifted else plain))
      in if ctrl \<and> is_lower c then c - 0x61 + 1 else if ctrl \<and> is_upper c then c - 0x41 + 1 else c)"

definition keyboard_irq_handler :: "'a input_state_scheme \<Rightarrow> 'a input_state_scheme" where
  "keyboard_irq_handler s =
     (let (raw, s1) = inb PS2_DATA s;
          released = raw AND 0x80 \<noteq> 0;
          scancode = raw AND 0x7F;
          s2 =
            (if scancode = 0x2A \<or> scancode = 0x36 then s1\<lparr>shift_pressed := \<not> released\<rparr>
             else if scancode = 0x1D then s1\<lparr>ctrl_pressed := \<not> released\<rparr>
             else if scancode = 0x38 then s1\<lparr>alt_pressed := \<not> released\<rparr>
             else if scancode = 0x3A then (if \<not> released then s1\<lparr>caps_lock := \<not> caps_lock s1\<rparr> else s1)
             else if released then s1
             else let c = key_char (shift_pressed s1) (caps_lock s1) (ctrl_pressed s1) scancode in
               if c \<noteq> 0 then buffer_put c s1 else s1)
      in apic_eoi s2)"

text \<open>Draining the controller's output buffer.\<close>

partial_function (option) kbd_drain :: "'a input_state_scheme \<Rightarrow> 'a input_state_scheme option" where
  [code]: "kbd_drain s =
     (case inb PS2_STATUS s of (st, s1) \<Rightarrow>
        if st AND PS2_STATUS_OUTPUT \<noteq> 0 then kbd_drain (snd (inb PS2_DATA s1)) else Some s1)"

definition keyboard_init :: "'a input_state_scheme \<Rightarrow> 'a input_state_scheme option" where
  "keyboard_init s =
     (let s1 = s\<lparr>buffer_head := 0, buffer_tail := 0, shift_pressed := False, ctrl_pressed := False,
                 alt_pressed := False, caps_lock := False\<rparr>;
          s2 = ioapic_route_irq ISA_IRQ_KEYBOARD 33 0 (idt_register_irq IRQ_KEYBOARD keyboard_irq s1)
      in kbd_drain s2)"

definition keyboard_getchar :: "'a input_state_scheme \<Rightarrow> int \<times> 'a input_state_scheme" where
  "keyboard_getchar s = buffer_get s"

partial_function (option) keyboard_read ::
  "(nat \<Rightarrow> 'a input_state_scheme \<Rightarrow> 'a input_state_scheme) \<Rightarrow> nat \<Rightarrow> 'a input_state_scheme \<Rightarrow> (u8 \<times> nat \<times> 'a input_state_scheme) option" where
  [code]: "keyboard_read irq n s =
     (case keyboard_getchar s of (c, s1) \<Rightarrow>
        if c = -1 then keyboard_read irq (n + 1) (irq n s1) else Some (word_of_int c, n, s1))"

definition keyboard_has_input :: "'a input_state_scheme \<Rightarrow> bool" where
  "keyboard_has_input s \<longleftrightarrow> buffer_head s \<noteq> buffer_tail s"

definition keyboard_inject :: "u8 \<Rightarrow> 'a input_state_scheme \<Rightarrow> 'a input_state_scheme" where
  "keyboard_inject c s = buffer_put c s"

section \<open>The serial port\<close>

definition COM1 :: u16 where "COM1 = 0x3F8"
definition IRQ_COM1 :: int where "IRQ_COM1 = 34"
definition UART_RBR :: u16 where "UART_RBR = 0"
definition UART_IER :: u16 where "UART_IER = 1"
definition UART_LSR :: u16 where "UART_LSR = 5"
definition UART_LSR_DR :: u8 where "UART_LSR_DR = 0x01"
definition UART_IER_RDA :: u8 where "UART_IER_RDA = 0x01"

definition serial_tx_ready :: "'a io_state_scheme \<Rightarrow> bool \<times> 'a io_state_scheme" where
  "serial_tx_ready s = (let (v, s1) = inb (COM1 + 5) s in (v AND 0x20 \<noteq> 0, s1))"

definition serial_init :: "'a io_state_scheme \<Rightarrow> 'a io_state_scheme" where
  "serial_init s =
     outb (COM1 + 4) 0x0B (outb (COM1 + 2) 0xC7 (outb (COM1 + 3) 0x03
       (outb (COM1 + 1) 0x00 (outb (COM1 + 0) 0x01 (outb (COM1 + 3) 0x80 (outb (COM1 + 1) 0x00 s))))))"

partial_function (option) serial_wait :: "'a io_state_scheme \<Rightarrow> 'a io_state_scheme option" where
  [code]: "serial_wait s = (case serial_tx_ready s of (ok, s1) \<Rightarrow> if ok then Some s1 else serial_wait s1)"

definition serial_putchar :: "u8 \<Rightarrow> 'a io_state_scheme \<Rightarrow> 'a io_state_scheme option" where
  "serial_putchar c s = map_option (outb COM1 c) (serial_wait s)"

text \<open>The string is the list of its bytes before the terminating zero.\<close>

fun serial_puts :: "u8 list \<Rightarrow> 'a io_state_scheme \<Rightarrow> 'a io_state_scheme option" where
  "serial_puts [] s = Some s"
| "serial_puts (c # str) s =
     Option.bind (if c = 0x0A then serial_putchar 0x0D s else Some s) (\<lambda>s1.
     Option.bind (serial_putchar c s1) (serial_puts str))"

definition serial_dispatch_byte :: "u8 \<Rightarrow> 'a input_state_scheme \<Rightarrow> 'a input_state_scheme" where
  "serial_dispatch_byte b s =
     (if csi_state s = 1 then s\<lparr>csi_state := (if b = 0x5B then 2 else 0)\<rparr>
      else if csi_state s = 2 then (if b \<ge> 0x40 \<and> b \<le> 0x7E then s\<lparr>csi_state := 0\<rparr> else s)
      else if b = 0x1B then s\<lparr>csi_state := 1\<rparr>
      else keyboard_inject (if b = 0x0D then 0x0A else if b = 0x7F then 0x08 else b) s)"

partial_function (option) serial_receive :: "'a input_state_scheme \<Rightarrow> 'a input_state_scheme option" where
  [code]: "serial_receive s =
     (case inb (COM1 + UART_LSR) s of (st, s1) \<Rightarrow>
        if st AND UART_LSR_DR \<noteq> 0
        then (case inb (COM1 + UART_RBR) s1 of (b, s2) \<Rightarrow> serial_receive (serial_dispatch_byte b s2))
        else Some s1)"

definition serial_irq_handler :: "'a input_state_scheme \<Rightarrow> 'a input_state_scheme option" where
  "serial_irq_handler s = map_option apic_eoi (serial_receive s)"

definition serial_irq_init :: "'a input_state_scheme \<Rightarrow> 'a input_state_scheme" where
  "serial_irq_init s =
     outb (COM1 + UART_IER) UART_IER_RDA (ioapic_route_irq ISA_IRQ_COM1 34 0 (idt_register_irq IRQ_COM1 serial_irq s))"

end
