(* ===== verification/Console.thy ===== *)
theory Console
  imports Keyboard "HOL-Library.Signed_Division"
begin

text \<open>
  Text output: the framebuffer console with its scrollback ring (\<^verbatim>\<open>drivers/tty/console.c\<close>) and the
  terminals that route characters to the console and to the serial port (\<^verbatim>\<open>drivers/tty/terminal.c\<close>).

  The framebuffer is described by the boot loader (address, width, height, pitch); its memory is
  \<open>fb_pixels\<close>, indexed by pixel. The font is binary data of the image and an argument. A
  C \<^verbatim>\<open>int\<close> is an \<open>int\<close>; the 64-bit dimensions of the framebuffer are narrowed where the code does it, a
  sum or product with a caller's argument that can leave 32 bits wraps (\<open>int32\<close>), and division truncates (\<open>sdiv\<close>).
  Coordinates may be negative: the drawing functions then compute the index that the code computes, and the
  cursor column becomes negative. A character stored at a negative column or read through a negative line index
  is outside the array; that memory is not part of the model, which then stores and reads nothing.
  A terminal is the static default one or one that a caller owns.
\<close>

section \<open>State\<close>

record framebuffer =
  fb_width :: u64
  fb_height :: u64
  fb_pitch :: u64

record console_cell =
  ch :: u8
  cell_color :: u32

record console_line =
  cells :: "console_cell list"
  line_length :: int

record terminal =
  backends :: u32
  term_color :: u32

datatype term_ptr = Terminal_default | Terminal u64

record console_state = input_state +
  framebuffer :: "framebuffer option"
  fb_pixels :: "u64 \<Rightarrow> u32"
  scrollback :: "console_line list"
  scrollback_head :: nat
  scrollback_count :: nat
  view_offset :: int
  current_col :: int
  screen_rows :: int
  screen_cols :: int
  cursor_visible :: bool
  cursor_enabled :: bool
  cursor_last_toggle :: u64
  cursor_draw_x :: int
  cursor_draw_y :: int
  fullscreen_mode :: bool
  terminals :: "term_ptr \<Rightarrow> terminal"
  active_terminal :: term_ptr

definition SCROLLBACK_LINES :: nat where "SCROLLBACK_LINES = 1000"
definition MAX_COLS :: nat where "MAX_COLS = 160"
definition CURSOR_BLINK_TICKS :: u64 where "CURSOR_BLINK_TICKS = 50"
definition CURSOR_COLOR :: u32 where "CURSOR_COLOR = 0xCCCCCC"

text \<open>The conversion of a 64-bit value to \<^verbatim>\<open>int\<close>.\<close>

definition to_int :: "u64 \<Rightarrow> int" where
  "to_int w = signed_take_bit 31 (uint w)"

definition int32 :: "int \<Rightarrow> int" where
  "int32 k = signed_take_bit 31 k"

section \<open>Drawing\<close>

text \<open>The index of a pixel, \<^verbatim>\<open>(y + row) * pitch + (x + col)\<close> in 64-bit arithmetic.\<close>

definition pixel_index :: "framebuffer \<Rightarrow> int \<Rightarrow> int \<Rightarrow> u64" where
  "pixel_index fb x y = word_of_int y * (fb_pitch fb div 4) + word_of_int x"

definition put_pixel :: "framebuffer \<Rightarrow> int \<Rightarrow> int \<Rightarrow> u32 \<Rightarrow> 'a console_state_scheme \<Rightarrow> 'a console_state_scheme" where
  "put_pixel fb x y color s = s\<lparr>fb_pixels := (fb_pixels s)(pixel_index fb x y := color)\<rparr>"

text \<open>A rectangle of pixels, \<open>f row col\<close> giving the color: the loops of the three drawing functions.\<close>

definition draw_pixels :: "framebuffer \<Rightarrow> nat list \<Rightarrow> nat list \<Rightarrow> int \<Rightarrow> int \<Rightarrow> (nat \<Rightarrow> nat \<Rightarrow> u32) \<Rightarrow> 'a console_state_scheme \<Rightarrow> 'a console_state_scheme" where
  "draw_pixels fb rows cols x y f s =
     fold (\<lambda>row s. fold (\<lambda>col s. put_pixel fb (x + int col) (y + int row) (f row col) s) cols s) rows s"

definition console_fill_rect :: "int \<Rightarrow> int \<Rightarrow> int \<Rightarrow> int \<Rightarrow> u32 \<Rightarrow> 'a console_state_scheme \<Rightarrow> 'a console_state_scheme" where
  "console_fill_rect x y w h color s =
     (case framebuffer s of None \<Rightarrow> s
      | Some fb \<Rightarrow>
          let fb_w = to_int (fb_width fb); fb_h = to_int (fb_height fb) in
          draw_pixels fb (takeWhile (\<lambda>row. y + int row < fb_h) [0..<nat h]) (takeWhile (\<lambda>col. x + int col < fb_w) [0..<nat w])
            x y (\<lambda>_ _. color) s)"

definition console_draw_char :: "(nat \<Rightarrow> u8) \<Rightarrow> u8 \<Rightarrow> int \<Rightarrow> int \<Rightarrow> u32 \<Rightarrow> 'a console_state_scheme \<Rightarrow> 'a console_state_scheme" where
  "console_draw_char font_data c x y color s =
     (case framebuffer s of None \<Rightarrow> s
      | Some fb \<Rightarrow>
          let fb_w = to_int (fb_width fb); fb_h = to_int (fb_height fb) in
          if x < 0 \<or> y < 0 \<or> x \<ge> fb_w \<or> y \<ge> fb_h then s
          else let max_row = (if int32 (y + 16) > fb_h then fb_h - y else 16);
                   max_col = (if int32 (x + 8) > fb_w then fb_w - x else 8)
               in draw_pixels fb [0..<nat max_row] [0..<nat max_col] x y
                    (\<lambda>row col. if font_data (unat c * 16 + row) AND drop_bit col 0x80 \<noteq> 0 then color else 0) s)"

fun console_draw_string :: "(nat \<Rightarrow> u8) \<Rightarrow> u8 list \<Rightarrow> int \<Rightarrow> int \<Rightarrow> u32 \<Rightarrow> 'a console_state_scheme \<Rightarrow> 'a console_state_scheme" where
  "console_draw_string font_data [] x y color s = s"
| "console_draw_string font_data (c # str) x y color s =
     console_draw_string font_data str (int32 (x + 8)) y color (console_draw_char font_data c x y color s)"

definition console_draw_image :: "(int \<Rightarrow> u32) \<Rightarrow> int \<Rightarrow> int \<Rightarrow> int \<Rightarrow> int \<Rightarrow> 'a console_state_scheme \<Rightarrow> 'a console_state_scheme" where
  "console_draw_image pixels img_w img_h x y s =
     (case framebuffer s of None \<Rightarrow> s
      | Some fb \<Rightarrow>
          let fb_w = to_int (fb_width fb); fb_h = to_int (fb_height fb) in
          draw_pixels fb (takeWhile (\<lambda>row. y + int row < fb_h) [0..<nat img_h]) (takeWhile (\<lambda>col. x + int col < fb_w) [0..<nat img_w])
            x y (\<lambda>row col. pixels (int32 (int row * img_w + int col))) s)"

section \<open>The scrollback ring\<close>

definition set_line_length :: "nat \<Rightarrow> int \<Rightarrow> 'a console_state_scheme \<Rightarrow> 'a console_state_scheme" where
  "set_line_length i n s = s\<lparr>scrollback := (scrollback s)[i := (scrollback s ! i)\<lparr>line_length := n\<rparr>]\<rparr>"

definition scrollback_init :: "'a console_state_scheme \<Rightarrow> 'a console_state_scheme" where
  "scrollback_init s =
     set_line_length 0 0 (s\<lparr>scrollback_head := 0, scrollback_count := 1, view_offset := 0, current_col := 0\<rparr>)"

definition scrollback_newline :: "'a console_state_scheme \<Rightarrow> 'a console_state_scheme" where
  "scrollback_newline s =
     (let s1 = s\<lparr>scrollback_head := (scrollback_head s + 1) mod SCROLLBACK_LINES\<rparr>;
          s2 = (if scrollback_count s1 < SCROLLBACK_LINES then s1\<lparr>scrollback_count := scrollback_count s1 + 1\<rparr> else s1)
      in (set_line_length (scrollback_head s2) 0 s2)\<lparr>current_col := 0\<rparr>)"

definition scrollback_putchar :: "u8 \<Rightarrow> u32 \<Rightarrow> 'a console_state_scheme \<Rightarrow> 'a console_state_scheme" where
  "scrollback_putchar c color s =
     (if current_col s < int MAX_COLS
      then let line = scrollback s ! scrollback_head s;
               cells1 = (if current_col s < 0 then cells line else (cells line)[nat (current_col s) := \<lparr>ch = c, cell_color = color\<rparr>]);
               line1 = line\<lparr>cells := cells1, line_length := current_col s + 1\<rparr>
           in s\<lparr>scrollback := (scrollback s)[scrollback_head s := line1], current_col := current_col s + 1\<rparr>
      else s)"

definition scrollback_get_line :: "int \<Rightarrow> 'a console_state_scheme \<Rightarrow> console_line option" where
  "scrollback_get_line lines_from_bottom s =
     (if lines_from_bottom \<ge> int (scrollback_count s) then None
      else let idx = int32 (int (scrollback_head s) - lines_from_bottom + int SCROLLBACK_LINES) smod int SCROLLBACK_LINES
           in if idx < 0 then None else Some (scrollback s ! nat idx))"

definition get_cursor_position :: "'a console_state_scheme \<Rightarrow> int \<times> int" where
  "get_cursor_position s =
     (let row = int (scrollback_count s) - 1;
          cursor_row = (if row \<ge> screen_rows s then screen_rows s - 1 else row)
      in (current_col s * 8, cursor_row * 16))"

definition render_line :: "(nat \<Rightarrow> u8) \<Rightarrow> nat \<Rightarrow> 'a console_state_scheme \<Rightarrow> 'a console_state_scheme" where
  "render_line font_data row s =
     (case scrollback_get_line (int32 (view_offset s + (screen_rows s - 1 - int row))) s of None \<Rightarrow> s
      | Some line \<Rightarrow>
          fold (\<lambda>col s. console_draw_char font_data (ch (cells line ! col)) (int col * 8) (int row * 16) (cell_color (cells line ! col)) s)
            (takeWhile (\<lambda>col. int col < screen_cols s) [0..<nat (line_length line)]) s)"

definition render_view :: "(nat \<Rightarrow> u8) \<Rightarrow> 'a console_state_scheme \<Rightarrow> 'a console_state_scheme" where
  "render_view font_data s =
     (case framebuffer s of None \<Rightarrow> s
      | Some fb \<Rightarrow>
          fold (render_line font_data) [0..<nat (screen_rows s)]
            (console_fill_rect 0 0 (to_int (fb_width fb)) (to_int (fb_height fb)) 0 s))"

section \<open>The cursor\<close>

definition draw_cursor :: "'a console_state_scheme \<Rightarrow> 'a console_state_scheme" where
  "draw_cursor s =
     (case framebuffer s of None \<Rightarrow> s
      | Some fb \<Rightarrow>
          if view_offset s > 0 then s
          else let (x, y) = get_cursor_position s in
            if x < 0 \<or> y < 0 \<or> x \<ge> to_int (fb_width fb) \<or> y + 16 > to_int (fb_height fb) then s
            else (console_fill_rect x (y + 14) 8 2 CURSOR_COLOR s)\<lparr>cursor_draw_x := x, cursor_draw_y := y\<rparr>)"

definition erase_cursor :: "'a console_state_scheme \<Rightarrow> 'a console_state_scheme" where
  "erase_cursor s =
     (case framebuffer s of None \<Rightarrow> s
      | Some fb \<Rightarrow>
          if cursor_draw_x s < 0 \<or> cursor_draw_y s < 0 \<or> cursor_draw_x s \<ge> to_int (fb_width fb)
            \<or> cursor_draw_y s + 16 > to_int (fb_height fb) then s
          else console_fill_rect (cursor_draw_x s) (cursor_draw_y s + 14) 8 2 0 s)"

definition console_update_cursor :: "u64 \<Rightarrow> 'a console_state_scheme \<Rightarrow> 'a console_state_scheme" where
  "console_update_cursor ticks s =
     (if \<not> cursor_enabled s \<or> view_offset s > 0 then s
      else let (cur_x, cur_y) = get_cursor_position s in
        if cursor_visible s \<and> (cur_x \<noteq> cursor_draw_x s \<or> cur_y \<noteq> cursor_draw_y s)
        then (draw_cursor (erase_cursor s))\<lparr>cursor_last_toggle := ticks\<rparr>
        else if ticks - cursor_last_toggle s \<ge> CURSOR_BLINK_TICKS
        then let s1 = s\<lparr>cursor_last_toggle := ticks\<rparr> in
          if cursor_visible s1 then (erase_cursor s1)\<lparr>cursor_visible := False\<rparr>
          else (draw_cursor s1)\<lparr>cursor_visible := True\<rparr>
        else s)"

definition console_hide_cursor :: "'a console_state_scheme \<Rightarrow> 'a console_state_scheme" where
  "console_hide_cursor s = (if cursor_visible s then (erase_cursor s)\<lparr>cursor_visible := False\<rparr> else s)"

definition console_show_cursor :: "'a console_state_scheme \<Rightarrow> 'a console_state_scheme" where
  "console_show_cursor s =
     (if \<not> cursor_visible s \<and> view_offset s = 0 then (draw_cursor s)\<lparr>cursor_visible := True\<rparr> else s)"

definition console_set_fullscreen :: "bool \<Rightarrow> 'a console_state_scheme \<Rightarrow> 'a console_state_scheme" where
  "console_set_fullscreen enabled s =
     (let s1 = s\<lparr>fullscreen_mode := enabled\<rparr> in if enabled then console_hide_cursor s1 else console_show_cursor s1)"

definition console_get_fullscreen :: "'a console_state_scheme \<Rightarrow> bool" where
  "console_get_fullscreen s = fullscreen_mode s"

section \<open>Console operations\<close>

definition console_init :: "framebuffer option \<Rightarrow> 'a console_state_scheme \<Rightarrow> 'a console_state_scheme" where
  "console_init fb s =
     (let s1 = s\<lparr>framebuffer := fb, cursor_visible := False, cursor_enabled := True, cursor_last_toggle := 0,
                 cursor_draw_x := 0, cursor_draw_y := 0\<rparr>;
          s2 = (case fb of
                  Some f \<Rightarrow> s1\<lparr>screen_cols := to_int (fb_width f div 8), screen_rows := to_int (fb_height f div 16)\<rparr>
                | None \<Rightarrow> s1\<lparr>screen_cols := 80, screen_rows := 25\<rparr>)
      in scrollback_init s2)"

definition console_get_cursor :: "'a console_state_scheme \<Rightarrow> int \<times> int" where
  "console_get_cursor s = get_cursor_position s"

text \<open>The loop of \<^verbatim>\<open>console_set_cursor\<close> that adds lines up to the target row.\<close>

function extend_rows :: "int \<Rightarrow> 'a console_state_scheme \<Rightarrow> 'a console_state_scheme" where
  "extend_rows target_row s =
     (if int (scrollback_count s) \<le> target_row \<and> scrollback_count s < SCROLLBACK_LINES
      then extend_rows target_row (scrollback_newline s) else s)"
  by pat_completeness auto
termination
  by (relation "measure (\<lambda>(_, s). SCROLLBACK_LINES - scrollback_count s)")
    (auto simp: scrollback_newline_def Let_def set_line_length_def)

declare extend_rows.simps [simp del]

definition console_set_cursor :: "int \<Rightarrow> int \<Rightarrow> 'a console_state_scheme \<Rightarrow> 'a console_state_scheme" where
  "console_set_cursor x y s =
     (let col = x sdiv 8;
          s1 = s\<lparr>current_col := if col \<ge> int MAX_COLS then int MAX_COLS - 1 else col\<rparr>
      in extend_rows (y sdiv 16) s1)"

definition console_get_dimensions :: "'a console_state_scheme \<Rightarrow> int \<times> int" where
  "console_get_dimensions s = (screen_cols s, screen_rows s)"

definition console_clear :: "u32 \<Rightarrow> 'a console_state_scheme \<Rightarrow> 'a console_state_scheme" where
  "console_clear color s =
     (case framebuffer s of None \<Rightarrow> s
      | Some fb \<Rightarrow> scrollback_init (console_fill_rect 0 0 (to_int (fb_width fb)) (to_int (fb_height fb)) color s))"

text \<open>A newline scrolls the view once the lines no longer fit on the screen.\<close>

definition newline_scroll :: "(nat \<Rightarrow> u8) \<Rightarrow> 'a console_state_scheme \<Rightarrow> 'a console_state_scheme" where
  "newline_scroll font_data s =
     (let s1 = scrollback_newline s in if int (scrollback_count s1) > screen_rows s1 then render_view font_data s1 else s1)"

text \<open>The four spaces of a tab, as far as the line has room.\<close>

definition tab_spaces :: "u32 \<Rightarrow> 'a console_state_scheme \<Rightarrow> 'a console_state_scheme" where
  "tab_spaces color s = fold (\<lambda>i s. if current_col s < int MAX_COLS then scrollback_putchar 0x20 color s else s) [0..<4::nat] s"

definition console_putchar :: "(nat \<Rightarrow> u8) \<Rightarrow> u8 \<Rightarrow> u32 \<Rightarrow> 'a console_state_scheme \<Rightarrow> 'a console_state_scheme" where
  "console_putchar font_data c color s =
     (if framebuffer s = None \<or> fullscreen_mode s then s
      else let s0 = (if view_offset s > 0 then render_view font_data (s\<lparr>view_offset := 0\<rparr>) else s);
               row = int (scrollback_count s0) - 1;
               screen_row = (if row \<ge> screen_rows s0 then screen_rows s0 - 1 else row);
               s1 =
                 (if c = 0x0A then newline_scroll font_data s0
                  else if c = 0x0D then s0\<lparr>current_col := 0\<rparr>
                  else if c = 0x08 then
                    (if current_col s0 > 0
                     then let s' = set_line_length (scrollback_head s0) (current_col s0 - 1) (s0\<lparr>current_col := current_col s0 - 1\<rparr>)
                          in console_fill_rect (current_col s' * 8) (screen_row * 16) 8 16 0 s'
                     else s0)
                  else if c = 0x09 then
                    (let old_col = current_col s0; s' = tab_spaces color s0
                     in fold (\<lambda>i s. console_draw_char font_data 0x20 (i * 8) (screen_row * 16) color s) [old_col..current_col s' - 1] s')
                  else let draw_col = current_col s0
                       in console_draw_char font_data c (draw_col * 8) (screen_row * 16) color (scrollback_putchar c color s0))
           in if current_col s1 \<ge> screen_cols s1 then newline_scroll font_data s1 else s1)"

fun console_puts :: "(nat \<Rightarrow> u8) \<Rightarrow> u8 list \<Rightarrow> u32 \<Rightarrow> 'a console_state_scheme \<Rightarrow> 'a console_state_scheme" where
  "console_puts font_data [] color s = s"
| "console_puts font_data (c # str) color s = console_puts font_data str color (console_putchar font_data c color s)"

definition console_scroll_back :: "(nat \<Rightarrow> u8) \<Rightarrow> int \<Rightarrow> 'a console_state_scheme \<Rightarrow> 'a console_state_scheme" where
  "console_scroll_back font_data lines s =
     (if framebuffer s = None \<or> lines \<le> 0 then s
      else let max_offset = (if int (scrollback_count s) > screen_rows s then int (scrollback_count s) - screen_rows s else 0);
               v = int32 (view_offset s + lines)
           in render_view font_data (s\<lparr>view_offset := if v > max_offset then max_offset else v\<rparr>))"

definition console_scroll_forward :: "(nat \<Rightarrow> u8) \<Rightarrow> int \<Rightarrow> 'a console_state_scheme \<Rightarrow> 'a console_state_scheme" where
  "console_scroll_forward font_data lines s =
     (if framebuffer s = None \<or> lines \<le> 0 then s
      else let v = int32 (view_offset s - lines) in render_view font_data (s\<lparr>view_offset := if v < 0 then 0 else v\<rparr>))"

definition console_scroll_to_bottom :: "(nat \<Rightarrow> u8) \<Rightarrow> 'a console_state_scheme \<Rightarrow> 'a console_state_scheme" where
  "console_scroll_to_bottom font_data s =
     (if view_offset s = 0 then s
      else let s1 = render_view font_data (s\<lparr>view_offset := 0\<rparr>) in if cursor_visible s1 then draw_cursor s1 else s1)"

definition console_is_scrolled_back :: "'a console_state_scheme \<Rightarrow> bool" where
  "console_is_scrolled_back s \<longleftrightarrow> view_offset s > 0"

section \<open>The logo\<close>

text \<open>\<^verbatim>\<open>lib/logo.c\<close>; the picture is binary data of the image and an argument.\<close>

definition LOGO_WIDTH :: int where "LOGO_WIDTH = 604"
definition LOGO_HEIGHT :: int where "LOGO_HEIGHT = 219"

definition logo_display :: "(int \<Rightarrow> u32) \<Rightarrow> 'a console_state_scheme \<Rightarrow> 'a console_state_scheme" where
  "logo_display logo_data s =
     console_set_cursor 0 (LOGO_HEIGHT + 8) (console_draw_image logo_data LOGO_WIDTH LOGO_HEIGHT 0 0 s)"

section \<open>Terminals\<close>

definition TERM_BACKEND_SERIAL :: u32 where "TERM_BACKEND_SERIAL = 1"
definition TERM_BACKEND_FB :: u32 where "TERM_BACKEND_FB = 2"

definition terminal_init :: "'a console_state_scheme \<Rightarrow> 'a console_state_scheme" where
  "terminal_init s = (serial_init s)\<lparr>active_terminal := Terminal_default\<rparr>"

definition terminal_get_active :: "'a console_state_scheme \<Rightarrow> term_ptr" where
  "terminal_get_active s = active_terminal s"

definition terminal_set_active :: "term_ptr option \<Rightarrow> 'a console_state_scheme \<Rightarrow> 'a console_state_scheme" where
  "terminal_set_active term s = (case term of None \<Rightarrow> s | Some t \<Rightarrow> s\<lparr>active_terminal := t\<rparr>)"

definition terminal_create :: "term_ptr option \<Rightarrow> u32 \<Rightarrow> u32 \<Rightarrow> 'a console_state_scheme \<Rightarrow> 'a console_state_scheme" where
  "terminal_create term b color s =
     (case term of None \<Rightarrow> s | Some t \<Rightarrow> s\<lparr>terminals := (terminals s)(t := \<lparr>backends = b, term_color = color\<rparr>)\<rparr>)"

text \<open>\<^verbatim>\<open>NULL\<close> stands for the active terminal.\<close>

definition the_term :: "term_ptr option \<Rightarrow> 'a console_state_scheme \<Rightarrow> term_ptr" where
  "the_term term s = (case term of None \<Rightarrow> active_terminal s | Some t \<Rightarrow> t)"

definition has_backend :: "terminal \<Rightarrow> u32 \<Rightarrow> bool" where
  "has_backend t b \<longleftrightarrow> backends t AND b \<noteq> 0"

definition term_putchar :: "(nat \<Rightarrow> u8) \<Rightarrow> terminal \<Rightarrow> u8 \<Rightarrow> 'a console_state_scheme \<Rightarrow> 'a console_state_scheme option" where
  "term_putchar font_data t c s =
     (let s1 = (if has_backend t TERM_BACKEND_FB then console_putchar font_data c (term_color t) s else s)
      in if has_backend t TERM_BACKEND_SERIAL then serial_putchar c s1 else Some s1)"

definition terminal_putchar :: "(nat \<Rightarrow> u8) \<Rightarrow> term_ptr option \<Rightarrow> u8 \<Rightarrow> 'a console_state_scheme \<Rightarrow> 'a console_state_scheme option" where
  "terminal_putchar font_data term c s = term_putchar font_data (terminals s (the_term term s)) c s"

fun term_puts :: "(nat \<Rightarrow> u8) \<Rightarrow> terminal \<Rightarrow> u8 list \<Rightarrow> 'a console_state_scheme \<Rightarrow> 'a console_state_scheme option" where
  "term_puts font_data t [] s = Some s"
| "term_puts font_data t (c # str) s = Option.bind (term_putchar font_data t c s) (term_puts font_data t str)"

definition terminal_puts :: "(nat \<Rightarrow> u8) \<Rightarrow> term_ptr option \<Rightarrow> u8 list \<Rightarrow> 'a console_state_scheme \<Rightarrow> 'a console_state_scheme option" where
  "terminal_puts font_data term str s = term_puts font_data (terminals s (the_term term s)) str s"

definition terminal_set_color :: "term_ptr option \<Rightarrow> u32 \<Rightarrow> 'a console_state_scheme \<Rightarrow> 'a console_state_scheme" where
  "terminal_set_color term color s =
     (let t = the_term term s in s\<lparr>terminals := (terminals s)(t := (terminals s t)\<lparr>term_color := color\<rparr>)\<rparr>)"

text \<open>\<^verbatim>\<open>"\033[2J\033[H"\<close>\<close>

definition CLEAR_SEQUENCE :: "u8 list" where "CLEAR_SEQUENCE = [0x1B, 0x5B, 0x32, 0x4A, 0x1B, 0x5B, 0x48]"

definition terminal_clear :: "term_ptr option \<Rightarrow> 'a console_state_scheme \<Rightarrow> 'a console_state_scheme option" where
  "terminal_clear term s =
     (let t = terminals s (the_term term s);
          s1 = (if has_backend t TERM_BACKEND_FB then console_clear 0 s else s)
      in if has_backend t TERM_BACKEND_SERIAL then serial_puts CLEAR_SEQUENCE s1 else Some s1)"

definition terminal_get_cursor :: "term_ptr option \<Rightarrow> 'a console_state_scheme \<Rightarrow> int \<times> int" where
  "terminal_get_cursor term s =
     (let (px, py) = (if has_backend (terminals s (the_term term s)) TERM_BACKEND_FB then console_get_cursor s else (0, 0))
      in (px div 8, py div 16))"

definition terminal_get_dimensions :: "term_ptr option \<Rightarrow> 'a console_state_scheme \<Rightarrow> int \<times> int" where
  "terminal_get_dimensions term s =
     (if has_backend (terminals s (the_term term s)) TERM_BACKEND_FB then console_get_dimensions s else (80, 24))"

definition terminal_scroll_back :: "(nat \<Rightarrow> u8) \<Rightarrow> term_ptr option \<Rightarrow> int \<Rightarrow> 'a console_state_scheme \<Rightarrow> 'a console_state_scheme" where
  "terminal_scroll_back font_data term lines s =
     (if has_backend (terminals s (the_term term s)) TERM_BACKEND_FB then console_scroll_back font_data lines s else s)"

definition terminal_scroll_forward :: "(nat \<Rightarrow> u8) \<Rightarrow> term_ptr option \<Rightarrow> int \<Rightarrow> 'a console_state_scheme \<Rightarrow> 'a console_state_scheme" where
  "terminal_scroll_forward font_data term lines s =
     (if has_backend (terminals s (the_term term s)) TERM_BACKEND_FB then console_scroll_forward font_data lines s else s)"

definition terminal_scroll_to_bottom :: "(nat \<Rightarrow> u8) \<Rightarrow> term_ptr option \<Rightarrow> 'a console_state_scheme \<Rightarrow> 'a console_state_scheme" where
  "terminal_scroll_to_bottom font_data term s =
     (if has_backend (terminals s (the_term term s)) TERM_BACKEND_FB then console_scroll_to_bottom font_data s else s)"

definition terminal_is_scrolled_back :: "term_ptr option \<Rightarrow> 'a console_state_scheme \<Rightarrow> bool" where
  "terminal_is_scrolled_back term s \<longleftrightarrow>
     has_backend (terminals s (the_term term s)) TERM_BACKEND_FB \<and> console_is_scrolled_back s"

end
