(* ===== verification/Ext2.thy ===== *)
theory Ext2
  imports Console
begin

text \<open>
  The read-only file system, \<^verbatim>\<open>fs/ext2.c\<close>, on a RAM disk.

  \<open>d\<close> is memory as the kernel sees it, by virtual address: the RAM disk is the window at \<open>fs_disk\<close>. The
  structures on the disk are read at the byte offsets of their packed declarations; a pointer to an inode is its
  address, zero for \<^verbatim>\<open>NULL\<close>. \<^verbatim>\<open>ext2_read_file\<close> writes to the buffer's memory \<open>m\<close>, a heap buffer of its
  callers and so apart from the disk.

  A division by zero, possible on a corrupted superblock, traps and has no result, nor has a shift by 32 or more. The search of a
  directory does not end on an entry of length zero and is a partial function.
\<close>

section \<open>State and operations\<close>

record ext2 =
  fs_disk :: u64
  fs_disk_size :: u64
  fs_sb :: u64
  fs_gdt :: u64
  fs_block_size :: u32
  fs_inodes_per_group :: u32
  fs_inode_size :: u32
  fs_groups_count :: u32

record ext2_state = console_state +
  fs :: ext2

definition EXT2_MAGIC :: u16 where "EXT2_MAGIC = 0xEF53"
definition EXT2_ROOT_INO :: u32 where "EXT2_ROOT_INO = 2"
definition EXT2_S_IFREG :: u16 where "EXT2_S_IFREG = 0x8000"
definition EXT2_S_IFDIR :: u16 where "EXT2_S_IFDIR = 0x4000"
definition EXT2_S_IFMT :: u16 where "EXT2_S_IFMT = 0xF000"

text \<open>The fields of the superblock, a group descriptor, an inode and a directory entry.\<close>

definition get16 :: "bytes \<Rightarrow> u64 \<Rightarrow> u16" where "get16 d a = load_le d a 2"
definition get32 :: "bytes \<Rightarrow> u64 \<Rightarrow> u32" where "get32 d a = load_le d a 4"

lemma get16_bytes: "get16 d a = ucast (d a) OR push_bit 8 (ucast (d (a + 1)))"
  unfolding get16_def numeral_2_eq_2 by simp

lemma get32_bytes:
  "get32 d a = ucast (d a) OR push_bit 8 (ucast (d (a + 1)) OR push_bit 8 (ucast (d (a + 2)) OR push_bit 8 (ucast (d (a + 3)))))"
proof -
  have "get32 d a = load_le d a (Suc (Suc (Suc (Suc 0))))" unfolding get32_def by (simp only: numeral_nat One_nat_def)
  also have "\<dots> = ucast (d a) OR push_bit 8 (ucast (d (a + 1)) OR push_bit 8 (ucast (d (a + 1 + 1)) OR push_bit 8 (ucast (d (a + 1 + 1 + 1)))))"
    by (simp only: load_le.simps push_bit_of_0 or.right_neutral)
  finally show ?thesis by (simp add: add.assoc)
qed

definition s_inodes_count :: "bytes \<Rightarrow> u64 \<Rightarrow> u32" where "s_inodes_count d sb = get32 d sb"
definition s_blocks_count :: "bytes \<Rightarrow> u64 \<Rightarrow> u32" where "s_blocks_count d sb = get32 d (sb + 4)"
definition s_log_block_size :: "bytes \<Rightarrow> u64 \<Rightarrow> u32" where "s_log_block_size d sb = get32 d (sb + 24)"
definition s_blocks_per_group :: "bytes \<Rightarrow> u64 \<Rightarrow> u32" where "s_blocks_per_group d sb = get32 d (sb + 32)"
definition s_inodes_per_group :: "bytes \<Rightarrow> u64 \<Rightarrow> u32" where "s_inodes_per_group d sb = get32 d (sb + 40)"
definition s_magic :: "bytes \<Rightarrow> u64 \<Rightarrow> u16" where "s_magic d sb = get16 d (sb + 56)"
definition s_rev_level :: "bytes \<Rightarrow> u64 \<Rightarrow> u32" where "s_rev_level d sb = get32 d (sb + 76)"
definition s_inode_size :: "bytes \<Rightarrow> u64 \<Rightarrow> u16" where "s_inode_size d sb = get16 d (sb + 88)"
definition bg_inode_table :: "bytes \<Rightarrow> u64 \<Rightarrow> u32 \<Rightarrow> u32" where "bg_inode_table d table g = get32 d (table + 32 * ucast g + 8)"
definition i_mode :: "bytes \<Rightarrow> u64 \<Rightarrow> u16" where "i_mode d inode = get16 d inode"
definition i_size :: "bytes \<Rightarrow> u64 \<Rightarrow> u32" where "i_size d inode = get32 d (inode + 4)"
definition i_block :: "bytes \<Rightarrow> u64 \<Rightarrow> u32 \<Rightarrow> u32" where "i_block d inode i = get32 d (inode + 40 + 4 * ucast i)"
definition i_dir_acl :: "bytes \<Rightarrow> u64 \<Rightarrow> u32" where "i_dir_acl d inode = get32 d (inode + 108)"
definition de_inode :: "bytes \<Rightarrow> u64 \<Rightarrow> u32" where "de_inode d e = get32 d e"
definition de_rec_len :: "bytes \<Rightarrow> u64 \<Rightarrow> u16" where "de_rec_len d e = get16 d (e + 4)"
definition de_name_len :: "bytes \<Rightarrow> u64 \<Rightarrow> u8" where "de_name_len d e = d (e + 6)"
definition de_name :: "u64 \<Rightarrow> u64" where "de_name e = e + 8"

subsection \<open>Blocks\<close>

definition ext2_block_ptr :: "ext2 \<Rightarrow> u32 \<Rightarrow> u64" where
  "ext2_block_ptr f block_num =
     (if block_num = 0 then 0 else fs_disk f + ucast block_num * ucast (fs_block_size f))"

definition ext2_read_indirect :: "bytes \<Rightarrow> ext2 \<Rightarrow> u32 \<Rightarrow> u32 \<Rightarrow> u32" where
  "ext2_read_indirect d f indirect_block index =
     (let block = ext2_block_ptr f indirect_block in
      if block = 0 then 0 else get32 d (block + 4 * ucast index))"

definition ext2_get_block_num :: "bytes \<Rightarrow> ext2 \<Rightarrow> u64 \<Rightarrow> u32 \<Rightarrow> u32 option" where
  "ext2_get_block_num d f inode logical_block =
     (let p = fs_block_size f div 4 in
      if logical_block < 12 then Some (i_block d inode logical_block)
      else let l1 = logical_block - 12 in
      if l1 < p then Some (ext2_read_indirect d f (i_block d inode 12) l1)
      else let l2 = l1 - p in
      if l2 < p * p
      then let indirect = ext2_read_indirect d f (i_block d inode 13) (l2 div p)
           in Some (ext2_read_indirect d f indirect (l2 mod p))
      else let l3 = l2 - p * p in
      if (ucast l3 :: u64) < ucast p * ucast p * ucast p
      then if p * p = 0 then None
           else let rem = l3 mod (p * p);
                    dbl_indirect = ext2_read_indirect d f (i_block d inode 14) (l3 div (p * p));
                    indirect = ext2_read_indirect d f dbl_indirect (rem div p)
                in Some (ext2_read_indirect d f indirect (rem mod p))
      else Some 0)"

fun ext2_strncmp :: "bytes \<Rightarrow> u64 \<Rightarrow> u8 list \<Rightarrow> int" where
  "ext2_strncmp d s1 [] = 0"
| "ext2_strncmp d s1 (c # s2) =
     (if d s1 \<noteq> c then sint (d s1) - sint c else if d s1 = 0 then 0 else ext2_strncmp d (s1 + 1) s2)"

subsection \<open>Mounting and inodes\<close>

definition ext2_mount :: "bytes \<Rightarrow> u64 \<Rightarrow> u64 \<Rightarrow> ext2 \<Rightarrow> (int \<times> ext2) option" where
  "ext2_mount d disk sz f =
     (if disk = 0 \<or> sz < 2048 then Some (err EINVAL, f)
      else let sb = disk + 1024;
               f1 = f\<lparr>fs_disk := disk, fs_disk_size := sz, fs_sb := sb\<rparr>
      in if s_magic d sb \<noteq> EXT2_MAGIC then Some (err EINVAL, f1)
      else if s_log_block_size d sb \<ge> 32 \<or> s_blocks_per_group d sb = 0 then None
      else let bs = push_bit (unat (s_log_block_size d sb)) 1024;
               f2 = f1\<lparr>fs_block_size := bs,
                        fs_inode_size := (if s_rev_level d sb = 0 then 128 else ucast (s_inode_size d sb)),
                        fs_inodes_per_group := s_inodes_per_group d sb,
                        fs_groups_count := (s_blocks_count d sb + s_blocks_per_group d sb - 1) div s_blocks_per_group d sb\<rparr>
           in Some (0, f2\<lparr>fs_gdt := ext2_block_ptr f2 (if bs = 1024 then 2 else 1)\<rparr>))"

definition ext2_read_inode :: "bytes \<Rightarrow> ext2 \<Rightarrow> u32 \<Rightarrow> u64 option" where
  "ext2_read_inode d f ino =
     (if ino = 0 \<or> ino > s_inodes_count d (fs_sb f) then Some 0
      else if fs_inodes_per_group f = 0 \<or> fs_block_size f = 0 then None
      else let index = ino - 1;
               group = index div fs_inodes_per_group f;
               local_index = index mod fs_inodes_per_group f;
               inode_table_block = bg_inode_table d (fs_gdt f) group;
               offset = ucast local_index * ucast (fs_inode_size f) :: u64;
               block_offset = ucast (offset div ucast (fs_block_size f)) :: u32;
               byte_offset = ucast (offset mod ucast (fs_block_size f)) :: u32;
               table = ext2_block_ptr f (inode_table_block + block_offset)
           in Some (if table = 0 then 0 else table + ucast byte_offset))"

definition ext2_is_directory :: "bytes \<Rightarrow> u64 \<Rightarrow> bool" where
  "ext2_is_directory d inode \<longleftrightarrow> inode \<noteq> 0 \<and> i_mode d inode AND EXT2_S_IFMT = EXT2_S_IFDIR"

definition ext2_is_regular_file :: "bytes \<Rightarrow> u64 \<Rightarrow> bool" where
  "ext2_is_regular_file d inode \<longleftrightarrow> inode \<noteq> 0 \<and> i_mode d inode AND EXT2_S_IFMT = EXT2_S_IFREG"

definition ext2_get_file_size :: "bytes \<Rightarrow> u64 \<Rightarrow> u64" where
  "ext2_get_file_size d inode =
     (if inode = 0 then 0
      else if ext2_is_regular_file d inode then push_bit 32 (ucast (i_dir_acl d inode)) OR ucast (i_size d inode)
      else ucast (i_size d inode))"

subsection \<open>Directories and paths\<close>

definition entry_matches :: "bytes \<Rightarrow> u64 \<Rightarrow> u8 list \<Rightarrow> bool" where
  "entry_matches d entry name \<longleftrightarrow>
     de_inode d entry \<noteq> 0 \<and> unat (de_name_len d entry) = length name \<and> ext2_strncmp d (de_name entry) name = 0"

text \<open>The loop over the entries of one block: the inode found, zero for none, and the offset reached.\<close>

partial_function (option) scan_block :: "bytes \<Rightarrow> ext2 \<Rightarrow> u64 \<Rightarrow> u64 \<Rightarrow> u8 list \<Rightarrow> u32 \<Rightarrow> u64 \<Rightarrow> (u32 \<times> u64) option" where
  [code]: "scan_block d f block sz name block_offset offset =
     (if block_offset < fs_block_size f \<and> offset < sz
      then let entry = block + ucast block_offset in
        if de_rec_len d entry = 0 then Some (0, offset)
        else if entry_matches d entry name then Some (de_inode d entry, offset)
        else scan_block d f block sz name (block_offset + ucast (de_rec_len d entry)) (offset + ucast (de_rec_len d entry))
      else Some (0, offset))"

partial_function (option) lookup_loop :: "bytes \<Rightarrow> ext2 \<Rightarrow> u64 \<Rightarrow> u64 \<Rightarrow> u8 list \<Rightarrow> u64 \<Rightarrow> u32 option" where
  [code]: "lookup_loop d f dir_inode sz name offset =
     (if offset < sz
      then if fs_block_size f = 0 then None
        else let logical_block = ucast (offset div ucast (fs_block_size f)) :: u32;
                 block_offset = ucast (offset mod ucast (fs_block_size f)) :: u32
        in Option.bind (ext2_get_block_num d f dir_inode logical_block) (\<lambda>block_num.
           if block_num = 0
           then lookup_loop d f dir_inode sz name (offset + ucast (fs_block_size f - block_offset))
           else Option.bind (scan_block d f (ext2_block_ptr f block_num) sz name block_offset offset) (\<lambda>(ino, offset').
             if ino \<noteq> 0 then Some ino else lookup_loop d f dir_inode sz name offset'))
      else Some 0)"

definition ext2_lookup_in_dir :: "bytes \<Rightarrow> ext2 \<Rightarrow> u64 \<Rightarrow> u8 list \<Rightarrow> u32 option" where
  "ext2_lookup_in_dir d f dir_inode name = lookup_loop d f dir_inode (ext2_get_file_size d dir_inode) name 0"

function lookup_path :: "bytes \<Rightarrow> ext2 \<Rightarrow> u32 \<Rightarrow> u8 list \<Rightarrow> u32 option" where
  "lookup_path d f ino p =
     (let p1 = dropWhile (\<lambda>c. c = 0x2F) p in
      if p1 = [] then Some ino
      else let name = takeWhile (\<lambda>c. c \<noteq> 0x2F) p1 in
        Option.bind (ext2_read_inode d f ino) (\<lambda>dir.
        if dir = 0 \<or> \<not> ext2_is_directory d dir then Some 0
        else Option.bind (ext2_lookup_in_dir d f dir name) (\<lambda>ino'.
          if ino' = 0 then Some 0 else lookup_path d f ino' (dropWhile (\<lambda>c. c \<noteq> 0x2F) p1))))"
  by pat_completeness auto
termination
proof (relation "measure (\<lambda>(_, _, _, p). length p)", goal_cases)
  case (2 d f ino p p1 name dir ino')
  obtain c q where c: "p1 = c # q" using 2(2) by (cases p1) auto
  then have "c \<noteq> 0x2F" using 2(1) dropWhile_eq_Cons_conv[of "\<lambda>c. c = 0x2F" p c q] by auto
  then have "length (dropWhile (\<lambda>c. c \<noteq> 0x2F) p1) < length p1"
    using c by (simp add: le_imp_less_Suc length_dropWhile_le)
  then show ?case using 2(1) length_dropWhile_le[of "\<lambda>c. c = 0x2F" p] by simp
qed auto

declare lookup_path.simps [simp del]

definition ext2_lookup :: "bytes \<Rightarrow> ext2 \<Rightarrow> u8 list option \<Rightarrow> u32 option" where
  "ext2_lookup d f path =
     (case path of None \<Rightarrow> Some 0 | Some [] \<Rightarrow> Some 0
      | Some (c # p) \<Rightarrow> if c \<noteq> 0x2F then Some 0 else lookup_path d f EXT2_ROOT_INO p)"

subsection \<open>Reading\<close>

definition ext2_memcpy :: "bytes \<Rightarrow> u64 \<Rightarrow> bytes \<Rightarrow> u64 \<Rightarrow> u64 \<Rightarrow> bytes" where
  "ext2_memcpy m dst d src n = fold (\<lambda>i m. m(dst + of_nat i := d (src + of_nat i))) [0..<unat n] m"

definition chunk :: "ext2 \<Rightarrow> u64 \<Rightarrow> u64 \<Rightarrow> u64" where
  "chunk f offset sz =
     (let block_offset = ucast (offset mod ucast (fs_block_size f)) :: u32;
          to_read = ucast (fs_block_size f - block_offset) :: u64
      in if to_read > sz then sz else to_read)"

definition read_chunk :: "bytes \<Rightarrow> ext2 \<Rightarrow> u64 \<Rightarrow> u64 \<Rightarrow> u64 \<Rightarrow> u64 \<Rightarrow> bytes \<Rightarrow> bytes option" where
  "read_chunk d f inode offset dst to_read m =
     (let logical_block = ucast (offset div ucast (fs_block_size f)) :: u32;
          block_offset = ucast (offset mod ucast (fs_block_size f)) :: u32
      in map_option (\<lambda>block_num.
           if block_num = 0 then fold (\<lambda>i m. m(dst + of_nat i := 0)) [0..<unat to_read] m
           else ext2_memcpy m dst d (ext2_block_ptr f block_num + ucast block_offset) to_read)
         (ext2_get_block_num d f inode logical_block))"

text \<open>Positions in a block.\<close>

lemma unat_ucast32 [simp]: "unat (ucast (b :: u32) :: u64) = unat b"
  using unsigned_less[of b, where 'a = nat]
  by (simp add: unsigned_ucast_eq take_bit_nat_eq_self)

lemma unat_block_offset:
  fixes bs :: u32 and offset :: u64
  assumes "bs \<noteq> 0"
  shows "unat (ucast (offset mod ucast bs) :: u32) = unat offset mod unat bs"
proof -
  have "unat offset mod unat bs < unat bs" using assms by (simp add: unat_gt_0)
  also have "\<dots> < 2 ^ 32" using unsigned_less[of bs, where 'a = nat] by simp
  finally show ?thesis by (simp add: unsigned_ucast_eq unat_mod take_bit_nat_eq_self del: unsigned_take_bit_eq)
qed

lemma unat_block_rest:
  fixes bs :: u32 and offset :: u64
  assumes "bs \<noteq> 0"
  shows "unat (bs - ucast (offset mod ucast bs)) = unat bs - unat offset mod unat bs"
proof -
  have "unat offset mod unat bs < unat bs" using assms by (simp add: unat_gt_0)
  then have "(ucast (offset mod ucast bs) :: u32) \<le> bs" unfolding word_le_nat_alt unat_block_offset[OF assms] by simp
  then show ?thesis by (simp add: unat_sub unat_block_offset assms)
qed

lemma unat_chunk: "fs_block_size f \<noteq> 0 \<Longrightarrow> unat (chunk f offset sz) = min (unat sz) (unat (fs_block_size f) - unat offset mod unat (fs_block_size f))"
  by (auto simp: chunk_def Let_def word_less_nat_alt unat_block_rest)

lemma chunk_pos: "fs_block_size f \<noteq> 0 \<Longrightarrow> 0 < sz \<Longrightarrow> 0 < chunk f offset sz"
  by (simp add: word_less_nat_alt unat_chunk unat_gt_0)

lemma chunk_le: "chunk f offset sz \<le> sz"
  by (auto simp: chunk_def Let_def)

function read_loop :: "bytes \<Rightarrow> ext2 \<Rightarrow> u64 \<Rightarrow> u64 \<Rightarrow> u64 \<Rightarrow> u64 \<Rightarrow> u64 \<Rightarrow> bytes \<Rightarrow> (u64 \<times> bytes) option" where
  "read_loop d f inode offset dst sz total_read m =
     (if sz = 0 then Some (total_read, m)
      else if fs_block_size f = 0 then None
      else let to_read = chunk f offset sz in
        Option.bind (read_chunk d f inode offset dst to_read m) (\<lambda>m1.
        read_loop d f inode (offset + to_read) (dst + to_read) (sz - to_read) (total_read + to_read) m1))"
  by pat_completeness auto
termination
proof (relation "measure (\<lambda>(_, _, _, _, _, sz, _, _). unat sz)", goal_cases)
  case (2 d f inode offset dst sz total_read m to_read m1)
  then have "0 < to_read" "to_read \<le> sz" using chunk_pos chunk_le by (auto simp: word_gt_0)
  then have "unat (sz - to_read) < unat sz" by (simp add: unat_sub word_less_nat_alt word_le_nat_alt)
  then show ?case by simp
qed auto

declare read_loop.simps [simp del]

definition ext2_read_file :: "bytes \<Rightarrow> ext2 \<Rightarrow> u64 \<Rightarrow> u64 \<Rightarrow> u64 \<Rightarrow> u64 \<Rightarrow> bytes \<Rightarrow> (int \<times> bytes) option" where
  "ext2_read_file d f inode offset buf sz m =
     (if inode = 0 \<or> buf = 0 then Some (err EINVAL, m)
      else let file_size = ext2_get_file_size d inode in
        if offset \<ge> file_size then Some (0, m)
        else let sz1 = (if offset + sz > file_size then file_size - offset else sz)
        in map_option (\<lambda>(total_read, m1). (sint total_read, m1)) (read_loop d f inode offset buf sz1 0 m))"

text \<open>The RAM disk lies in the kernel's direct map of physical memory.\<close>

definition hhdm :: "'a pmm_state_scheme \<Rightarrow> bytes" where
  "hhdm s v = mem s (virt_to_phys s v)"

definition ext2_init :: "u64 \<Rightarrow> u64 \<Rightarrow> 'a ext2_state_scheme \<Rightarrow> (int \<times> 'a ext2_state_scheme) option" where
  "ext2_init disk sz s = map_option (\<lambda>(ret, f). (ret, s\<lparr>fs := f\<rparr>)) (ext2_mount (hhdm s) disk sz (fs s))"

end
