(* ===== verification/Vfs.thy ===== *)
theory Vfs
  imports Ext2
begin

text \<open>
  Open files, \<^verbatim>\<open>fs/vfs.c\<close>, the console device, \<^verbatim>\<open>drivers/tty/tty_dev.c\<close>, and the files of the ext2 file system,
  the \<^verbatim>\<open>ext2_file_\<close> operations of \<^verbatim>\<open>arch/x86/kernel/syscall.c\<close>.

  A file structure lives on the heap; \<open>vfs_files\<close> gives the contents behind its address, zero is
  \<^verbatim>\<open>NULL\<close>. An operation table is a record of optional functions, and the dispatching
  functions take the tables as an argument: \<open>ops_table\<close> says which table a file's \<^verbatim>\<open>ops\<close> pointer names.

  The buffers are the caller's, in user memory. A kernel access to a page that is not present, or a store to a page
  that is not writable (write protection also holds for the kernel), faults; the fault handler resolves no fault taken in kernel mode
  and halts, so such an access has no result. Interrupts that arrive while the keyboard is read are the argument \<open>irq\<close>.
\<close>

section \<open>Files\<close>

datatype ops_ptr = Tty_ops | Ext2_file_ops
datatype private_ptr = Private_null | Private_terminal term_ptr | Private_ext2 u64

record vfs_file =
  vf_type :: int
  vf_flags :: u32
  vf_offset :: u64
  vf_refcount :: int
  vf_ops :: "ops_ptr option"
  vf_private :: private_ptr

record ext2_file_private =
  ep_inode_num :: u32
  ep_inode :: u64
  ep_size :: u64

record vfs_state = ext2_state +
  vfs_files :: "u64 \<Rightarrow> vfs_file"
  ext2_privates :: "u64 \<Rightarrow> ext2_file_private"

record 's file_ops =
  op_read :: "(u64 \<Rightarrow> u64 \<Rightarrow> u64 \<Rightarrow> 's \<Rightarrow> (int \<times> 's) option) option"
  op_write :: "(u64 \<Rightarrow> u64 \<Rightarrow> u64 \<Rightarrow> 's \<Rightarrow> (int \<times> 's) option) option"
  op_lseek :: "(u64 \<Rightarrow> int \<Rightarrow> int \<Rightarrow> 's \<Rightarrow> int \<times> 's) option"
  op_close :: "(u64 \<Rightarrow> 's \<Rightarrow> int \<times> 's) option"

definition VFS_TYPE_NONE :: int where "VFS_TYPE_NONE = 0"
definition VFS_TYPE_REG :: int where "VFS_TYPE_REG = 1"
definition VFS_TYPE_CHR :: int where "VFS_TYPE_CHR = 3"
definition O_RDONLY :: u32 where "O_RDONLY = 0"
definition O_WRONLY :: u32 where "O_WRONLY = 1"
definition O_RDWR :: u32 where "O_RDWR = 2"
definition O_ACCMODE :: u32 where "O_ACCMODE = 3"
definition SEEK_SET :: int where "SEEK_SET = 0"
definition SEEK_CUR :: int where "SEEK_CUR = 1"
definition SEEK_END :: int where "SEEK_END = 2"
definition SIZEOF_VFS_FILE :: u64 where "SIZEOF_VFS_FILE = 40"
definition SIZEOF_EXT2_PRIVATE :: u64 where "SIZEOF_EXT2_PRIVATE = 24"

definition upd_file :: "u64 \<Rightarrow> (vfs_file \<Rightarrow> vfs_file) \<Rightarrow> 'a vfs_state_scheme \<Rightarrow> 'a vfs_state_scheme" where
  "upd_file file f s = s\<lparr>vfs_files := (vfs_files s)(file := f (vfs_files s file))\<rparr>"

definition vfs_file_alloc :: "'a vfs_state_scheme \<Rightarrow> (u64 \<times> 'a vfs_state_scheme) option" where
  "vfs_file_alloc s =
     map_option (\<lambda>(file, s1).
       if file = 0 then (0, s1)
       else (file, upd_file file (\<lambda>_. \<lparr>vf_type = VFS_TYPE_NONE, vf_flags = 0, vf_offset = 0, vf_refcount = 1,
                                        vf_ops = None, vf_private = Private_null\<rparr>) s1))
     (kmalloc SIZEOF_VFS_FILE s)"

definition vfs_file_ref :: "u64 \<Rightarrow> 'a vfs_state_scheme \<Rightarrow> 'a vfs_state_scheme" where
  "vfs_file_ref file s = (if file = 0 then s else upd_file file (\<lambda>f. f\<lparr>vf_refcount := vf_refcount f + 1\<rparr>) s)"

definition file_ops_of :: "(ops_ptr \<Rightarrow> 's file_ops) \<Rightarrow> vfs_file \<Rightarrow> 's file_ops option" where
  "file_ops_of tbl f = map_option tbl (vf_ops f)"

definition vfs_file_unref ::
  "(ops_ptr \<Rightarrow> 'a vfs_state_scheme file_ops) \<Rightarrow> u64 \<Rightarrow> 'a vfs_state_scheme \<Rightarrow> 'a vfs_state_scheme" where
  "vfs_file_unref tbl file s =
     (if file = 0 then s
      else let s1 = upd_file file (\<lambda>f. f\<lparr>vf_refcount := vf_refcount f - 1\<rparr>) s in
        if vf_refcount (vfs_files s1 file) \<le> 0
        then let s2 = (case Option.bind (file_ops_of tbl (vfs_files s1 file)) op_close of
                         None \<Rightarrow> s1 | Some close \<Rightarrow> snd (close file s1))
             in kfree file s2
        else s1)"

definition vfs_read ::
  "(ops_ptr \<Rightarrow> 'a vfs_state_scheme file_ops) \<Rightarrow> u64 \<Rightarrow> u64 \<Rightarrow> u64 \<Rightarrow> 'a vfs_state_scheme \<Rightarrow> (int \<times> 'a vfs_state_scheme) option" where
  "vfs_read tbl file buf count s =
     (if file = 0 then Some (err EBADF, s)
      else if vf_flags (vfs_files s file) AND O_ACCMODE = O_WRONLY then Some (err EBADF, s)
      else case Option.bind (file_ops_of tbl (vfs_files s file)) op_read of
             None \<Rightarrow> Some (err EINVAL, s) | Some read \<Rightarrow> read file buf count s)"

definition vfs_write ::
  "(ops_ptr \<Rightarrow> 'a vfs_state_scheme file_ops) \<Rightarrow> u64 \<Rightarrow> u64 \<Rightarrow> u64 \<Rightarrow> 'a vfs_state_scheme \<Rightarrow> (int \<times> 'a vfs_state_scheme) option" where
  "vfs_write tbl file buf count s =
     (if file = 0 then Some (err EBADF, s)
      else if vf_flags (vfs_files s file) AND O_ACCMODE = O_RDONLY then Some (err EBADF, s)
      else case Option.bind (file_ops_of tbl (vfs_files s file)) op_write of
             None \<Rightarrow> Some (err EINVAL, s) | Some write \<Rightarrow> write file buf count s)"

text \<open>Offsets are 64-bit; a sum that leaves the signed range wraps.\<close>

definition seek_to :: "u64 \<Rightarrow> int \<Rightarrow> 'a vfs_state_scheme \<Rightarrow> int \<times> 'a vfs_state_scheme" where
  "seek_to file new_offset s =
     (let o' = sint (word_of_int new_offset :: u64) in
      if o' < 0 then (err EINVAL, s) else (o', upd_file file (\<lambda>f. f\<lparr>vf_offset := word_of_int o'\<rparr>) s))"

definition vfs_lseek ::
  "(ops_ptr \<Rightarrow> 'a vfs_state_scheme file_ops) \<Rightarrow> u64 \<Rightarrow> int \<Rightarrow> int \<Rightarrow> 'a vfs_state_scheme \<Rightarrow> int \<times> 'a vfs_state_scheme" where
  "vfs_lseek tbl file offset whence s =
     (if file = 0 then (err EBADF, s)
      else case Option.bind (file_ops_of tbl (vfs_files s file)) op_lseek of
             Some lseek \<Rightarrow> lseek file offset whence s
           | None \<Rightarrow>
               if whence = SEEK_SET then seek_to file offset s
               else if whence = SEEK_CUR then seek_to file (sint (vf_offset (vfs_files s file)) + offset) s
               else if whence = SEEK_END then (err ESPIPE, s)
               else (err EINVAL, s))"

definition vfs_close ::
  "(ops_ptr \<Rightarrow> 'a vfs_state_scheme file_ops) \<Rightarrow> u64 \<Rightarrow> 'a vfs_state_scheme \<Rightarrow> int \<times> 'a vfs_state_scheme" where
  "vfs_close tbl file s = (if file = 0 then (err EBADF, s) else (0, vfs_file_unref tbl file s))"

section \<open>User memory\<close>

definition user_load8 :: "u64 \<Rightarrow> 'a vmm_state_scheme \<Rightarrow> u8 option" where
  "user_load8 a s = (if vmm_get_pte_flags (cr3 s) a s AND PTE_PRESENT = 0 then None else Some (vmem s a))"

definition user_store8 :: "u64 \<Rightarrow> u8 \<Rightarrow> 'a vmm_state_scheme \<Rightarrow> 'a vmm_state_scheme option" where
  "user_store8 a v s =
     (let flags = vmm_get_pte_flags (cr3 s) a s in
      if flags AND PTE_PRESENT = 0 \<or> flags AND PTE_WRITABLE = 0 then None
      else Some (s\<lparr>mem := (mem s)(translate s a := v)\<rparr>))"

fun user_store :: "u64 \<Rightarrow> u8 list \<Rightarrow> 'a vmm_state_scheme \<Rightarrow> 'a vmm_state_scheme option" where
  "user_store a [] s = Some s"
| "user_store a (v # vs) s = Option.bind (user_store8 a v s) (user_store (a + 1) vs)"

section \<open>The console device\<close>

definition tty_open :: "u32 \<Rightarrow> 'a vfs_state_scheme \<Rightarrow> (u64 \<times> 'a vfs_state_scheme) option" where
  "tty_open flags s =
     map_option (\<lambda>(file, s1).
       if file = 0 then (0, s1)
       else (file, upd_file file (\<lambda>f. f\<lparr>vf_type := VFS_TYPE_CHR, vf_flags := flags, vf_ops := Some Tty_ops,
                                         vf_private := Private_terminal (terminal_get_active s1)\<rparr>) s1))
     (vfs_file_alloc s)"

fun tty_read_more :: "nat \<Rightarrow> u64 \<Rightarrow> nat \<Rightarrow> 'a vfs_state_scheme \<Rightarrow> (nat \<times> 'a vfs_state_scheme) option" where
  "tty_read_more 0 cbuf bytes_read s = Some (bytes_read, s)"
| "tty_read_more (Suc room) cbuf bytes_read s =
     (if \<not> keyboard_has_input s then Some (bytes_read, s)
      else let (ch, s1) = keyboard_getchar s in
        if ch < 0 then Some (bytes_read, s1)
        else Option.bind (user_store8 (cbuf + of_nat bytes_read) (word_of_int ch) s1)
               (tty_read_more room cbuf (bytes_read + 1)))"

definition tty_read ::
  "(nat \<Rightarrow> 'a vfs_state_scheme \<Rightarrow> 'a vfs_state_scheme) \<Rightarrow> u64 \<Rightarrow> u64 \<Rightarrow> u64 \<Rightarrow> 'a vfs_state_scheme \<Rightarrow> (int \<times> 'a vfs_state_scheme) option" where
  "tty_read irq file buf count s =
     (if buf = 0 \<or> count = 0 then Some (0, s)
      else Option.bind (keyboard_read irq 0 s) (\<lambda>(c, _, s1).
           Option.bind (user_store8 buf c s1) (\<lambda>s2.
           map_option (\<lambda>(n, s3). (int n, s3)) (tty_read_more (unat count - 1) buf 1 s2))))"

fun tty_put :: "(nat \<Rightarrow> u8) \<Rightarrow> term_ptr \<Rightarrow> nat \<Rightarrow> u64 \<Rightarrow> 'a vfs_state_scheme \<Rightarrow> 'a vfs_state_scheme option" where
  "tty_put font_data t 0 cbuf s = Some s"
| "tty_put font_data t (Suc n) cbuf s =
     Option.bind (user_load8 cbuf s) (\<lambda>c.
     Option.bind (terminal_putchar font_data (Some t) c s) (tty_put font_data t n (cbuf + 1)))"

definition tty_write ::
  "(nat \<Rightarrow> u8) \<Rightarrow> u64 \<Rightarrow> u64 \<Rightarrow> u64 \<Rightarrow> 'a vfs_state_scheme \<Rightarrow> (int \<times> 'a vfs_state_scheme) option" where
  "tty_write font_data file buf count s =
     (let t = (case vf_private (vfs_files s file) of Private_terminal t \<Rightarrow> t | _ \<Rightarrow> terminal_get_active s)
      in map_option (\<lambda>s1. (sint count, s1)) (tty_put font_data t (unat count) buf s))"

definition tty_close :: "u64 \<Rightarrow> 'a vfs_state_scheme \<Rightarrow> int \<times> 'a vfs_state_scheme" where
  "tty_close file s = (0, s)"

definition tty_ops :: "(nat \<Rightarrow> u8) \<Rightarrow> (nat \<Rightarrow> 'a vfs_state_scheme \<Rightarrow> 'a vfs_state_scheme) \<Rightarrow> 'a vfs_state_scheme file_ops" where
  "tty_ops font_data irq =
     \<lparr>op_read = Some (tty_read irq), op_write = Some (tty_write font_data), op_lseek = None, op_close = Some tty_close\<rparr>"

section \<open>Files of the file system\<close>

definition ext2_file_read :: "u64 \<Rightarrow> u64 \<Rightarrow> u64 \<Rightarrow> 'a vfs_state_scheme \<Rightarrow> (int \<times> 'a vfs_state_scheme) option" where
  "ext2_file_read file buf count s =
     (case vf_private (vfs_files s file) of
        Private_ext2 priv \<Rightarrow>
          (let p = ext2_privates s priv; offset = vf_offset (vfs_files s file) in
           if ep_inode p = 0 then Some (err EBADF, s)
           else if offset \<ge> ep_size p then Some (0, s)
           else let count1 = (if offset + count > ep_size p then ep_size p - offset else count) in
             Option.bind (ext2_read_file (hhdm s) (fs s) (ep_inode p) offset buf count1 (vmem s)) (\<lambda>(bytes_read, m).
             map_option (\<lambda>s1.
               (bytes_read, if bytes_read > 0
                            then upd_file file (\<lambda>f. f\<lparr>vf_offset := vf_offset f + word_of_int bytes_read\<rparr>) s1 else s1))
             (user_store buf (map (\<lambda>i. m (buf + of_nat i)) [0..<nat bytes_read]) s)))
      | _ \<Rightarrow> Some (err EBADF, s))"

definition ext2_file_write :: "u64 \<Rightarrow> u64 \<Rightarrow> u64 \<Rightarrow> 'a vfs_state_scheme \<Rightarrow> (int \<times> 'a vfs_state_scheme) option" where
  "ext2_file_write file buf count s = Some (err EROFS, s)"

definition ext2_file_lseek :: "u64 \<Rightarrow> int \<Rightarrow> int \<Rightarrow> 'a vfs_state_scheme \<Rightarrow> int \<times> 'a vfs_state_scheme" where
  "ext2_file_lseek file offset whence s =
     (case vf_private (vfs_files s file) of
        Private_ext2 priv \<Rightarrow>
          if whence = SEEK_SET then seek_to file offset s
          else if whence = SEEK_CUR then seek_to file (sint (vf_offset (vfs_files s file)) + offset) s
          else if whence = SEEK_END then seek_to file (sint (ep_size (ext2_privates s priv)) + offset) s
          else (err EINVAL, s)
      | _ \<Rightarrow> (err EBADF, s))"

definition ext2_file_close :: "u64 \<Rightarrow> 'a vfs_state_scheme \<Rightarrow> int \<times> 'a vfs_state_scheme" where
  "ext2_file_close file s =
     (case vf_private (vfs_files s file) of
        Private_ext2 priv \<Rightarrow> (0, upd_file file (\<lambda>f. f\<lparr>vf_private := Private_null\<rparr>) (kfree priv s))
      | _ \<Rightarrow> (0, s))"

definition ext2_file_ops :: "'a vfs_state_scheme file_ops" where
  "ext2_file_ops =
     \<lparr>op_read = Some ext2_file_read, op_write = Some ext2_file_write, op_lseek = Some ext2_file_lseek, op_close = Some ext2_file_close\<rparr>"

definition ops_table ::
  "(nat \<Rightarrow> u8) \<Rightarrow> (nat \<Rightarrow> 'a vfs_state_scheme \<Rightarrow> 'a vfs_state_scheme) \<Rightarrow> ops_ptr \<Rightarrow> 'a vfs_state_scheme file_ops" where
  "ops_table font_data irq p = (case p of Tty_ops \<Rightarrow> tty_ops font_data irq | Ext2_file_ops \<Rightarrow> ext2_file_ops)"

end
