(* ===== verification/Process.thy ===== *)
theory Process
  imports Vfs
begin

text \<open>
  Processes, \<^verbatim>\<open>kernel/process.c\<close>. A process control block lives on the heap; \<open>procs\<close> gives the contents behind its
  address, zero is \<^verbatim>\<open>NULL\<close>. The loops over the sibling and process lists, which need not end on a corrupted list, are partial
  functions. A process that exits halts with interrupts as they were: the state it leaves is marked as not
  returning.
\<close>

section \<open>State\<close>

datatype proc_state = PROC_EMBRYO | PROC_RUNNABLE | PROC_RUNNING | PROC_SLEEPING | PROC_ZOMBIE

record fd_entry =
  fd_file :: u64
  fd_flags :: u32

record process =
  p_pid :: u64
  p_name :: "u8 list"
  p_state :: proc_state
  p_pml4_phys :: u64
  p_brk_start :: u64
  p_brk :: u64
  p_kthread :: "kthread_ptr option"
  p_kernel_stack_top :: u64
  p_user_rip :: u64
  p_user_rsp :: u64
  p_user_rflags :: u64
  p_fs_base :: u64
  p_gs_base :: u64
  p_fd_table :: "fd_entry list"
  p_parent :: u64
  p_children :: u64
  p_sibling :: u64
  p_exit_code :: int
  p_wait_pid :: int
  p_pending_signals :: u64
  p_blocked_signals :: u64
  p_next :: u64

record process_state = vfs_state +
  procs :: "u64 \<Rightarrow> process"
  process_list :: u64
  current_proc :: u64
  next_pid :: u64
  init_process :: u64
  mmap_next :: u64

definition PROC_MAX_FDS :: nat where "PROC_MAX_FDS = 256"
definition KERNEL_STACK_SIZE :: u64 where "KERNEL_STACK_SIZE = 16384"
definition SIZEOF_PROCESS :: u64 where "SIZEOF_PROCESS = 4312"
definition USER_STACK_TOP :: u64 where "USER_STACK_TOP = 0x800000000"
definition USER_STACK_SIZE :: u64 where "USER_STACK_SIZE = 0x200000"
definition USER_STACK_BOTTOM :: u64 where "USER_STACK_BOTTOM = USER_STACK_TOP - USER_STACK_SIZE"
definition USER_MMAP_START :: u64 where "USER_MMAP_START = 0x100000000"
definition MSR_FS_BASE :: u32 where "MSR_FS_BASE = 0xC0000100"

definition upd_proc :: "u64 \<Rightarrow> (process \<Rightarrow> process) \<Rightarrow> 'a process_state_scheme \<Rightarrow> 'a process_state_scheme" where
  "upd_proc p f s = s\<lparr>procs := (procs s)(p := f (procs s p))\<rparr>"

definition canonical_addr :: "u64 \<Rightarrow> bool" where
  "canonical_addr a \<longleftrightarrow> signed_drop_bit 16 (push_bit 16 a) = a"

text \<open>The contents of a control block after the zeroing loop.\<close>

definition zero_process :: process where
  "zero_process = \<lparr>p_pid = 0, p_name = [], p_state = PROC_EMBRYO, p_pml4_phys = 0, p_brk_start = 0, p_brk = 0,
     p_kthread = None, p_kernel_stack_top = 0, p_user_rip = 0, p_user_rsp = 0, p_user_rflags = 0, p_fs_base = 0, p_gs_base = 0,
     p_fd_table = replicate PROC_MAX_FDS \<lparr>fd_file = 0, fd_flags = 0\<rparr>, p_parent = 0, p_children = 0, p_sibling = 0,
     p_exit_code = 0, p_wait_pid = 0, p_pending_signals = 0, p_blocked_signals = 0, p_next = 0\<rparr>"

section \<open>Operations\<close>

definition process_init :: "'a process_state_scheme \<Rightarrow> 'a process_state_scheme" where
  "process_init s = s\<lparr>process_list := 0, current_proc := 0, next_pid := 1, init_process := 0\<rparr>"

definition process_allocate_pid :: "'a process_state_scheme \<Rightarrow> u64 \<times> 'a process_state_scheme" where
  "process_allocate_pid s = (next_pid s, s\<lparr>next_pid := next_pid s + 1\<rparr>)"

definition process_add :: "u64 \<Rightarrow> 'a process_state_scheme \<Rightarrow> 'a process_state_scheme" where
  "process_add proc s =
     (if proc = 0 then s else (upd_proc proc (\<lambda>p. p\<lparr>p_next := process_list s\<rparr>) s)\<lparr>process_list := proc\<rparr>)"

definition link_child :: "u64 \<Rightarrow> u64 \<Rightarrow> 'a process_state_scheme \<Rightarrow> 'a process_state_scheme" where
  "link_child parent child s =
     upd_proc parent (\<lambda>p. p\<lparr>p_children := child\<rparr>) (upd_proc child (\<lambda>p. p\<lparr>p_sibling := p_children (procs s parent)\<rparr>) s)"

definition set_fd :: "nat \<Rightarrow> u64 \<Rightarrow> process \<Rightarrow> process" where
  "set_fd fd file p = p\<lparr>p_fd_table := (p_fd_table p)[fd := (p_fd_table p ! fd)\<lparr>fd_file := file\<rparr>]\<rparr>"

text \<open>The three standard descriptors; a failed open leaves its descriptor closed.\<close>

definition open_stdio :: "u64 \<Rightarrow> 'a process_state_scheme \<Rightarrow> 'a process_state_scheme option" where
  "open_stdio proc s =
     Option.bind (tty_open O_RDONLY s) (\<lambda>(f0, s1).
     let s2 = upd_proc proc (set_fd 0 f0) s1 in
     Option.bind (tty_open O_WRONLY s2) (\<lambda>(f1, s3).
     let s4 = upd_proc proc (set_fd 1 f1) s3 in
     map_option (\<lambda>(f2, s5). upd_proc proc (set_fd 2 f2) s5) (tty_open O_WRONLY s4)))"

definition process_create :: "u8 list \<Rightarrow> 'a process_state_scheme \<Rightarrow> (u64 \<times> 'a process_state_scheme) option" where
  "process_create nm s =
     Option.bind (kmalloc SIZEOF_PROCESS s) (\<lambda>(proc, s1).
     if proc = 0 then Some (0, s1)
     else let (pid, s2) = process_allocate_pid (upd_proc proc (\<lambda>_. zero_process\<lparr>p_name := take 63 nm\<rparr>) s1);
              s3 = upd_proc proc (\<lambda>p. p\<lparr>p_pid := pid\<rparr>) s2;
              s4 = (if pid = 1 then s3\<lparr>init_process := proc\<rparr> else s3)
     in Option.bind (kmalloc KERNEL_STACK_SIZE s4) (\<lambda>(kernel_stack, s5).
        if kernel_stack = 0 then Some (0, kfree proc s5)
        else Option.bind (vmm_create_address_space s5) (\<lambda>(pml4, s6).
        if pml4 = 0 then Some (0, kfree proc (kfree kernel_stack s6))
        else let s7 = upd_proc proc (\<lambda>p. p\<lparr>p_kernel_stack_top := kernel_stack + KERNEL_STACK_SIZE, p_pml4_phys := pml4,
                        p_state := PROC_EMBRYO, p_parent := current_proc s6, p_exit_code := 0, p_wait_pid := -1,
                        p_fd_table := replicate PROC_MAX_FDS \<lparr>fd_file = 0, fd_flags = 0\<rparr>\<rparr>) s6
        in map_option (\<lambda>s8.
             let parent = p_parent (procs s8 proc);
                 s9 = (if parent \<noteq> 0 then link_child parent proc s8 else s8)
             in (proc, (upd_proc proc (\<lambda>p. p\<lparr>p_next := process_list s9\<rparr>) s9)\<lparr>process_list := proc\<rparr>))
           (open_stdio proc s7))))"

text \<open>Unlinking from a list: the pointer to the process is in the field of the process before it.\<close>

partial_function (option) unlink_sibling :: "u64 \<Rightarrow> u64 \<Rightarrow> 'a process_state_scheme \<Rightarrow> 'a process_state_scheme option" where
  [code]: "unlink_sibling prev proc s =
     (let cur = p_sibling (procs s prev) in
      if cur = 0 then Some s
      else if cur = proc then Some (upd_proc prev (\<lambda>p. p\<lparr>p_sibling := p_sibling (procs s proc)\<rparr>) s)
      else unlink_sibling cur proc s)"

definition unlink_child :: "u64 \<Rightarrow> 'a process_state_scheme \<Rightarrow> 'a process_state_scheme option" where
  "unlink_child proc s =
     (let parent = p_parent (procs s proc) in
      if parent = 0 then Some s
      else let first = p_children (procs s parent) in
        if first = 0 then Some s
        else if first = proc then Some (upd_proc parent (\<lambda>p. p\<lparr>p_children := p_sibling (procs s proc)\<rparr>) s)
        else unlink_sibling first proc s)"

partial_function (option) unlink_next :: "u64 \<Rightarrow> u64 \<Rightarrow> 'a process_state_scheme \<Rightarrow> 'a process_state_scheme option" where
  [code]: "unlink_next prev proc s =
     (let cur = p_next (procs s prev) in
      if cur = 0 then Some s
      else if cur = proc then Some (upd_proc prev (\<lambda>p. p\<lparr>p_next := p_next (procs s proc)\<rparr>) s)
      else unlink_next cur proc s)"

definition unlink_process :: "u64 \<Rightarrow> 'a process_state_scheme \<Rightarrow> 'a process_state_scheme option" where
  "unlink_process proc s =
     (if process_list s = 0 then Some s
      else if process_list s = proc then Some (s\<lparr>process_list := p_next (procs s proc)\<rparr>)
      else unlink_next (process_list s) proc s)"

definition close_fd ::
  "(ops_ptr \<Rightarrow> 'a process_state_scheme file_ops) \<Rightarrow> u64 \<Rightarrow> nat \<Rightarrow> 'a process_state_scheme \<Rightarrow> 'a process_state_scheme" where
  "close_fd tbl proc i s =
     (let file = fd_file (p_fd_table (procs s proc) ! i) in
      if file = 0 then s else upd_proc proc (set_fd i 0) (snd (vfs_close tbl file s)))"

definition process_destroy ::
  "(ops_ptr \<Rightarrow> 'a process_state_scheme file_ops) \<Rightarrow> u64 \<Rightarrow> 'a process_state_scheme \<Rightarrow> 'a process_state_scheme option" where
  "process_destroy tbl proc s =
     (if proc = 0 then Some s
      else Option.bind (unlink_child proc s) (\<lambda>s1.
        map_option (\<lambda>s2.
          let s3 = fold (close_fd tbl proc) [0..<PROC_MAX_FDS] s2;
              s4 = (case p_kthread (procs s3 proc) of None \<Rightarrow> s3
                    | Some t \<Rightarrow> upd_proc proc (\<lambda>p. p\<lparr>p_kthread := None\<rparr>) (upd_thread t (\<lambda>k. k\<lparr>kt_state := THREAD_EXITED\<rparr>) s3));
              pml4 = p_pml4_phys (procs s4 proc);
              s5 = (if pml4 \<noteq> 0 then vmm_free_user_address_space pml4 s4 else s4);
              top = p_kernel_stack_top (procs s5 proc);
              s6 = (if top \<noteq> 0 then kfree (top - KERNEL_STACK_SIZE) s5 else s5)
          in kfree proc s6)
        (unlink_process proc s1)))"

definition process_current :: "'a process_state_scheme \<Rightarrow> u64" where
  "process_current s = current_proc s"

definition process_set_current :: "u64 \<Rightarrow> 'a process_state_scheme \<Rightarrow> 'a process_state_scheme" where
  "process_set_current proc s =
     (let s1 = s\<lparr>current_proc := proc\<rparr> in
      if proc \<noteq> 0 then percpu_set_kernel_stack (p_kernel_stack_top (procs s1 proc)) s1 else s1)"

partial_function (option) find_loop :: "u64 \<Rightarrow> u64 \<Rightarrow> 'a process_state_scheme \<Rightarrow> u64 option" where
  [code]: "find_loop pid proc s =
     (if proc = 0 then Some 0
      else if p_pid (procs s proc) = pid then Some proc
      else find_loop pid (p_next (procs s proc)) s)"

definition process_find :: "u64 \<Rightarrow> 'a process_state_scheme \<Rightarrow> u64 option" where
  "process_find pid s = find_loop pid (process_list s) s"

definition process_list_head :: "'a process_state_scheme \<Rightarrow> u64" where
  "process_list_head s = process_list s"

partial_function (option) reparent :: "u64 \<Rightarrow> 'a process_state_scheme \<Rightarrow> 'a process_state_scheme option" where
  [code]: "reparent proc s =
     (let child = p_children (procs s proc) in
      if child = 0 then Some s
      else let s1 = upd_proc proc (\<lambda>p. p\<lparr>p_children := p_sibling (procs s child)\<rparr>) s;
               init = init_process s1;
               s2 = upd_proc child (\<lambda>p. p\<lparr>p_parent := init\<rparr>) s1;
               s3 = link_child init child s2
           in reparent proc s3)"

definition wake_parent :: "u64 \<Rightarrow> 'a process_state_scheme \<Rightarrow> 'a process_state_scheme" where
  "wake_parent proc s =
     (let parent = p_parent (procs s proc); pp = procs s parent in
      if parent \<noteq> 0 \<and> p_state pp = PROC_SLEEPING \<and>
         (p_wait_pid pp = -1 \<or> p_wait_pid pp = sint (ucast (p_pid (procs s proc)) :: u32))
      then upd_proc parent (\<lambda>p. p\<lparr>p_state := PROC_RUNNABLE\<rparr>) s else s)"

text \<open>The flag says that the processor is halted for good.\<close>

definition process_exit :: "int \<Rightarrow> 'a process_state_scheme \<Rightarrow> (bool \<times> 'a process_state_scheme) option" where
  "process_exit status s =
     (let proc = current_proc s in
      if proc = 0 then Some (False, s)
      else let s1 = upd_proc proc (\<lambda>p. p\<lparr>p_exit_code := status\<rparr>) s in
        map_option (\<lambda>s2. (True, wake_parent proc (upd_proc proc (\<lambda>p. p\<lparr>p_state := PROC_ZOMBIE\<rparr>) s2)))
          (if init_process s1 \<noteq> 0 \<and> proc \<noteq> init_process s1 then reparent proc s1 else Some s1))"

definition segment_base :: "u64 \<Rightarrow> u64" where
  "segment_base a = (if canonical_addr a then a else 0)"

definition process_switch :: "u64 \<Rightarrow> 'a process_state_scheme \<Rightarrow> 'a process_state_scheme" where
  "process_switch nxt s =
     (let prev = current_proc s in
      if nxt = 0 \<or> nxt = prev then s
      else let p = procs s nxt;
               s1 = percpu_set_kernel_stack (p_kernel_stack_top p) (gdt_set_tss_rsp0 (p_kernel_stack_top p) s);
               s2 = (if prev = 0 \<or> p_pml4_phys p \<noteq> p_pml4_phys (procs s1 prev) then vmm_switch_address_space (p_pml4_phys p) s1 else s1);
               s3 = wrmsr MSR_KERNEL_GS_BASE (segment_base (p_gs_base p)) (wrmsr MSR_FS_BASE (segment_base (p_fs_base p)) s2)
           in s3\<lparr>current_proc := nxt\<rparr>)"

section \<open>File descriptors\<close>

fun first_free_fd :: "fd_entry list \<Rightarrow> nat \<Rightarrow> int" where
  "first_free_fd [] i = -1"
| "first_free_fd (e # es) i = (if fd_file e = 0 then int i else first_free_fd es (i + 1))"

definition process_fd_alloc :: "u64 \<Rightarrow> 'a process_state_scheme \<Rightarrow> int" where
  "process_fd_alloc proc s = first_free_fd (p_fd_table (procs s proc)) 0"

definition process_fd_free :: "u64 \<Rightarrow> int \<Rightarrow> 'a process_state_scheme \<Rightarrow> 'a process_state_scheme" where
  "process_fd_free proc fd s =
     (if 0 \<le> fd \<and> fd < int PROC_MAX_FDS
      then upd_proc proc (\<lambda>p. p\<lparr>p_fd_table := (p_fd_table p)[nat fd := \<lparr>fd_file = 0, fd_flags = 0\<rparr>]\<rparr>) s else s)"

end
