(* ===== verification/Interrupt.thy ===== *)
theory Interrupt
  imports Process
begin

text \<open>
  The local APIC timer, \<^verbatim>\<open>arch/x86/kernel/apic.c\<close>, page faults and the dispatch of interrupts,
  \<^verbatim>\<open>arch/x86/kernel/idt.c\<close>.

  A handler that ends in a context switch is modelled to the switch, like the scheduler it calls. An
  exception that the kernel does not resolve halts and has no result: \<^verbatim>\<open>log_panic\<close> does not return, so the code
  after the first of them is not reached. The faulting address, register \<^verbatim>\<open>cr2\<close>, is an argument. Waiting for the timer chip may not end and is a
  partial function.
\<close>

section \<open>The local APIC\<close>

definition PIT_CHANNEL0_DATA :: u16 where "PIT_CHANNEL0_DATA = 0x40"
definition PIT_COMMAND :: u16 where "PIT_COMMAND = 0x43"
definition PIT_FREQUENCY :: u32 where "PIT_FREQUENCY = 1193182"

partial_function (option) pit_wait :: "u32 \<Rightarrow> 'a io_state_scheme \<Rightarrow> 'a io_state_scheme option" where
  [code]: "pit_wait count s =
     (let s1 = outb PIT_COMMAND 0x00 s;
          (lo, s2) = inb PIT_CHANNEL0_DATA s1;
          (hi, s3) = inb PIT_CHANNEL0_DATA s2;
          current = ucast lo OR push_bit 8 (ucast hi) :: u16
      in if current = 0 \<or> ucast current > count then Some s3 else pit_wait count s3)"

definition pit_sleep_ms :: "u32 \<Rightarrow> 'a io_state_scheme \<Rightarrow> 'a io_state_scheme option" where
  "pit_sleep_ms ms s =
     (let c = (PIT_FREQUENCY * ms) div 1000;
          count = (if c > 65535 then 65535 else c);
          s1 = outb PIT_COMMAND 0x30 s;
          s2 = outb PIT_CHANNEL0_DATA (ucast (count AND 0xFF)) s1;
          s3 = outb PIT_CHANNEL0_DATA (ucast (drop_bit 8 count AND 0xFF)) s2
      in pit_wait count s3)"

definition calibrate_timer :: "'a apic_state_scheme \<Rightarrow> (u32 \<times> 'a apic_state_scheme) option" where
  "calibrate_timer s =
     (let s1 = lapic_write LAPIC_TIMER_DCR LAPIC_TIMER_DIV_16 s;
          s2 = lapic_write LAPIC_LVT_TIMER LAPIC_TIMER_MASKED s1;
          s3 = lapic_write LAPIC_TIMER_ICR 0xFFFFFFFF s2
      in map_option (\<lambda>s4.
           let (ccr, s5) = lapic_read LAPIC_TIMER_CCR s4;
               elapsed = 0xFFFFFFFF - ccr;
               s6 = lapic_write LAPIC_TIMER_ICR 0 s5
           in ((elapsed * 100) div TIMER_FREQUENCY_HZ, s6)) (pit_sleep_ms 10 s3))"

definition disable_pic :: "'a io_state_scheme \<Rightarrow> 'a io_state_scheme" where
  "disable_pic s =
     fold (\<lambda>(port, v). outb port v)
       [(0x20, 0x11), (0xA0, 0x11), (0x21, 0x20), (0xA1, 0x28), (0x21, 0x04), (0xA1, 0x02),
        (0x21, 0x01), (0xA1, 0x01), (0x21, 0xFF), (0xA1, 0xFF)] s"

definition apic_init :: "'a acpi_state_scheme \<Rightarrow> 'a acpi_state_scheme option" where
  "apic_init s =
     (let lapic_phys = local_apic_address (acpi_get_info s);
          lapic_virt = 0xFFFFFFFD00000000;
          (result, s1) = vmm_map_page (vmm_get_kernel_pml4 s) lapic_virt lapic_phys (PTE_PRESENT OR PTE_WRITABLE OR PTE_NOCACHE) s
      in if result \<noteq> 0 then Some s1
      else let s2 = disable_pic (s1\<lparr>lapic_base := lapic_virt\<rparr>);
               s3 = lapic_write LAPIC_SVR (LAPIC_SVR_ENABLE OR IRQ_SPURIOUS) s2;
               s4 = lapic_write LAPIC_ESR 0 (lapic_write LAPIC_ESR 0 s3)
      in map_option (\<lambda>(count, s5).
           let s6 = s5\<lparr>timer_initial_count := count\<rparr> in
           if count = 0 then s6
           else let s7 = idt_register_irq (uint IRQ_TIMER) timer_irq s6;
                    s8 = lapic_write LAPIC_TIMER_DCR LAPIC_TIMER_DIV_16 s7;
                    s9 = lapic_write LAPIC_LVT_TIMER (IRQ_TIMER OR LAPIC_TIMER_PERIODIC) s8;
                    s10 = lapic_write LAPIC_TIMER_ICR count s9
                in s10\<lparr>tick_count := 0\<rparr>) (calibrate_timer s4))"

text \<open>The kernel is configured as preemptive: the timer ends in the scheduler.\<close>

definition apic_timer_handler :: "'a console_state_scheme \<Rightarrow> (sched_outcome \<times> 'a console_state_scheme) option" where
  "apic_timer_handler s =
     (let s1 = s\<lparr>tick_count := tick_count s + 1\<rparr>;
          s2 = apic_eoi (console_update_cursor (tick_count s1) s1)
      in if kthread_current s2 = None then Some (Returned, s2)
         else Option.bind (kthread_wake_sleepers s2) kthread_schedule)"

section \<open>Page faults\<close>

record interrupt_frame =
  if_r15 :: u64
  if_r14 :: u64
  if_r13 :: u64
  if_r12 :: u64
  if_r11 :: u64
  if_r10 :: u64
  if_r9 :: u64
  if_r8 :: u64
  if_rbp :: u64
  if_rdi :: u64
  if_rsi :: u64
  if_rdx :: u64
  if_rcx :: u64
  if_rbx :: u64
  if_rax :: u64
  if_int_no :: u64
  if_error_code :: u64
  if_rip :: u64
  if_cs :: u64
  if_rflags :: u64
  if_rsp :: u64
  if_ss :: u64

definition PF_PRESENT :: u64 where "PF_PRESENT = 1"
definition PF_WRITE :: u64 where "PF_WRITE = 2"
definition PF_USER :: u64 where "PF_USER = 4"

definition idt_memcpy :: "u64 \<Rightarrow> u64 \<Rightarrow> u64 \<Rightarrow> 'a pmm_state_scheme \<Rightarrow> 'a pmm_state_scheme" where
  "idt_memcpy dst src n s = s\<lparr>mem := memcpy (mem s) dst src n\<rparr>"

definition handle_cow_fault :: "u64 \<Rightarrow> u64 \<Rightarrow> 'a page_state_scheme \<Rightarrow> int \<times> 'a page_state_scheme" where
  "handle_cow_fault fault_addr pml4 s =
     (let page_addr = fault_addr AND NOT 0xFFF;
          pte_flags = vmm_get_pte_flags pml4 page_addr s;
          phys_addr = vmm_get_physical pml4 page_addr s
      in if pte_flags AND PTE_COW = 0 then (-1, s)
      else let new_flags = (pte_flags AND NOT PTE_COW) OR PTE_WRITABLE
      in if page_get_refcount phys_addr s = 1
      then (0, snd (vmm_set_pte_flags pml4 page_addr new_flags s))
      else let (new_phys, s1) = pmm_alloc s
      in if new_phys = PMM_ALLOC_FAILED then (-1, s1)
      else let s2 = idt_memcpy new_phys phys_addr PAGE_SIZE s1;
               s3 = snd (vmm_unmap_page pml4 page_addr s2);
               s4 = snd (vmm_map_page pml4 page_addr new_phys new_flags s3);
               s5 = page_set_refcount new_phys 1 s4
           in (0, page_unref phys_addr s5))"

definition handle_page_fault :: "u64 \<Rightarrow> interrupt_frame \<Rightarrow> 'a process_state_scheme \<Rightarrow> 'a process_state_scheme option" where
  "handle_page_fault cr2 frame s =
     (let error = if_error_code frame; proc = process_current s; bits = PF_WRITE OR PF_PRESENT OR PF_USER in
      if error AND bits = bits \<and> proc \<noteq> 0
      then let (result, s1) = handle_cow_fault cr2 (p_pml4_phys (procs s proc)) s in if result = 0 then Some s1 else None
      else None)"

definition is_valid_kernel_addr :: "u64 \<Rightarrow> bool" where
  "is_valid_kernel_addr addr \<longleftrightarrow> addr \<ge> 0xFFFF800000000000 \<and> addr AND 0x7 = 0"

text \<open>The return addresses that \<^verbatim>\<open>backtrace\<close> prints; \<open>m\<close> is the memory of the stack. The flag tells a walk that meets an invalid frame pointer.\<close>

fun backtrace_walk :: "nat \<Rightarrow> bytes \<Rightarrow> u64 \<Rightarrow> u64 list \<times> bool" where
  "backtrace_walk 0 m fp = ([], False)"
| "backtrace_walk (Suc n) m fp =
     (if fp = 0 then ([], False)
      else if \<not> is_valid_kernel_addr fp then ([], True)
      else let ret_addr = load64 m (fp + 8);
               (rest, bad) = backtrace_walk n m (load64 m fp)
           in ((ret_addr - 1) # rest, bad))"

definition backtrace :: "bytes \<Rightarrow> u64 \<Rightarrow> u64 \<Rightarrow> u64 list \<times> bool" where
  "backtrace m ip fp = (let (rest, bad) = backtrace_walk 9 m fp in (ip # rest, bad))"

section \<open>Dispatch\<close>

definition run_irq_handler :: "irq_handler \<Rightarrow> 'a process_state_scheme \<Rightarrow> (sched_outcome \<times> 'a process_state_scheme) option" where
  "run_irq_handler h s =
     (case h of
        timer_irq \<Rightarrow> apic_timer_handler s
      | keyboard_irq \<Rightarrow> Some (Returned, keyboard_irq_handler s)
      | serial_irq \<Rightarrow> map_option (\<lambda>s1. (Returned, s1)) (serial_irq_handler s))"

definition interrupt_handler ::
  "u64 \<Rightarrow> interrupt_frame \<Rightarrow> 'a process_state_scheme \<Rightarrow> (sched_outcome \<times> 'a process_state_scheme) option" where
  "interrupt_handler cr2 frame s =
     (let int_no = if_int_no frame in
      if int_no < 32
      then if int_no = 14 then map_option (\<lambda>s1. (Returned, s1)) (handle_page_fault cr2 frame s) else None
      else if int_no = 255 then Some (Returned, s)
      else case irq_handlers s ! unat int_no of
             Some h \<Rightarrow> run_irq_handler h s
           | None \<Rightarrow> Some (Returned, apic_eoi s))"

end
