(* ===== verification/Cow.thy ===== *)
theory Cow
  imports Interrupt
begin

text \<open>
  What a write to a copy-on-write page does, from \<^verbatim>\<open>vmm_copy_address_space_cow\<close> to \<^verbatim>\<open>handle_cow_fault\<close>: the faulting
  page becomes writable and no other translation changes; a page with another owner is copied first and the owner keeps
  the original.
\<close>

section \<open>Pages as ranges of bytes\<close>

lemma page_offset:
  assumes "page_addr a" "x - a < PAGE_SIZE"
  shows "unat x = unat a + unat (x - a)"
proof -
  have "unat a + unat (x - a) < 2 ^ 64"
    by (rule page_addr_room[OF assms(1)]) (use assms(2) in \<open>simp add: word_less_nat_alt PAGE_SIZE_def\<close>)
  then show ?thesis using unat_plus_offset[of a "unat (x - a)"] by simp
qed

lemma pages_apart:
  assumes "page_addr a" "page_addr b" "a \<noteq> b" "x - a < PAGE_SIZE"
  shows "\<not> x - b < PAGE_SIZE"
proof
  assume b: "x - b < PAGE_SIZE"
  have "unat (x - a) < 4096" "unat (x - b) < 4096" using assms(4) b by (simp_all add: word_less_nat_alt PAGE_SIZE_def)
  moreover have "unat a + unat (x - a) = unat b + unat (x - b)"
    using page_offset[OF assms(1,4)] page_offset[OF assms(2) b] by simp
  ultimately have "unat a = unat b" using assms(1,2) by (auto elim!: dvdE)
  then show False using assms(3) by (simp add: word_unat_eq_iff)
qed

lemma memcpy_page:
  assumes "page_addr d" "page_addr p"
  shows "memcpy m d p PAGE_SIZE x = (if x - d < PAGE_SIZE then m (p + (x - d)) else m x)"
proof (cases "d = p")
  case True
  have "fold (\<lambda>i m. m(d + of_nat i := m (d + of_nat i))) xs m = m" for xs :: "nat list"
    by (induction xs) simp_all
  then show ?thesis using True by (simp add: memcpy_def)
next
  case False
  have "ranges_apart d p PAGE_SIZE"
    using pages_apart[of d p d] pages_apart[of p d p] assms False
    by (auto simp: ranges_apart_def PAGE_SIZE_def not_less)
  then show ?thesis by (rule memcpy_apply)
qed

lemma entry_in_page: "i < 512 \<Longrightarrow> k < 8 \<Longrightarrow> 8 * i + of_nat k < PAGE_SIZE"
  using entry_offset[of 0 i k] by (simp add: word_less_nat_alt PAGE_SIZE_def)

lemma set_entry_mem:
  assumes "page_addr t" "i < 512" "\<not> x - t < PAGE_SIZE"
  shows "mem (set_entry t i v s) x = mem s x"
proof -
  have "x \<noteq> t + 8 * i + of_nat k" if k: "k < 8" for k
  proof
    assume x: "x = t + 8 * i + of_nat k"
    then have "x - t = 8 * i + of_nat k" by simp
    then show False using entry_in_page[OF assms(2) k] assms(3) by simp
  qed
  then show ?thesis by (simp add: set_entry_def store64_def store_le_other)
qed

section \<open>The tables of one address\<close>

definition walk_tables :: "(u64 \<Rightarrow> u64 \<Rightarrow> u64) \<Rightarrow> u64 \<Rightarrow> u64 \<Rightarrow> u64 set" where
  "walk_tables T r va = {t. \<exists>n \<le> 3. walk T r (take n (vpath va)) = Some t}"

text \<open>The state \<open>s'\<close> differs from \<open>s\<close> in the memory of the pages \<open>A\<close> only.\<close>

definition touches :: "u64 set \<Rightarrow> 'a pmm_state_scheme \<Rightarrow> 'a pmm_state_scheme \<Rightarrow> bool" where
  "touches A s s' \<longleftrightarrow> s' = s\<lparr>mem := mem s'\<rparr> \<and> (\<forall>x. (\<forall>t \<in> A. \<not> x - t < PAGE_SIZE) \<longrightarrow> mem s' x = mem s x)"

lemma touches_refl [simp]: "touches A s s"
  by (simp add: touches_def)

lemma touches_trans: "touches A s s1 \<Longrightarrow> touches A s1 s2 \<Longrightarrow> touches A s s2"
  unfolding touches_def by (metis pmm_state.update_convs(1) pmm_state.surjective pmm_state.select_convs(1))

lemma touches_mono: "touches A s s' \<Longrightarrow> A \<subseteq> B \<Longrightarrow> touches B s s'"
  unfolding touches_def by (meson subsetD)

lemma touches_set_entry: "page_addr t \<Longrightarrow> i < 512 \<Longrightarrow> t \<in> A \<Longrightarrow> touches A s (set_entry t i v s)"
  by (simp add: touches_def set_entry_mem) (simp add: set_entry_def)

lemma touches_view:
  assumes "touches A s s'"
  shows "avail_pages s' = avail_pages s" "owned_pages s' = owned_pages s" "pmm_inv s' = pmm_inv s" "total_pages s' = total_pages s"
proof -
  have e: "s' = s\<lparr>mem := mem s'\<rparr>" using assms unfolding touches_def by blast
  show "avail_pages s' = avail_pages s" "owned_pages s' = owned_pages s" "pmm_inv s' = pmm_inv s" "total_pages s' = total_pages s"
    by (subst e; simp)+
qed

lemma next_table_present:
  assumes "page_addr t" "i < 512" "walk (tabs s) t [i] = Some u" "t \<in> A"
  shows "\<exists>s'. next_table t i flags s = (Some (u, 0), s') \<and> touches A s s' \<and> (\<forall>r q. walk (tabs s') r q = walk (tabs s) r q)"
proof -
  let ?e = "tabs s t i"
  have e: "present ?e" "?e AND PTE_ADDR_MASK = u" "get_entry s t i = ?e"
    using assms(1-3) by (auto simp: get_entry_tabs split: if_splits)
  have v: "present (?e OR PTE_USER) = present ?e" "(?e OR PTE_USER) AND PTE_ADDR_MASK = ?e AND PTE_ADDR_MASK"
    using e(1) by (simp_all add: bit.conj_disj_distrib2)
  show ?thesis
    using e walk_relabel[of "?e OR PTE_USER" "tabs s" t i, OF v] touches_set_entry[OF assms(1,2,4)]
    by (auto simp: next_table_def Let_def tabs_set_entry[OF assms(1,2)])
qed

lemma vmm_map_page_present:
  assumes r: "page_addr r" and w: "walk (tabs s) r (vpath va) = Some pt"
  shows "\<exists>s'. vmm_map_page r va phys flags s = (0, s') \<and> touches (walk_tables (tabs s) r va) s s'"
proof -
  let ?A = "walk_tables (tabs s) r va"
  obtain pdpt pd where w1: "walk (tabs s) r [PML4_INDEX va] = Some pdpt"
    and w2: "walk (tabs s) pdpt [PDPT_INDEX va] = Some pd" and w3: "walk (tabs s) pd [PD_INDEX va] = Some pt"
    using w by (auto simp: vpath_def split: if_splits)
  have in_A: "r \<in> ?A" "pdpt \<in> ?A" "pd \<in> ?A" "pt \<in> ?A"
    using w w1 w2
    by (auto simp: walk_tables_def vpath_def split: if_splits
        intro: exI[of _ 0] exI[of _ 1] exI[of _ 2] exI[of _ 3])
  have pa: "page_addr pdpt" "page_addr pd" "page_addr pt"
    using walk_page_addr[OF w1 r] walk_page_addr[OF w2] walk_page_addr[OF w3] by blast+
  obtain s1 where s1: "next_table r (PML4_INDEX va) flags s = (Some (pdpt, 0), s1)" "touches ?A s s1"
    "\<forall>r q. walk (tabs s1) r q = walk (tabs s) r q"
    using next_table_present[OF r _ w1 in_A(1), of flags] by auto
  obtain s2 where s2: "next_table pdpt (PDPT_INDEX va) flags s1 = (Some (pd, 0), s2)" "touches ?A s1 s2"
    "\<forall>r q. walk (tabs s2) r q = walk (tabs s) r q"
    using next_table_present[OF pa(1) index_small(2) w2[folded s1(3)[rule_format]] in_A(2), of flags] s1(3) by metis
  obtain s3 where s3: "next_table pd (PD_INDEX va) flags s2 = (Some (pt, 0), s3)" "touches ?A s2 s3"
    using next_table_present[OF pa(2) index_small(3) w3[folded s2(3)[rule_format]] in_A(3), of flags] by metis
  have "touches ?A s (set_entry pt (PT_INDEX va) v s3)" for v
    using touches_trans[OF touches_trans[OF touches_trans[OF s1(2) s2(2)] s3(2)] touches_set_entry[OF pa(3) index_small(4) in_A(4)]] .
  then show ?thesis using s1(1) s2(1) s3(1) by (simp add: vmm_map_page_def Let_def)
qed

text \<open>Filling a page that the allocator had changes no translation.\<close>

lemma fresh_page_view:
  assumes inv: "vm_inv D s" and a: "a \<in> avail_pages s" and T: "tabs s' = (tabs s)(a := f)"
    and s': "avail_pages s' = avail_pages s - {a}" "pmm_inv s'" "total_pages s' = total_pages s"
  shows "vm_inv D s' \<and> same_view D (tabs s) (tabs s')" "on_path D r q \<Longrightarrow> walk (tabs s') r q = walk (tabs s) r q"
proof -
  have wf: "pt_wf D (avail_pages s) (tabs s)" and tp: "total_pages s \<le> 2 ^ 40" using inv by (auto simp: vm_inv_def)
  show w: "on_path D r q \<Longrightarrow> walk (tabs s') r q = walk (tabs s) r q" for r q
    unfolding T by (rule walk_other_page[OF wf a])
  have "pt_wf D (avail_pages s) (tabs s')" using wf w unfolding pt_wf_def by metis
  then have "pt_wf D (avail_pages s - {a}) (tabs s')" unfolding pt_wf_def by blast
  moreover have "pte (tabs s') r' ix = pte (tabs s) r' ix" if l: "on_leaf D r' ix" for r' ix
  proof (cases "walk (tabs s) r' (butlast ix)")
    case (Some t)
    then have "t \<noteq> a" using pt_wfD(2)[OF wf conjunct1[OF on_leaf_path[OF l]] Some] a by blast
    then show ?thesis using w[OF conjunct1[OF on_leaf_path[OF l]]] Some by (simp add: pte_def T)
  qed (use w[OF conjunct1[OF on_leaf_path[OF l]]] in \<open>simp add: pte_def\<close>)
  ultimately show "vm_inv D s' \<and> same_view D (tabs s) (tabs s')" using s' tp by (simp add: vm_inv_def same_view_def)
qed

lemma tabs_memcpy_page:
  assumes "page_addr d" "page_addr p"
  shows "tabs (idt_memcpy d p PAGE_SIZE s) = (tabs s)(d := tabs (idt_memcpy d p PAGE_SIZE s) d)"
proof (intro ext)
  fix t i
  show "tabs (idt_memcpy d p PAGE_SIZE s) t i = ((tabs s)(d := tabs (idt_memcpy d p PAGE_SIZE s) d)) t i"
  proof (cases "page_addr t \<and> i < 512 \<and> t \<noteq> d")
    case True
    have eq: "mem (idt_memcpy d p PAGE_SIZE s) x = mem s x" if "\<not> x - d < PAGE_SIZE" for x
      using that by (simp add: idt_memcpy_def memcpy_page[OF assms])
    have "\<not> t + 8 * i + of_nat k - d < PAGE_SIZE" if k: "k < 8" for k
    proof -
      have "t + 8 * i + of_nat k - t = 8 * i + of_nat k" by simp
      then have "t + 8 * i + of_nat k - t < PAGE_SIZE" using entry_in_page[of i k] k True by (simp only: simp_thms)
      then show ?thesis using pages_apart[of t d] True assms(1) by blast
    qed
    then have "get_entry (idt_memcpy d p PAGE_SIZE s) t i = get_entry s t i"
      unfolding get_entry_def load64_def by (intro load_le_cong eq)
    then show ?thesis using True by (simp add: tabs_def)
  next
    case False
    then show ?thesis by (cases "t = d") (simp, simp add: tabs_def, blast)
  qed
qed

lemma on_path_take: "on_path D r p \<Longrightarrow> on_path D r (take n p)"
  by (cases p; cases n) (auto simp: on_path_def image_iff dest: in_set_takeD intro: bexI[of _ "(r, hd p)"])

lemma walk_tables_cong:
  assumes "(r, PML4_INDEX va) \<in> D" "\<And>q. on_path D r q \<Longrightarrow> walk T' r q = walk T r q"
  shows "walk_tables T' r va = walk_tables T r va"
  using assms(2)[OF on_path_take[OF on_path_vpath[OF assms(1)]]] by (simp add: walk_tables_def)

text \<open>Unmapping a page and mapping another in its place, when the tables are there.\<close>

lemma remap_page:
  assumes inv: "vm_inv D s" and va: "(r, PML4_INDEX va) \<in> D" and w: "walk (tabs s) r (vpath va) = Some pt"
  shows "\<exists>s'. snd (vmm_map_page r va phys flags (snd (vmm_unmap_page r va s))) = s' \<and> vm_inv D s'
    \<and> touches (walk_tables (tabs s) r va) s s'
    \<and> (\<forall>r' ix. on_leaf D r' ix \<longrightarrow> pte (tabs s') r' ix
        = (if r' = r \<and> ix = vidx va then (phys AND PTE_ADDR_MASK) OR flags else pte (tabs s) r' ix))"
proof -
  let ?A = "walk_tables (tabs s) r va"
  have ra: "page_addr r" by (rule vm_inv_root[OF inv va])
  have wf: "pt_wf D (avail_pages s) (tabs s)" using inv by (simp add: vm_inv_def)
  have pt: "page_addr pt" by (rule walk_page_addr[OF w ra])
  have ptA: "pt \<in> ?A" using w by (auto simp: walk_tables_def vpath_def intro!: exI[of _ 3])
  define s1 where "s1 = snd (vmm_unmap_page r va s)"
  have s1: "s1 = s \<or> s1 = set_entry pt (PT_INDEX va) 0 s" using vmm_unmap_page_cases[OF ra, of va s] w by (auto simp: s1_def)
  have walk1: "walk (tabs s1) r q = walk (tabs s) r q" if q: "on_path D r q" for q
  proof -
    have "\<not> (\<exists>q'. q = vpath va @ [PT_INDEX va] @ q')" using q by (auto simp: on_path_def vpath_def)
    then have "walk ((tabs s)(pt := (tabs s pt)(PT_INDEX va := 0))) r q = walk (tabs s) r q"
      by (intro walk_update[OF wf on_path_vpath[OF va] w q]) simp
    then show ?thesis using s1 by (auto simp: tabs_set_entry[OF pt])
  qed
  have one: "vm_inv D s1" "touches ?A s s1"
    "\<And>r' ix. on_leaf D r' ix \<Longrightarrow> \<not> (r' = r \<and> ix = vidx va) \<Longrightarrow> pte (tabs s1) r' ix = pte (tabs s) r' ix"
    using s1 set_leaf_spec[OF inv va w, of 0] inv touches_set_entry[OF pt index_small(4) ptA] by auto
  have w1: "walk (tabs s1) r (vpath va) = Some pt" using walk1[OF on_path_vpath[OF va]] w by simp
  obtain s' where s': "vmm_map_page r va phys flags s1 = (0, s')" "touches ?A s1 s'"
    using vmm_map_page_present[OF ra w1, of phys flags] walk_tables_cong[OF va walk1] by auto
  have "vm_inv D s'" "\<forall>r' ix. on_leaf D r' ix \<longrightarrow> pte (tabs s') r' ix
        = (if r' = r \<and> ix = vidx va then (phys AND PTE_ADDR_MASK) OR flags else pte (tabs s1) r' ix)"
    using vmm_map_page_spec[OF one(1) va s'(1)] by auto
  then show ?thesis using s' one(3) touches_trans[OF one(2) s'(2)] by (auto simp: s1_def)
qed

section \<open>The fault\<close>

lemma vidx_page [simp]: "vidx (va AND - 4096) = vidx va"
proof -
  have "(va AND - 4096) AND 0xFFFFFFFFF000 = va AND 0xFFFFFFFFF000" for va :: u64 by (simp add: and.assoc)
  then show ?thesis using same_vpage_iff[of "va AND - 4096" va] by (simp add: same_vpage_def)
qed

lemma vpath_page [simp]: "vpath (va AND - 4096) = vpath va" "PML4_INDEX (va AND - 4096) = PML4_INDEX va"
  "PT_INDEX (va AND - 4096) = PT_INDEX va"
  using vidx_page[of va] by (simp_all add: vidx_def vpath_def)

lemma fault_page:
  assumes "page_addr r"
  shows "vmm_get_pte_flags r (va AND - 4096) s = vmm_get_pte_flags r va s"
    "vmm_get_physical r (va AND - 4096) s = vmm_get_physical r va s"
  using assms by (simp_all add: vmm_get_pte_flags_pte vmm_get_physical_pte)

text \<open>The flags that the handler gives the page.\<close>

definition cow_break :: "u64 \<Rightarrow> u64" where
  "cow_break flags = (flags AND NOT PTE_COW) OR PTE_WRITABLE"

lemma handle_cow_fault_eq:
  assumes "page_addr r" "vmm_get_pte_flags r va s = flags" "vmm_get_physical r va s = phys"
  shows "handle_cow_fault va r s =
     (if flags AND PTE_COW = 0 then (-1, s)
      else if page_get_refcount phys s = 1 then (0, snd (vmm_set_pte_flags r (va AND - 4096) (cow_break flags) s))
      else let (new_phys, s1) = pmm_alloc s in if new_phys = 0 then (-1, s1)
      else let s2 = idt_memcpy new_phys phys PAGE_SIZE s1; s3 = snd (vmm_unmap_page r (va AND - 4096) s2);
               s4 = snd (vmm_map_page r (va AND - 4096) new_phys (cow_break flags) s3)
           in (0, page_unref phys (page_set_refcount new_phys 1 s4)))"
  using assms
  by (simp add: handle_cow_fault_def fault_page cow_break_def Let_def PMM_ALLOC_FAILED_def split: prod.split cong: if_cong)

lemma cow_break_flags:
  assumes "present e" "flags = e AND NOT PTE_ADDR_MASK"
  shows "cow_break flags AND PTE_PRESENT \<noteq> 0" "cow_break flags AND PTE_ADDR_MASK = 0"
proof -
  have "NOT PTE_COW AND PTE_PRESENT = PTE_PRESENT" "NOT PTE_ADDR_MASK AND PTE_PRESENT = PTE_PRESENT" "PTE_WRITABLE AND PTE_PRESENT = 0"
    by (simp_all add: PTE_COW_def PTE_PRESENT_def PTE_ADDR_MASK_def PTE_WRITABLE_def)
  then show "cow_break flags AND PTE_PRESENT \<noteq> 0"
    using assms by (simp add: cow_break_def bit.conj_disj_distrib2 and.assoc present_def)
  have "NOT PTE_ADDR_MASK AND (NOT PTE_COW AND PTE_ADDR_MASK) = 0"
    by (simp add: PTE_COW_def PTE_ADDR_MASK_def)
  then show "cow_break flags AND PTE_ADDR_MASK = 0"
    by (simp add: cow_break_def bit.conj_disj_distrib2 and.assoc assms(2))
qed

lemma cow_page_walk:
  assumes "page_addr r" "vmm_get_pte_flags r va s AND PTE_COW \<noteq> 0"
  obtains pt e where "walk (tabs s) r (vpath va) = Some pt" "e = pte (tabs s) r (vidx va)" "present e"
    "vmm_get_pte_flags r va s = e AND NOT PTE_ADDR_MASK" "vmm_get_physical r va s = e AND PTE_ADDR_MASK"
proof -
  let ?e = "pte (tabs s) r (vidx va)"
  have e: "present ?e" using assms by (auto simp: vmm_get_pte_flags_pte Let_def split: if_splits)
  then obtain pt where "walk (tabs s) r (vpath va) = Some pt" by (auto simp: pte_def vidx_def split: option.splits)
  then show thesis using that e assms(1) by (simp add: vmm_get_pte_flags_pte vmm_get_physical_pte Let_def)
qed

text \<open>Sole owner: the entry is made writable in place.\<close>

lemma cow_reuse:
  assumes inv: "vm_inv D s" and va: "(r, PML4_INDEX va) \<in> D" and c: "vmm_get_pte_flags r va s AND PTE_COW \<noteq> 0"
    and one: "page_get_refcount (vmm_get_physical r va s) s = 1"
  shows "\<exists>s'. handle_cow_fault va r s = (0, s') \<and> vm_inv D s' \<and> avail_pages s' = avail_pages s
    \<and> (\<forall>r' ix. on_leaf D r' ix \<longrightarrow> pte (tabs s') r' ix = (if r' = r \<and> ix = vidx va
        then (vmm_get_physical r va s AND PTE_ADDR_MASK) OR cow_break (vmm_get_pte_flags r va s) else pte (tabs s) r' ix))"
proof -
  have ra: "page_addr r" by (rule vm_inv_root[OF inv va])
  obtain pt e where w: "walk (tabs s) r (vpath va) = Some pt" "e = pte (tabs s) r (vidx va)" "present e"
    "vmm_get_pte_flags r va s = e AND NOT PTE_ADDR_MASK" "vmm_get_physical r va s = e AND PTE_ADDR_MASK"
    using cow_page_walk[OF ra c] by blast
  let ?v = "(e AND PTE_ADDR_MASK) OR cow_break (vmm_get_pte_flags r va s)"
  have "handle_cow_fault va r s = (0, set_entry pt (PT_INDEX va) ?v s)"
    using vmm_set_pte_flags_cases[OF ra, of s "va AND - 4096" "cow_break (vmm_get_pte_flags r va s)"] w c one
    by (simp add: handle_cow_fault_eq[OF ra w(4,5)])
  then show ?thesis using set_leaf_spec[OF inv va w(1), of ?v] w(5) by (simp add: and.assoc)
qed

text \<open>Another owner: the page is copied to a fresh frame.\<close>

lemma cow_copy:
  assumes inv: "vm_inv D s" and va: "(r, PML4_INDEX va) \<in> D" and c: "vmm_get_pte_flags r va s AND PTE_COW \<noteq> 0"
    and phys: "vmm_get_physical r va s = phys" and many: "page_get_refcount phys s \<noteq> 1" and ne: "avail_pages s \<noteq> {}"
  shows "\<exists>new s4. handle_cow_fault va r s = (0, page_unref phys (page_set_refcount new 1 s4))
    \<and> new \<in> avail_pages s \<and> new = fst (pmm_alloc s) \<and> vm_inv D s4 \<and> avail_pages s4 = avail_pages s - {new}
    \<and> (\<forall>r' ix. on_leaf D r' ix \<longrightarrow> pte (tabs s4) r' ix = (if r' = r \<and> ix = vidx va
        then (new AND PTE_ADDR_MASK) OR cow_break (vmm_get_pte_flags r va s) else pte (tabs s) r' ix))
    \<and> touches (walk_tables (tabs s) r va) (idt_memcpy new phys PAGE_SIZE (snd (pmm_alloc s))) s4"
proof -
  have ra: "page_addr r" by (rule vm_inv_root[OF inv va])
  have pi: "pmm_inv s" using inv by (simp add: vm_inv_def)
  obtain pt e where w: "walk (tabs s) r (vpath va) = Some pt" "e = pte (tabs s) r (vidx va)" "present e"
    "vmm_get_pte_flags r va s = e AND NOT PTE_ADDR_MASK" "phys = e AND PTE_ADDR_MASK"
    using cow_page_walk[OF ra c] phys by metis
  let ?f = "cow_break (vmm_get_pte_flags r va s)" and ?pv = "va AND - 4096" and ?A = "walk_tables (tabs s) r va"
  obtain new s1 where al: "pmm_alloc s = (new, s1)" by fastforce
  have nw: "new \<in> avail_pages s" "avail_pages s1 = avail_pages s - {new}" "pmm_inv s1" "total_pages s1 = total_pages s"
    "page_addr new" "new \<noteq> 0" "tabs s1 = tabs s"
    using pmm.alloc_takes[OF pi ne] pmm.alloc_inv[OF pi] al pmm.avail_page[OF pi, of new] pmm_alloc_frame(3)[of s] tabs_pmm(1)[of s] by auto
  define s2 where "s2 = idt_memcpy new phys PAGE_SIZE s1"
  have s2v: "avail_pages s2 = avail_pages s - {new}" "pmm_inv s2" "total_pages s2 = total_pages s"
    using nw by (simp_all add: s2_def idt_memcpy_def)
  have T2: "tabs s2 = (tabs s)(new := tabs s2 new)"
    using tabs_memcpy_page[OF nw(5), of phys s1] w(5) nw(7) by (simp add: s2_def)
  note fv = fresh_page_view[OF inv nw(1) T2 s2v]
  have pva: "(r, PML4_INDEX ?pv) \<in> D" using va by simp
  have w2: "walk (tabs s2) r (vpath ?pv) = Some pt" using fv(2)[OF on_path_vpath[OF va]] w(1) by simp
  obtain s4 where s4: "snd (vmm_map_page r ?pv new ?f (snd (vmm_unmap_page r ?pv s2))) = s4" "vm_inv D s4"
    "touches (walk_tables (tabs s2) r ?pv) s2 s4"
    "\<forall>r' ix. on_leaf D r' ix \<longrightarrow> pte (tabs s4) r' ix
        = (if r' = r \<and> ix = vidx ?pv then (new AND PTE_ADDR_MASK) OR ?f else pte (tabs s2) r' ix)"
    using remap_page[OF conjunct1[OF fv(1)] pva w2, of new ?f] by blast
  have A: "walk_tables (tabs s2) r ?pv = ?A"
    using walk_tables_cong[OF va fv(2)] by (simp add: walk_tables_def)
  have "handle_cow_fault va r s = (0, page_unref phys (page_set_refcount new 1 s4))"
    using c many al nw(6) s4(1) by (simp add: handle_cow_fault_eq[OF ra refl phys] s2_def Let_def)
  then show ?thesis using s4 A nw(1) al touches_view(1)[OF s4(3)] s2v(1) fv(1)
    by (intro exI[of _ new] exI[of _ s4]) (auto simp: s2_def same_view_def)
qed

lemma page_counts_mem [simp]:
  "page_get_refcount a (s\<lparr>mem := m\<rparr>) = page_get_refcount a s" "page_tracked a (s\<lparr>mem := m\<rparr>) = page_tracked a s"
  "page_get_refcount a (snd (pmm_alloc s)) = page_get_refcount a s" "page_tracked a (snd (pmm_alloc s)) = page_tracked a s"
  by (simp_all add: page_get_refcount_def page_tracked_def Let_def frame_simps split: option.split)

lemma page_set_refcount_view [simp]:
  "avail_pages (page_set_refcount a c s) = avail_pages s" "pmm_inv (page_set_refcount a c s) = pmm_inv s"
  "total_pages (page_set_refcount a c s) = total_pages s" "mem (page_set_refcount a c s) = mem s"
  by (simp_all add: page_set_refcount_def Let_def avail_pages_def pmm_inv_def free_frames_def split: option.splits)

lemma page_counts_touches:
  assumes "touches A (s :: 'a page_state_scheme) s'"
  shows "page_get_refcount a s' = page_get_refcount a s" "page_tracked a s' = page_tracked a s"
proof -
  have e: "s' = s\<lparr>mem := mem s'\<rparr>" using assms unfolding touches_def by blast
  show "page_get_refcount a s' = page_get_refcount a s" by (subst e) simp
  show "page_tracked a s' = page_tracked a s" by (subst e) simp
qed

lemma page_number_inj:
  assumes "page_addr a" "page_addr b" "a div PAGE_SIZE = b div PAGE_SIZE"
  shows "a = b"
  using arg_cong[OF assms(3), of unat] assms(1,2) by (auto simp: unat_div PAGE_SIZE_def word_unat_eq_iff elim!: dvdE)

text \<open>What the handler does to the counters: one for the copy, one owner less for the original.\<close>

lemma cow_counts:
  assumes a: "page_addr new" "page_addr phys" "new \<noteq> phys" and many: "page_get_refcount phys s \<noteq> 1"
    and s': "s' = page_unref phys (page_set_refcount new 1 s)"
  shows "page_tracked new s \<Longrightarrow> page_get_refcount new s' = 1"
    and "page_get_refcount phys s' = (if page_get_refcount phys s \<in> {0, 255} then page_get_refcount phys s else page_get_refcount phys s - 1)"
    and "mem s' = mem s" "avail_pages s' = avail_pages s" "tabs s' = tabs s" "vm_inv D s' = vm_inv D s"
proof -
  let ?r = "page_get_refcount phys s"
  have ne: "new div PAGE_SIZE \<noteq> phys div PAGE_SIZE" using page_number_inj[OF a(1,2)] a(3) by blast
  have r: "page_get_refcount phys (page_set_refcount new 1 s) = ?r" using ne by (simp add: page_get_set_refcount)
  have z: "\<not> page_tracked phys s \<Longrightarrow> ?r = 0" by (auto simp: page_tracked_def page_get_refcount_def Let_def split: option.splits)
  have s'_eq: "s' = (if \<not> page_tracked phys s \<or> ?r \<in> {0, 255} then page_set_refcount new 1 s
      else page_set_refcount phys (?r - 1) (page_set_refcount new 1 s))"
    unfolding s' using many by (simp add: page_unref_set r Let_def)
  show "page_tracked new s \<Longrightarrow> page_get_refcount new s' = 1"
    using ne by (auto simp: s'_eq page_get_set_refcount)
  show "page_get_refcount phys s' = (if ?r \<in> {0, 255} then ?r else ?r - 1)"
    using z ne by (auto simp: s'_eq page_get_set_refcount r)
  show m: "mem s' = mem s" and A: "avail_pages s' = avail_pages s" by (simp_all add: s'_eq)
  have "pmm_inv s' = pmm_inv s" "total_pages s' = total_pages s" by (simp_all add: s'_eq)
  then show "tabs s' = tabs s" "vm_inv D s' = vm_inv D s" using tabs_cong[OF m] A by (simp_all add: vm_inv_def)
qed

lemma cow_fault_spec:
  assumes "vm_inv D s" "(r, PML4_INDEX va) \<in> D" "handle_cow_fault va r s = (rc, s')"
    and "vmm_get_physical r va s = phys" "phys \<notin> avail_pages s"
  shows "if rc = 0
    then vmm_get_pte_flags r va s' = (vmm_get_pte_flags r va s AND NOT PTE_COW) OR PTE_WRITABLE \<and> vm_inv D s'
      \<and> (\<forall>r' va'. (r', PML4_INDEX va') \<in> D \<longrightarrow> \<not> (r' = r \<and> same_vpage va' va) \<longrightarrow>
          vmm_get_physical r' va' s' = vmm_get_physical r' va' s \<and> vmm_get_pte_flags r' va' s' = vmm_get_pte_flags r' va' s)
      \<and> (if page_get_refcount phys s = 1 then vmm_get_physical r va s' = phys \<and> avail_pages s' = avail_pages s
         else \<exists>new \<in> avail_pages s. vmm_get_physical r va s' = new \<and> avail_pages s' = avail_pages s - {new}
           \<and> (\<forall>n < PAGE_SIZE. mem s' (new + n) = mem s (phys + n)
               \<and> (phys \<notin> walk_tables (tabs s) r va \<longrightarrow> mem s' (phys + n) = mem s (phys + n)))
           \<and> (page_tracked new s \<longrightarrow> page_get_refcount new s' = 1)
           \<and> page_get_refcount phys s' = (if page_get_refcount phys s \<in> {0, 255} then page_get_refcount phys s
               else page_get_refcount phys s - 1))
    else rc = -1 \<and> s' = s \<and> (vmm_get_pte_flags r va s AND PTE_COW = 0 \<or> avail_pages s = {})"
proof -
  have ra: "page_addr r" by (rule vm_inv_root[OF assms(1,2)])
  have pi: "pmm_inv s" and wf: "pt_wf D (avail_pages s) (tabs s)" using assms(1) by (simp_all add: vm_inv_def)
  let ?fl = "vmm_get_pte_flags r va s"
  consider (no) "?fl AND PTE_COW = 0" | (one) "?fl AND PTE_COW \<noteq> 0" "page_get_refcount phys s = 1"
    | (full) "?fl AND PTE_COW \<noteq> 0" "page_get_refcount phys s \<noteq> 1" "avail_pages s = {}"
    | (copy) "?fl AND PTE_COW \<noteq> 0" "page_get_refcount phys s \<noteq> 1" "avail_pages s \<noteq> {}" by blast
  then show ?thesis
  proof cases
    case no
    then show ?thesis using assms(3) by (simp add: handle_cow_fault_eq[OF ra refl assms(4)])
  next
    case full
    then show ?thesis using assms(3) pmm.alloc_fail[OF pi] by (simp add: handle_cow_fault_eq[OF ra refl assms(4)])
  next
    case one
    obtain e where e: "present e" "?fl = e AND NOT PTE_ADDR_MASK" "phys = e AND PTE_ADDR_MASK"
      using cow_page_walk[OF ra one(1)] assms(4) by metis
    have h: "rc = 0" "vm_inv D s'" "avail_pages s' = avail_pages s"
      "\<And>r' ix. on_leaf D r' ix \<Longrightarrow> pte (tabs s') r' ix = (if r' = r \<and> ix = vidx va
        then (phys AND PTE_ADDR_MASK) OR cow_break ?fl else pte (tabs s) r' ix)"
      using cow_reuse[OF assms(1,2) one(1)] one(2) assms(3,4) by auto
    note v = leaf_update_view[OF assms(1,2) h(4) cow_break_flags[OF e(1,2)]]
    show ?thesis using h(1-3) v one(2) e(3) by (simp add: cow_break_def and.assoc)
  next
    case copy
    obtain e where e: "present e" "?fl = e AND NOT PTE_ADDR_MASK" "phys = e AND PTE_ADDR_MASK"
      using cow_page_walk[OF ra copy(1)] assms(4) by metis
    define s1 where "s1 = snd (pmm_alloc s)"
    obtain new s4 where h: "handle_cow_fault va r s = (0, page_unref phys (page_set_refcount new 1 s4))"
      "new \<in> avail_pages s" "vm_inv D s4" "avail_pages s4 = avail_pages s - {new}"
      "\<And>r' ix. on_leaf D r' ix \<Longrightarrow> pte (tabs s4) r' ix = (if r' = r \<and> ix = vidx va
        then (new AND PTE_ADDR_MASK) OR cow_break ?fl else pte (tabs s) r' ix)"
      "touches (walk_tables (tabs s) r va) (idt_memcpy new phys PAGE_SIZE s1) s4"
      using cow_copy[OF assms(1,2) copy(1) assms(4) copy(2,3)] unfolding s1_def by metis
    have rc: "rc = 0" "s' = page_unref phys (page_set_refcount new 1 s4)" using h(1) assms(3) by auto
    have pa: "page_addr new" "page_addr phys" "new \<noteq> phys" "new AND PTE_ADDR_MASK = new"
      using pmm.avail_page[OF pi h(2)] e(3) h(2) assms(5) addr_mask_id avail_page_small[OF assms(1) h(2)] by auto
    have cnt: "page_get_refcount a s4 = page_get_refcount a s" "page_tracked a s4 = page_tracked a s" for a
      using page_counts_touches[OF h(6)] by (simp_all add: idt_memcpy_def s1_def)
    note cc = cow_counts[OF pa(1-3) _ rc(2), unfolded cnt, OF copy(2)]
    have T: "tabs s' = tabs s4" by (rule cc(5))
    note v = leaf_update_view[of D s r va s' new "cow_break ?fl", unfolded T, OF assms(1,2) h(5) cow_break_flags[OF e(1,2)]]
    have bytes: "mem s' x = (if x - new < PAGE_SIZE then mem s (phys + (x - new)) else mem s x)"
      if "\<forall>t \<in> walk_tables (tabs s) r va. \<not> x - t < PAGE_SIZE" for x
    proof -
      have "mem s' x = mem (idt_memcpy new phys PAGE_SIZE s1) x" using h(6) that cc(3) by (simp add: touches_def)
      then show ?thesis by (simp add: idt_memcpy_def memcpy_page[OF pa(1,2)] s1_def frame_simps)
    qed
    have tab: "page_addr t \<and> t \<notin> avail_pages s" if "t \<in> walk_tables (tabs s) r va" for t
      using that pt_wfD(1,2)[OF wf on_path_take[OF on_path_vpath[OF assms(2)]]] by (auto simp: walk_tables_def)
    have "mem s' (new + n) = mem s (phys + n) \<and> (phys \<notin> walk_tables (tabs s) r va \<longrightarrow> mem s' (phys + n) = mem s (phys + n))" if n: "n < PAGE_SIZE" for n
      using bytes[of "new + n"] bytes[of "phys + n"] pages_apart[OF pa(1), of _ "new + n"] pages_apart[OF pa(2), of _ "phys + n"]
        tab n h(2) assms(5) pa(1,3) by auto
    then show ?thesis using rc(1) v cc h(2,3,4) copy(2) pa(4) by (auto simp: cow_break_def)
  qed
qed


definition witness_cow :: page_state where
  "witness_cow = page_set_refcount 0x9000 2 (set_entry 0x7000 0 0x9205 witness_vm)"

lemma witness_cow_view:
  "vm_inv (user_slots 0x3000) witness_cow" "vmm_get_pte_flags 0x3000 0x400000 witness_cow = 0x205"
  "vmm_get_physical 0x3000 0x400000 witness_cow = 0x9000" "avail_pages witness_cow = avail_pages witness_vm"
  "walk_tables (tabs witness_cow) 0x3000 0x400000 \<subseteq> {0x3000, 0x5000, 0x6000, 0x7000}" "page_get_refcount 0x9000 witness_cow = 2"
proof -
  have i: "PML4_INDEX 0x400000 = 0" "PDPT_INDEX 0x400000 = 0" "PD_INDEX 0x400000 = 2" "PT_INDEX 0x400000 = 0"
    by (simp_all add: PML4_INDEX_def PDPT_INDEX_def PD_INDEX_def PT_INDEX_def)
  have d: "(0x3000, PML4_INDEX 0x400000) \<in> user_slots 0x3000" by (simp add: user_slots_def i)
  have w: "walk (tabs witness_vm) 0x3000 (vpath 0x400000) = Some 0x7000" by (simp add: vpath_def i tabs_witness_vm)
  have T: "tabs witness_cow = (tabs witness_vm)(0x7000 := (\<lambda>_. 0)(0 := 0x9205))"
    using tabs_cong[of witness_cow "set_entry 0x7000 0 0x9205 witness_vm"]
    by (simp add: witness_cow_def tabs_set_entry) (simp add: tabs_witness_vm)
  have A: "avail_pages witness_cow = avail_pages witness_vm" by (simp add: witness_cow_def)
  show "avail_pages witness_cow = avail_pages witness_vm" by (rule A)
  have "vm_inv (user_slots 0x3000) (set_entry 0x7000 0 0x9205 witness_vm)"
    using set_leaf_spec[OF witness_vm_inv d w, of "0x9205"] i by simp
  then show "vm_inv (user_slots 0x3000) witness_cow"
    using tabs_cong[of witness_cow "set_entry 0x7000 0 0x9205 witness_vm"] A by (simp add: vm_inv_def) (simp add: witness_cow_def)
  have p: "present 0x9205" by (simp add: present_def PTE_PRESENT_def)
  show "vmm_get_pte_flags 0x3000 0x400000 witness_cow = 0x205" "vmm_get_physical 0x3000 0x400000 witness_cow = 0x9000"
    by (simp_all add: vmm_get_pte_flags_pte vmm_get_physical_pte pte_def vidx_def vpath_def i T tabs_witness_vm p PTE_ADDR_MASK_def)
  show "walk_tables (tabs witness_cow) 0x3000 0x400000 \<subseteq> {0x3000, 0x5000, 0x6000, 0x7000}"
  proof
    fix x assume "x \<in> walk_tables (tabs witness_cow) 0x3000 0x400000"
    then obtain n where n: "n \<le> 3" "walk (tabs witness_cow) 0x3000 (take n [0, 0, 2]) = Some x"
      by (auto simp: walk_tables_def vpath_def i)
    then have "n = 0 \<or> n = 1 \<or> n = 2 \<or> n = 3" by arith
    then show "x \<in> {0x3000, 0x5000, 0x6000, 0x7000}" using n(2) by (elim disjE) (simp_all add: T tabs_witness_vm)
  qed
  show "page_get_refcount 0x9000 witness_cow = 2"
    by (simp add: witness_cow_def page_get_set_refcount)
      (simp add: page_tracked_def witness_vm_def witness_vm0_def set_entry_def PAGE_SIZE_def)
qed


section \<open>Fork and write\<close>

lemma cow_writable: "f AND PTE_WRITABLE \<noteq> 0 \<Longrightarrow> cow_flags f AND PTE_COW \<noteq> 0"
  by (simp add: cow_flags_def bit.conj_disj_distrib2) (simp add: PTE_COW_def)

lemma cow_fault_two_owners:
  assumes "vm_inv D s" "(w, PML4_INDEX va) \<in> D" "(o', PML4_INDEX va) \<in> D" "o' \<noteq> w" "handle_cow_fault va w s = (rc, s')"
    and "vmm_get_physical w va s = phys" "vmm_get_physical o' va s = phys" "vmm_get_pte_flags w va s AND PTE_COW \<noteq> 0"
    and "phys \<notin> avail_pages s" "avail_pages s \<noteq> {}"
  shows "rc = 0 \<and> (vmm_get_physical w va s' = phys \<longleftrightarrow> page_get_refcount phys s = 1) \<and> vmm_get_physical o' va s' = phys
      \<and> vmm_get_pte_flags w va s' AND PTE_WRITABLE \<noteq> 0"
proof -
  note h = cow_fault_spec[OF assms(1,2,5,6,9)]
  have rc: "rc = 0" using h assms(8,10) by (auto split: if_splits)
  have "((f AND NOT PTE_COW) OR PTE_WRITABLE) AND PTE_WRITABLE \<noteq> 0" for f
    by (simp add: bit.conj_disj_distrib2) (simp add: PTE_WRITABLE_def)
  then show ?thesis using h rc assms(3,4,7,9) by (auto split: if_splits)
qed

text \<open>
  C35. After a fork, the first write of either process to a page that was writable and mapped once: if the page's reference
  count was 1 before the fork, the writer gets a frame of its own and the other process keeps the original one. If it was 0, as it is for a page fresh from the page
  allocator, both processes keep the same frame and the writer can now write it, so the other one sees the writes.
\<close>

theorem fork_then_write:
  assumes "vm_inv D s" "user_slots src \<subseteq> D" "vmm_copy_address_space_cow src s = (dst, s1)" "dst \<noteq> 0"
    and "PML4_INDEX va < 256" "vmm_get_pte_flags src va s AND PTE_WRITABLE \<noteq> 0" "vmm_get_physical src va s = phys"
    and "page_tracked phys s" "card (mappings D (tabs s) src [] 256 phys) = 1" "phys \<notin> avail_pages s" "avail_pages s1 \<noteq> {}"
    and "{writer, other} = {src, dst}" "handle_cow_fault va writer s1 = (rc, s2)"
  shows "(page_get_refcount phys s = 1 \<longrightarrow> rc = 0 \<and> vmm_get_physical writer va s2 \<noteq> phys \<and> vmm_get_physical other va s2 = phys
      \<and> vmm_get_pte_flags writer va s2 AND PTE_WRITABLE \<noteq> 0)
    \<and> (page_get_refcount phys s = 0 \<longrightarrow> rc = 0 \<and> vmm_get_physical writer va s2 = phys \<and> vmm_get_physical other va s2 = phys
      \<and> vmm_get_pte_flags writer va s2 AND PTE_WRITABLE \<noteq> 0)"
proof -
  let ?D = "D \<union> user_slots dst" and ?e = "pte (tabs s) src (vidx va)"
  have c: "dst \<noteq> src" "vm_inv ?D s1" "avail_pages s1 \<subseteq> avail_pages s"
    and A: "\<And>ix. on_leaf D src ix \<Longrightarrow> hd ix < 256 \<Longrightarrow> pte (tabs s1) src ix = cow (pte (tabs s) src ix)"
    and B: "\<And>ix. on_leaf (user_slots src) src ix \<Longrightarrow> present (pte (tabs s) src ix) \<Longrightarrow> pte (tabs s1) dst ix = cow (pte (tabs s) src ix)"
    and R: "\<And>a. page_addr a \<Longrightarrow> page_tracked a s \<Longrightarrow> unat (page_get_refcount a s1)
         = min 255 (unat (page_get_refcount a s) + card (mappings D (tabs s) src [] 256 a))"
    using vmm_copy_spec[OF assms(1-3)] assms(4) by auto
  have sl: "(src, PML4_INDEX va) \<in> user_slots src" "(dst, PML4_INDEX va) \<in> user_slots dst" using assms(5) by (simp_all add: user_slots_def)
  have slD: "(src, PML4_INDEX va) \<in> D" "(src, PML4_INDEX va) \<in> ?D" "(dst, PML4_INDEX va) \<in> ?D" using sl assms(2) by auto
  have pa: "page_addr src" "page_addr dst" using vm_inv_root[OF c(2)] slD by blast+
  have e: "present ?e" "phys = ?e AND PTE_ADDR_MASK" "vmm_get_pte_flags src va s = ?e AND NOT PTE_ADDR_MASK"
    using assms(6,7) pa by (auto simp: vmm_get_pte_flags_pte vmm_get_physical_pte Let_def split: if_splits)
  have hd: "hd (vidx va) < 256" using assms(5) by (simp add: vidx_def vpath_def)
  have v: "vmm_get_physical r va s1 = phys" "vmm_get_pte_flags r va s1 AND PTE_COW \<noteq> 0" "(r, PML4_INDEX va) \<in> ?D"
    if "r \<in> {src, dst}" for r
    using that A[OF on_leaf_vidx[OF slD(1)] hd] B[OF on_leaf_vidx[OF sl(1)] e(1)] e pa slD cow_writable[OF assms(6)] cow_flags_of[OF e(1)]
    by (auto simp: vmm_get_physical_pte vmm_get_pte_flags_pte)
  have wo: "writer \<in> {src, dst}" "other \<in> {src, dst}" "other \<noteq> writer" using assms(12) c(1) by (auto simp: doubleton_eq_iff)
  have "phys \<notin> avail_pages s1" using assms(10) c(3) by blast
  note o = cow_fault_two_owners[OF c(2) v(3)[OF wo(1)] v(3)[OF wo(2)] wo(3) assms(13) v(1)[OF wo(1)] v(1)[OF wo(2)] v(2)[OF wo(1)] this assms(11)]
  have "unat (page_get_refcount phys s1) = min 255 (unat (page_get_refcount phys s) + 1)"
    using R[OF _ assms(8)] e(2) assms(9) by simp
  then show ?thesis using o by (auto simp: word_unat_eq_iff)
qed

definition witness_fork :: "u8 \<Rightarrow> page_state" where
  "witness_fork k = page_set_refcount 0x9000 k witness_vm"

lemma witness_fork_view:
  "vm_inv (user_slots 0x3000) (witness_fork k)" "tabs (witness_fork k) = tabs witness_vm"
  "avail_pages (witness_fork k) = avail_pages witness_vm" "page_tracked 0x9000 (witness_fork k)" "page_get_refcount 0x9000 (witness_fork k) = k"
proof -
  show T: "tabs (witness_fork k) = tabs witness_vm" by (rule tabs_cong) (simp add: witness_fork_def)
  show A: "avail_pages (witness_fork k) = avail_pages witness_vm" by (simp add: witness_fork_def)
  show "vm_inv (user_slots 0x3000) (witness_fork k)"
    using witness_vm_inv T A by (simp add: vm_inv_def) (simp add: witness_fork_def)
  have t: "page_tracked 0x9000 witness_vm"
    by (simp add: page_tracked_def witness_vm_def witness_vm0_def set_entry_def PAGE_SIZE_def)
  then show "page_tracked 0x9000 (witness_fork k)" "page_get_refcount 0x9000 (witness_fork k) = k"
    by (simp_all add: witness_fork_def page_get_set_refcount)
qed

text \<open>The parent writes first: with a count of 1 it gets a frame of its own, with a count of 0 it writes the child's.\<close>

theorem fork_then_write_witness:
  "vmm_get_physical 0x3000 0x400000 (snd (handle_cow_fault 0x400000 0x3000 (snd (vmm_copy_address_space_cow 0x3000 (witness_fork 1))))) \<noteq> 0x9000
   \<and> vmm_get_physical 0x3000 0x400000 (snd (handle_cow_fault 0x400000 0x3000 (snd (vmm_copy_address_space_cow 0x3000 (witness_fork 0))))) = 0x9000"
proof -
  have i: "PML4_INDEX 0x400000 = 0" "PDPT_INDEX 0x400000 = 0" "PD_INDEX 0x400000 = 2" "PT_INDEX 0x400000 = 0"
    by (simp_all add: PML4_INDEX_def PDPT_INDEX_def PD_INDEX_def PT_INDEX_def)
  have p: "PML4_INDEX 0x400000 < 256" "vmm_get_pte_flags 0x3000 0x400000 (witness_fork k) AND PTE_WRITABLE \<noteq> 0"
    "vmm_get_physical 0x3000 0x400000 (witness_fork k) = 0x9000" for k
    by (simp_all add: vmm_get_pte_flags_pte vmm_get_physical_pte pte_def vidx_def vpath_def i witness_fork_view tabs_witness_vm PTE_ADDR_MASK_def PTE_WRITABLE_def)
  have m: "card (mappings (user_slots 0x3000) (tabs (witness_fork k)) 0x3000 [] 256 0x9000) = 1" "0x9000 \<notin> avail_pages (witness_fork k)" for k
    by (simp_all add: witness_fork_view mappings_witness_vm witness_vm_avail)
  have a5: "card (avail_pages witness_vm) = 5" unfolding witness_vm_avail by code_simp
  have "(page_get_refcount 0x9000 (witness_fork k) = 1 \<longrightarrow> vmm_get_physical 0x3000 0x400000
        (snd (handle_cow_fault 0x400000 0x3000 (snd (vmm_copy_address_space_cow 0x3000 (witness_fork k))))) \<noteq> 0x9000)
    \<and> (page_get_refcount 0x9000 (witness_fork k) = 0 \<longrightarrow> vmm_get_physical 0x3000 0x400000
        (snd (handle_cow_fault 0x400000 0x3000 (snd (vmm_copy_address_space_cow 0x3000 (witness_fork k))))) = 0x9000)" for k
  proof -
    obtain dst s1 where c: "vmm_copy_address_space_cow 0x3000 (witness_fork k) = (dst, s1)" by fastforce
    note sp = vmm_copy_spec[OF witness_fork_view(1) subset_refl c, unfolded witness_fork_view a5]
    then have d: "dst \<noteq> 0" using tables_witness_vm by auto
    then have "card (avail_pages s1) \<noteq> 0" using sp tables_witness_vm by auto
    then have ne: "avail_pages s1 \<noteq> {}" by auto
    obtain rc s2 where h: "handle_cow_fault 0x400000 0x3000 s1 = (rc, s2)" by fastforce
    show ?thesis
      using fork_then_write[OF witness_fork_view(1) subset_refl c d p(1) p(2,3)[of k] witness_fork_view(4) m[of k] ne refl h] c h by auto
  qed
  then show ?thesis using witness_fork_view(5) by blast
qed

end
