(* ===== verification/Ext2_Read.thy ===== *)
theory Ext2_Read
  imports Ext2
begin

text \<open>
  Reading a file block by block puts the bytes of the file in the buffer and nothing else: the
  reference is a function that says, for one byte of the file, where on the disk it is.
\<close>

definition file_byte :: "bytes \<Rightarrow> ext2 \<Rightarrow> u64 \<Rightarrow> nat \<Rightarrow> u8" where
  "file_byte d f inode i =
     (let bs = unat (fs_block_size f) in
      case ext2_get_block_num d f inode (of_nat (i div bs)) of
        None \<Rightarrow> 0
      | Some block_num \<Rightarrow> if block_num = 0 then 0 else d (ext2_block_ptr f block_num + of_nat (i mod bs)))"

definition block_size_ok :: "ext2 \<Rightarrow> bool" where
  "block_size_ok f \<longleftrightarrow> 4 \<le> fs_block_size f \<and> fs_block_size f < 0x40000"

definition bytes_placed :: "u64 \<Rightarrow> nat \<Rightarrow> (nat \<Rightarrow> u8) \<Rightarrow> bytes \<Rightarrow> bytes \<Rightarrow> bool" where
  "bytes_placed dst n g m m' \<longleftrightarrow> (\<forall>x. m' x = (if unat (x - dst) < n then g (unat (x - dst)) else m x))"

lemma sint_u64_nonneg: "unat (w :: u64) < 2 ^ 63 \<Longrightarrow> sint w = int (unat w)"
proof -
  assume "unat w < 2 ^ 63"
  then have "int (unat w) < int (2 ^ 63)" by (simp only: of_nat_less_iff)
  then have "int (unat w) < 2 ^ 63" by simp
  then have "uint w < 2 ^ 63" by (simp only: uint_nat)
  then have "sint w = uint w" unfolding sint_uint by (intro signed_take_bit_int_eq_self) (simp_all add: order_trans[OF _ uint_ge_0])
  then show ?thesis by (simp only: uint_nat)
qed

lemma fold_place:
  fixes dst :: u64
  assumes "n \<le> 2 ^ 64"
  shows "bytes_placed dst n g m (fold (\<lambda>i m. m(dst + of_nat i := g i)) [0..<n] m)"
  using assms
proof (induction n)
  case (Suc n)
  then show ?case using u64_eq_offset[of n _ dst] by (auto simp: bytes_placed_def less_Suc_eq)
qed (simp add: bytes_placed_def)

lemma bytes_placed_append:
  assumes "bytes_placed dst n g m m1" "bytes_placed (dst + of_nat n) k (\<lambda>i. g (n + i)) m1 m2" "n + k < 2 ^ 64"
  shows "bytes_placed dst (n + k) g m m2"
proof -
  have "m2 x = (if unat (x - dst) < n + k then g (unat (x - dst)) else m x)" for x
  proof -
    have n: "unat (of_nat n :: u64) = n" using assms(3) by (simp add: unat_of_nat)
    have "unat (x - (dst + of_nat n)) = unat ((x - dst) - of_nat n)" by (simp add: diff_diff_add)
    also have "\<dots> = (if n \<le> unat (x - dst) then unat (x - dst) - n else unat (x - dst) + 2 ^ 64 - n)"
      by (simp add: unat_sub_if' n)
    finally show ?thesis using assms by (auto simp: bytes_placed_def)
  qed
  then show ?thesis by (simp add: bytes_placed_def)
qed

lemma get_block_num_defined:
  assumes "block_size_ok f"
  shows "\<exists>b. ext2_get_block_num d f inode l = Some b"
proof -
  have "1 \<le> unat (fs_block_size f div 4)" "unat (fs_block_size f div 4) < 2 ^ 16"
    using assms by (auto simp: block_size_ok_def unat_div word_le_nat_alt word_less_nat_alt)
  then have "0 < unat (fs_block_size f div 4) * unat (fs_block_size f div 4)"
    "unat (fs_block_size f div 4) * unat (fs_block_size f div 4) < 2 ^ 32"
    using mult_strict_mono[of "unat (fs_block_size f div 4)" "2 ^ 16" "unat (fs_block_size f div 4)" "2 ^ 16"] by auto
  then have "unat ((fs_block_size f div 4) * (fs_block_size f div 4)) \<noteq> 0"
    by (simp add: unat_mult_lem[THEN iffD1])
  then have "(fs_block_size f div 4) * (fs_block_size f div 4) \<noteq> 0" by (metis unat_0)
  then show ?thesis by (simp add: ext2_get_block_num_def Let_def)
qed

lemma block_step:
  fixes i o' bs :: nat
  assumes "o' mod bs + i < bs"
  shows "(o' + i) div bs = o' div bs" "(o' + i) mod bs = o' mod bs + i"
proof -
  have "o' + i = o' div bs * bs + (o' mod bs + i)" by simp
  then show "(o' + i) div bs = o' div bs" "(o' + i) mod bs = o' mod bs + i"
    using assms by (metis div_mult_self3 div_less add_0_right gr_implies_not0 not_less_zero, metis mod_mult_self3 mod_less)
qed

lemma read_chunk_places:
  assumes "block_size_ok f" "unat n \<le> unat (fs_block_size f) - unat offset mod unat (fs_block_size f)"
  shows "\<exists>m'. read_chunk d f inode offset dst n m = Some m' \<and>
    bytes_placed dst (unat n) (\<lambda>i. file_byte d f inode (unat offset + i)) m m'"
proof -
  define bs where "bs = fs_block_size f"
  have nz: "bs \<noteq> 0" using assms(1) by (auto simp: block_size_ok_def bs_def)
  obtain b where b: "ext2_get_block_num d f inode (ucast (offset div ucast bs)) = Some b"
    using get_block_num_defined[OF assms(1)] by blast
  have lb: "(ucast (offset div ucast bs) :: u32) = of_nat (unat offset div unat bs)"
    by (rule word_unat_eq_iff[THEN iffD2]) (simp add: unsigned_ucast_eq unat_div take_bit_eq_mod unat_of_nat)
  have same: "(unat offset + i) div unat bs = unat offset div unat bs"
    "(unat offset + i) mod unat bs = unat offset mod unat bs + i" if "i < unat n" for i
    using that assms(2) by (auto simp: bs_def[symmetric] intro!: block_step)
  have fb: "file_byte d f inode (unat offset + i) = (if b = 0 then 0 else d (ext2_block_ptr f b + ucast (ucast (offset mod ucast bs) :: u32) + of_nat i))"
    if "i < unat n" for i
  proof -
    have "(ucast (ucast (offset mod ucast bs) :: u32) :: u64) = of_nat (unat offset mod unat bs)"
      by (rule word_unat_eq_iff[THEN iffD2]) (simp add: unat_block_offset[OF nz] unat_of_nat mod_less_eq_dividend[THEN order_le_less_trans])
    then show ?thesis using same[OF that] b lb by (simp add: file_byte_def bs_def[symmetric] add.assoc)
  qed
  have "bytes_placed dst (unat n) (\<lambda>i. file_byte d f inode (unat offset + i)) m
     (fold (\<lambda>i m. m(dst + of_nat i := file_byte d f inode (unat offset + i))) [0..<unat n] m)"
    by (rule fold_place) (simp add: less_imp_le)
  moreover have "fold (\<lambda>i m. m(dst + of_nat i := file_byte d f inode (unat offset + i))) [0..<unat n] m =
     (if b = 0 then fold (\<lambda>i m. m(dst + of_nat i := 0)) [0..<unat n] m
      else ext2_memcpy m dst d (ext2_block_ptr f b + ucast (ucast (offset mod ucast bs) :: u32)) n)"
    using fb by (auto simp: ext2_memcpy_def intro!: fold_cong)
  ultimately show ?thesis using b by (simp add: read_chunk_def Let_def bs_def[symmetric])
qed

lemma read_loop_places:
  assumes "block_size_ok f" "unat offset + unat sz < 2 ^ 64"
  shows "\<exists>m'. read_loop d f inode offset dst sz t0 m = Some (t0 + sz, m') \<and>
    bytes_placed dst (unat sz) (\<lambda>i. file_byte d f inode (unat offset + i)) m m'"
  using assms
proof (induction d f inode offset dst sz t0 m rule: read_loop.induct)
  case (1 d f inode offset dst sz t0 m)
  have nz: "fs_block_size f \<noteq> 0" using 1(2) by (auto simp: block_size_ok_def)
  show ?case
  proof (cases "sz = 0")
    case True
    then show ?thesis by (simp add: read_loop.simps bytes_placed_def)
  next
    case False
    define n where "n = chunk f offset sz"
    have n: "unat n \<le> unat (fs_block_size f) - unat offset mod unat (fs_block_size f)" "unat n \<le> unat sz"
      using unat_chunk[OF nz] by (simp_all add: n_def)
    obtain m1 where m1: "read_chunk d f inode offset dst n m = Some m1"
      "bytes_placed dst (unat n) (\<lambda>i. file_byte d f inode (unat offset + i)) m m1"
      using read_chunk_places[OF 1(2) n(1)] by blast
    have off: "unat (offset + n) = unat offset + unat n" using n(2) 1(3) by (simp add: unat_word_ariths)
    have sz: "unat (sz - n) = unat sz - unat n" using n(2) by (simp add: unat_sub word_le_nat_alt)
    obtain m2 where m2: "read_loop d f inode (offset + n) (dst + n) (sz - n) (t0 + n) m1 = Some (t0 + n + (sz - n), m2)"
      "bytes_placed (dst + n) (unat sz - unat n) (\<lambda>i. file_byte d f inode (unat offset + unat n + i)) m1 m2"
      using 1(1)[OF False nz n_def m1(1) 1(2)] off sz n(2) 1(3) by auto
    have "bytes_placed dst (unat n + (unat sz - unat n)) (\<lambda>i. file_byte d f inode (unat offset + i)) m m2"
      by (rule bytes_placed_append[OF m1(2)]) (use m2(2) n(2) in \<open>simp_all add: add.assoc\<close>)
    then show ?thesis using n(2) m1(1) m2(1) False nz
      by (subst read_loop.simps) (simp add: n_def[symmetric])
  qed
qed


text \<open>A disk with one-kilobyte blocks and a file of five bytes in block 7, whose inode is at 0x1000.\<close>

definition witness_fs :: ext2 where
  "witness_fs = \<lparr>fs_disk = 0x10000, fs_disk_size = 0x10000, fs_sb = 0x10400, fs_gdt = 0x10800, fs_block_size = 1024,
     fs_inodes_per_group = 32, fs_inode_size = 128, fs_groups_count = 1\<rparr>"

definition witness_disk :: bytes where
  "witness_disk = (\<lambda>_. 0)(0x1001 := 0x80, 0x1004 := 5, 0x1028 := 7, 0x11C00 := 0x68, 0x11C01 := 0x69)"

lemma witness_file_size: "ext2_get_file_size witness_disk 0x1000 = 5"
  by (simp add: ext2_get_file_size_def ext2_is_regular_file_def i_mode_def i_size_def i_dir_acl_def get16_bytes get32_bytes
      witness_disk_def EXT2_S_IFMT_def EXT2_S_IFREG_def)


end
