(* ===== verification/Ext2_Lookup.thy ===== *)
theory Ext2_Lookup
  imports Ext2_Read
begin

text \<open>
  The search of a directory finds the entry that a list of the directory's entries names first; on a
  directory with an entry of length zero it does not end.
\<close>

record dirent =
  ent_ino :: u32
  ent_len :: u16
  ent_name :: "u8 list"

definition entry_at :: "bytes \<Rightarrow> u64 \<Rightarrow> dirent \<Rightarrow> bool" where
  "entry_at d a e \<longleftrightarrow> de_inode d a = ent_ino e \<and> de_rec_len d a = ent_len e \<and>
     unat (de_name_len d a) = length (ent_name e) \<and> (\<forall>i < length (ent_name e). d (de_name a + of_nat i) = ent_name e ! i)"

fun dirents_at :: "bytes \<Rightarrow> u64 \<Rightarrow> dirent list \<Rightarrow> bool" where
  "dirents_at d a [] = True"
| "dirents_at d a (e # es) \<longleftrightarrow> entry_at d a e \<and> ent_len e \<noteq> 0 \<and> dirents_at d (a + ucast (ent_len e)) es"

definition find_entry :: "u8 list \<Rightarrow> dirent list \<Rightarrow> u32" where
  "find_entry name es = (case find (\<lambda>e. ent_ino e \<noteq> 0 \<and> ent_name e = name) es of None \<Rightarrow> 0 | Some e \<Rightarrow> ent_ino e)"

lemma ext2_strncmp_eq:
  "0 \<notin> set name \<Longrightarrow> ext2_strncmp d a name = 0 \<longleftrightarrow> (\<forall>i < length name. d (a + of_nat i) = name ! i)"
proof (induction name arbitrary: a)
  case (Cons c name)
  then show ?case by (auto simp: All_less_Suc2 add.assoc dest: signed_word_eqI)
qed simp

lemma entry_matches_iff:
  assumes "entry_at d a e" "0 \<notin> set name"
  shows "entry_matches d a name \<longleftrightarrow> ent_ino e \<noteq> 0 \<and> ent_name e = name"
  using assms by (auto simp: entry_matches_def entry_at_def ext2_strncmp_eq list_eq_iff_nth_eq)

lemma scan_block_finds:
  assumes "dirents_at d (block + ucast off) es" "unat off + sum_list (map (unat \<circ> ent_len) es) = unat (fs_block_size f)"
    "unat offset + sum_list (map (unat \<circ> ent_len) es) = unat sz" "0 \<notin> set name"
  shows "\<exists>offset'. scan_block d f block sz name off offset = Some (find_entry name es, offset') \<and>
    (find_entry name es = 0 \<longrightarrow> offset' = sz)"
  using assms
proof (induction es arbitrary: off offset)
  case Nil
  then have "off = fs_block_size f" "offset = sz" by (auto simp: word_unat_eq_iff)
  then show ?case by (simp add: scan_block.simps find_entry_def)
next
  case (Cons e es)
  let ?a = "block + ucast off"
  have e: "entry_at d ?a e" "ent_len e \<noteq> 0" "de_rec_len d ?a = ent_len e" using Cons.prems(1) by (auto simp: entry_at_def)
  have pos: "0 < unat (ent_len e)" using e(2) by (simp add: unat_gt_0)
  have lt: "off < fs_block_size f" "offset < sz" using Cons.prems(2,3) pos by (simp_all add: word_less_nat_alt)
  have len: "unat (ucast (ent_len e) :: u32) = unat (ent_len e)" "unat (ucast (ent_len e) :: u64) = unat (ent_len e)"
    using unsigned_less[of "ent_len e", where 'a = nat] by (simp_all add: unsigned_ucast_eq take_bit_nat_eq_self)
  have off: "unat (off + ucast (ent_len e)) = unat off + unat (ent_len e)"
    using Cons.prems(2) len unsigned_less[of "fs_block_size f", where 'a = nat] by (simp add: unat_word_ariths)
  have "unat offset + unat (ent_len e) \<le> unat sz" using Cons.prems(3) by simp
  then have "unat offset + unat (ent_len e) < 2 ^ 64" using unat_u64_lt by (rule order_le_less_trans)
  then have offset: "unat (offset + ucast (ent_len e)) = unat offset + unat (ent_len e)"
    using len by (simp add: unat_word_ariths)
  show ?case
  proof (cases "ent_ino e \<noteq> 0 \<and> ent_name e = name")
    case True
    then show ?thesis using e lt entry_matches_iff[OF e(1) Cons.prems(4)]
      by (simp add: scan_block.simps[of d f block] find_entry_def entry_at_def)
  next
    case False
    have "(ucast (off + ucast (ent_len e)) :: u64) = ucast off + ucast (ent_len e)"
      using off len Cons.prems(2) unsigned_less[of "fs_block_size f", where 'a = nat]
      by (simp add: word_unat_eq_iff unat_word_ariths)
    then have "dirents_at d (block + ucast (off + ucast (ent_len e))) es"
      using Cons.prems(1) by (simp add: add.assoc)
    then obtain offset' where "scan_block d f block sz name (off + ucast (ent_len e)) (offset + ucast (ent_len e)) =
        Some (find_entry name es, offset')" "find_entry name es = 0 \<longrightarrow> offset' = sz"
      using Cons.IH[of "off + ucast (ent_len e)" "offset + ucast (ent_len e)"] Cons.prems off offset by auto
    moreover have "find_entry name (e # es) = find_entry name es" using False by (auto simp: find_entry_def)
    ultimately show ?thesis using e lt False entry_matches_iff[OF e(1) Cons.prems(4)]
      by (auto simp: scan_block.simps[of d f block sz name off] Let_def)
  qed
qed

text \<open>
  C30. In a directory of one block whose entries fill the block, the search for a name returns the inode
  of the first used entry with exactly that name, and zero if there is none.
\<close>

theorem ext2_lookup_in_dir_finds:
  assumes "block_size_ok f" "ext2_get_file_size d inode = ucast (fs_block_size f)" "i_block d inode 0 \<noteq> 0"
    "dirents_at d (ext2_block_ptr f (i_block d inode 0)) es" "sum_list (map (unat \<circ> ent_len) es) = unat (fs_block_size f)"
    "0 \<notin> set name"
  shows "ext2_lookup_in_dir d f inode name = Some (find_entry name es)"
proof -
  have nz: "fs_block_size f \<noteq> 0" using assms(1) by (auto simp: block_size_ok_def)
  then have pos: "0 < (ucast (fs_block_size f) :: u64)" by (simp add: word_less_nat_alt unat_gt_0)
  have blk: "ext2_get_block_num d f inode 0 = Some (i_block d inode 0)" by (simp add: ext2_get_block_num_def Let_def)
  obtain offset' where "scan_block d f (ext2_block_ptr f (i_block d inode 0)) (ucast (fs_block_size f)) name 0 0 = Some (find_entry name es, offset')"
    "find_entry name es = 0 \<longrightarrow> offset' = ucast (fs_block_size f)"
    using scan_block_finds[of d "ext2_block_ptr f (i_block d inode 0)" 0 es f 0 "ucast (fs_block_size f)" name] assms by auto
  then show ?thesis using nz pos blk assms(2,3)
    by (auto simp: ext2_lookup_in_dir_def lookup_loop.simps[of d f inode _ name])
qed

text \<open>A directory whose inode is at 0x1000 and whose block 7 holds an unused entry and one for the name \<^verbatim>\<open>hi\<close>.\<close>

definition witness_dir :: bytes where
  "witness_dir = (\<lambda>_. 0)(0x1001 := 0x40, 0x1005 := 4, 0x1028 := 7, 0x11C04 := 12,
     0x11C0C := 5, 0x11C10 := 0xF4, 0x11C11 := 3, 0x11C12 := 2, 0x11C14 := 0x68, 0x11C15 := 0x69)"

theorem ext2_lookup_in_dir_finds_witness:
  "ext2_lookup_in_dir witness_dir witness_fs 0x1000 [0x68, 0x69] = Some 5"
proof -
  have size: "ext2_get_file_size witness_dir 0x1000 = ucast (fs_block_size witness_fs)"
    by (simp add: ext2_get_file_size_def ext2_is_regular_file_def i_mode_def i_size_def get16_bytes get32_bytes
        witness_dir_def witness_fs_def EXT2_S_IFMT_def EXT2_S_IFREG_def)
  have blk: "i_block witness_dir 0x1000 0 = 7" by (simp add: i_block_def get32_bytes witness_dir_def)
  have ptr: "ext2_block_ptr witness_fs 7 = 0x11C00" by (simp add: ext2_block_ptr_def witness_fs_def)
  let ?es = "[\<lparr>ent_ino = 0, ent_len = 12, ent_name = []\<rparr>, \<lparr>ent_ino = 5, ent_len = 1012, ent_name = [0x68, 0x69]\<rparr>]"
  have "dirents_at witness_dir 0x11C00 ?es"
    by (simp add: entry_at_def de_inode_def de_rec_len_def de_name_len_def de_name_def get16_bytes get32_bytes
        witness_dir_def All_less_Suc2)
  then show ?thesis using ext2_lookup_in_dir_finds[of witness_fs witness_dir "0x1000" ?es "[0x68, 0x69]"] size blk ptr
    by (simp add: block_size_ok_def witness_fs_def find_entry_def)
qed

text \<open>
  C31. On a directory whose first entry has length zero the search does not return, whatever the name:
  the loop over the entries stops there without advancing, and the loop over the blocks starts it again.
\<close>

theorem ext2_lookup_zero_length_diverges:
  assumes "fs_block_size f \<noteq> 0" "ext2_get_file_size d inode \<noteq> 0" "i_block d inode 0 \<noteq> 0"
    "de_rec_len d (ext2_block_ptr f (i_block d inode 0)) = 0"
  shows "ext2_lookup_in_dir d f inode name = None"
proof -
  have blk: "ext2_get_block_num d f inode 0 = Some (i_block d inode 0)" by (simp add: ext2_get_block_num_def Let_def)
  have scan: "scan_block d f (ext2_block_ptr f (i_block d inode 0)) sz name 0 0 = Some (0, 0)" for sz name
    using assms(1,4) by (simp add: scan_block.simps)
  have "\<not> (d' = d \<and> f' = f \<and> inode' = inode \<and> offset = 0 \<and> sz \<noteq> 0)"
    if "lookup_loop d' f' inode' sz name offset = Some r" for d' f' inode' sz name offset r
    using assms blk scan
    by (intro lookup_loop.raw_induct[OF _ that, where P = "\<lambda>d' f' inode' sz name offset r. \<not> (d' = d \<and> f' = f \<and> inode' = inode \<and> offset = 0 \<and> sz \<noteq> 0)"])
       (auto simp: word_gt_0 split: if_splits bind_splits)
  then show ?thesis using assms(2) by (cases "lookup_loop d f inode (ext2_get_file_size d inode) name 0") (auto simp: ext2_lookup_in_dir_def)
qed

theorem ext2_lookup_zero_length_diverges_witness:
  "ext2_lookup_in_dir (witness_dir(0x11C04 := 0)) witness_fs 0x1000 [0x68, 0x69] = None"
proof -
  let ?d = "witness_dir(0x11C04 := 0)"
  have blk: "i_block ?d 0x1000 0 = 7" by (simp add: i_block_def get32_bytes witness_dir_def)
  have "ext2_block_ptr witness_fs 7 = 0x11C00" by (simp add: ext2_block_ptr_def witness_fs_def)
  moreover have "de_rec_len ?d 0x11C00 = 0" by (simp add: de_rec_len_def get16_bytes witness_dir_def)
  moreover have "ext2_get_file_size ?d 0x1000 \<noteq> 0"
    by (simp add: ext2_get_file_size_def ext2_is_regular_file_def i_mode_def i_size_def get16_bytes get32_bytes
        witness_dir_def EXT2_S_IFMT_def EXT2_S_IFREG_def)
  ultimately show ?thesis
    using ext2_lookup_zero_length_diverges[of witness_fs ?d "0x1000" "[0x68, 0x69]"] blk by (simp add: witness_fs_def)
qed

end
