(* ===== verification/Kprintf.thy ===== *)
theory Kprintf
  imports Console
begin

text \<open>
  Formatted output, \<^verbatim>\<open>kernel/kprintf.c\<close>. The conversions produce the characters in the order in
  which the code hands them to \<^verbatim>\<open>terminal_putchar\<close>; \<^verbatim>\<open>tkvprintf\<close> writes them to the terminal and returns their
  number.

  The variable arguments are a list of 64-bit slots and strings; reading past its end or reading an
  argument of the wrong kind is undefined in C and has no result here. A C string is the list of its
  bytes before the terminating zero. The code negates a negative argument as a signed value, which overflows for the
  smallest one; the model takes the wrap-around that the compiled code gives. A field width is a natural number, although a width of ten
  or more digits in a format string would overflow the code's \<^verbatim>\<open>int\<close>. The correctness lemmas read the printed numbers back.
\<close>

section \<open>Padding and numbers\<close>

definition kputs_padded :: "u8 list option \<Rightarrow> nat \<Rightarrow> bool \<Rightarrow> u8 list" where
  "kputs_padded s width left_align =
     (let str = (case s of None \<Rightarrow> [0x28, 0x6E, 0x75, 0x6C, 0x6C, 0x29] | Some str \<Rightarrow> str);
          pad = replicate (width - length str) 0x20
      in if left_align then str @ pad else pad @ str)"

text \<open>The digit loop: least significant digit first; the base is 2, 8, 10 or 16.\<close>

function digit_loop :: "nat \<Rightarrow> nat \<Rightarrow> nat list" where
  "digit_loop base value = (if value = 0 \<or> base < 2 then [] else (value mod base) # digit_loop base (value div base))"
  by pat_completeness auto
termination
  by (relation "measure snd") (auto simp: div_less_dividend)

declare digit_loop.simps [simp del]

definition digit_char :: "bool \<Rightarrow> nat \<Rightarrow> u8" where
  "digit_char uppercase d = (if d < 10 then 0x30 + of_nat d else (if uppercase then 0x41 else 0x61) + of_nat (d - 10))"

definition number_buf :: "nat \<Rightarrow> bool \<Rightarrow> u64 \<Rightarrow> u8 list" where
  "number_buf base uppercase value =
     (if value = 0 then [0x30] else map (digit_char uppercase) (digit_loop base (unat value)))"

definition print_uint_padded :: "u64 \<Rightarrow> nat \<Rightarrow> bool \<Rightarrow> nat \<Rightarrow> bool \<Rightarrow> bool \<Rightarrow> u8 list" where
  "print_uint_padded value base uppercase width zero_pad left_align =
     (let buf = number_buf base uppercase value;
          padding = width - length buf
      in (if \<not> left_align then replicate padding (if zero_pad then 0x30 else 0x20) else [])
         @ rev buf @ (if left_align then replicate padding 0x20 else []))"

definition print_int_padded :: "u64 \<Rightarrow> nat \<Rightarrow> bool \<Rightarrow> bool \<Rightarrow> u8 list" where
  "print_int_padded value width zero_pad left_align =
     (let negative = sint value < 0;
          uval = (if negative then - value else value);
          buf = number_buf 10 False uval;
          num_len = length buf + (if negative then 1 else 0);
          padding = width - num_len;
          minus_first = \<not> left_align \<and> padding > 0 \<and> zero_pad \<and> negative
      in (if minus_first then [0x2D] else [])
         @ (if \<not> left_align then replicate padding (if zero_pad then 0x30 else 0x20) else [])
         @ (if negative \<and> \<not> minus_first then [0x2D] else [])
         @ rev buf @ (if left_align then replicate padding 0x20 else []))"

section \<open>The format string\<close>

datatype varg = Slot u64 | Str "u8 list option"

fun arg_slot :: "varg list \<Rightarrow> (u64 \<times> varg list) option" where
  "arg_slot (Slot v # args) = Some (v, args)"
| "arg_slot _ = None"

fun arg_str :: "varg list \<Rightarrow> (u8 list option \<times> varg list) option" where
  "arg_str (Str v # args) = Some (v, args)"
| "arg_str _ = None"

text \<open>An \<^verbatim>\<open>int\<close> argument is the low half of its slot, sign-extended; \<^verbatim>\<open>unsigned int\<close> is zero-extended.\<close>

definition arg_int :: "nat \<Rightarrow> u64 \<Rightarrow> u64" where
  "arg_int is_long v = (if is_long = 0 then scast (ucast v :: u32) else v)"

definition arg_uint :: "nat \<Rightarrow> u64 \<Rightarrow> u64" where
  "arg_uint is_long v = (if is_long = 0 then ucast (ucast v :: u32) else v)"

fun fmt_flags :: "u8 list \<Rightarrow> bool \<Rightarrow> bool \<Rightarrow> bool \<times> bool \<times> u8 list" where
  "fmt_flags [] left_align zero_pad = (left_align, zero_pad, [])"
| "fmt_flags (c # fmt) left_align zero_pad =
     (if c = 0x2D then fmt_flags fmt True zero_pad
      else if c = 0x30 then fmt_flags fmt left_align True
      else (left_align, zero_pad, c # fmt))"

fun fmt_width :: "u8 list \<Rightarrow> nat \<Rightarrow> nat \<times> u8 list" where
  "fmt_width [] width = (width, [])"
| "fmt_width (c # fmt) width =
     (if c \<ge> 0x30 \<and> c \<le> 0x39 then fmt_width fmt (width * 10 + unat (c - 0x30)) else (width, c # fmt))"

definition fmt_long :: "u8 list \<Rightarrow> nat \<times> u8 list" where
  "fmt_long fmt =
     (case fmt of [] \<Rightarrow> (0, [])
      | c # fmt1 \<Rightarrow> if c \<noteq> 0x6C then (0, fmt)
          else (case fmt1 of [] \<Rightarrow> (1, []) | d # fmt2 \<Rightarrow> if d = 0x6C then (2, fmt2) else (1, fmt1)))"

text \<open>One conversion: the characters and the arguments left.\<close>

definition convert ::
  "u8 \<Rightarrow> nat \<Rightarrow> bool \<Rightarrow> bool \<Rightarrow> nat \<Rightarrow> varg list \<Rightarrow> (u8 list \<times> varg list) option" where
  "convert conv width zero_pad left_align is_long args =
     (if conv = 0x63 then map_option (\<lambda>(v, as). ([ucast v], as)) (arg_slot args)
      else if conv = 0x73 then map_option (\<lambda>(v, as). (kputs_padded v width left_align, as)) (arg_str args)
      else if conv = 0x64 \<or> conv = 0x69 then
        map_option (\<lambda>(v, as). (print_int_padded (arg_int is_long v) width zero_pad left_align, as)) (arg_slot args)
      else if conv = 0x75 then
        map_option (\<lambda>(v, as). (print_uint_padded (arg_uint is_long v) 10 False width zero_pad left_align, as)) (arg_slot args)
      else if conv = 0x78 \<or> conv = 0x58 then
        map_option (\<lambda>(v, as). (print_uint_padded (arg_uint is_long v) 16 (conv = 0x58) width zero_pad left_align, as)) (arg_slot args)
      else if conv = 0x6F then
        map_option (\<lambda>(v, as). (print_uint_padded (arg_uint is_long v) 8 False width zero_pad left_align, as)) (arg_slot args)
      else if conv = 0x62 then
        map_option (\<lambda>(v, as). (print_uint_padded (arg_uint is_long v) 2 False width zero_pad left_align, as)) (arg_slot args)
      else if conv = 0x70 then
        map_option (\<lambda>(v, as). (kputs_padded (Some [0x30, 0x78]) 0 False @ print_uint_padded v 16 False 0 False False, as)) (arg_slot args)
      else if conv = 0x25 then Some ([0x25], args)
      else Some ([0x25, conv], args))"

lemma fmt_flags_shorter: "length (snd (snd (fmt_flags fmt l z))) \<le> length fmt"
  by (induction fmt l z rule: fmt_flags.induct) (auto intro: le_SucI)

lemma fmt_width_shorter: "length (snd (fmt_width fmt w)) \<le> length fmt"
  by (induction fmt w rule: fmt_width.induct) (auto intro: le_SucI)

lemma fmt_long_shorter: "length (snd (fmt_long fmt)) \<le> length fmt"
  by (auto simp: fmt_long_def split: list.splits)

function kformat :: "u8 list \<Rightarrow> varg list \<Rightarrow> u8 list option" where
  "kformat [] args = Some []"
| "kformat (c # fmt) args =
     (if c \<noteq> 0x25 then map_option (\<lambda>out. c # out) (kformat fmt args)
      else let (left_align, zero, fmt1) = fmt_flags fmt False False;
               zero_pad = zero \<and> \<not> left_align;
               (width, fmt2) = fmt_width fmt1 0;
               (is_long, fmt3) = fmt_long fmt2
           in case fmt3 of [] \<Rightarrow> Some []
              | conv # rest \<Rightarrow>
                  (case convert conv width zero_pad left_align is_long args of None \<Rightarrow> None
                   | Some (out, as) \<Rightarrow> map_option (\<lambda>out'. out @ out') (kformat rest as)))"
  by pat_completeness auto
termination
proof (relation "measure (\<lambda>(fmt, _). length fmt)", goal_cases)
  case (3 c fmt args x l y z fmt1 zero_pad w width fmt2 v is_long fmt3 conv rest)
  have "length fmt1 \<le> length fmt" using fmt_flags_shorter[of fmt False False] 3(2-4) by (metis snd_conv)
  moreover have "length fmt2 \<le> length fmt1" using fmt_width_shorter[of fmt1 0] 3(6,7) by (metis snd_conv)
  moreover have "length fmt3 \<le> length fmt2" using fmt_long_shorter[of fmt2] 3(8,9) by (metis snd_conv)
  ultimately show ?case using 3(10) by simp
qed auto

definition tkvprintf :: "(nat \<Rightarrow> u8) \<Rightarrow> terminal \<Rightarrow> u8 list \<Rightarrow> varg list \<Rightarrow> 'a console_state_scheme \<Rightarrow> (nat \<times> 'a console_state_scheme) option" where
  "tkvprintf font_data t fmt args s =
     (case kformat fmt args of None \<Rightarrow> None
      | Some out \<Rightarrow> map_option (\<lambda>s1. (length out, s1)) (term_puts font_data t out s))"

definition kvprintf :: "(nat \<Rightarrow> u8) \<Rightarrow> u8 list \<Rightarrow> varg list \<Rightarrow> 'a console_state_scheme \<Rightarrow> (nat \<times> 'a console_state_scheme) option" where
  "kvprintf font_data fmt args s = tkvprintf font_data (terminals s (terminal_get_active s)) fmt args s"

definition tkprintf :: "(nat \<Rightarrow> u8) \<Rightarrow> term_ptr option \<Rightarrow> u8 list \<Rightarrow> varg list \<Rightarrow> 'a console_state_scheme \<Rightarrow> (nat \<times> 'a console_state_scheme) option" where
  "tkprintf font_data term fmt args s = tkvprintf font_data (terminals s (the_term term s)) fmt args s"

definition kprintf :: "(nat \<Rightarrow> u8) \<Rightarrow> u8 list \<Rightarrow> varg list \<Rightarrow> 'a console_state_scheme \<Rightarrow> (nat \<times> 'a console_state_scheme) option" where
  "kprintf font_data fmt args s = tkvprintf font_data (terminals s (terminal_get_active s)) fmt args s"

definition CONFIG_LOG_LEVEL :: int where "CONFIG_LOG_LEVEL = 5"

definition kprintf_log ::
  "(nat \<Rightarrow> u8) \<Rightarrow> int \<Rightarrow> u8 list \<Rightarrow> u32 \<Rightarrow> u8 list \<Rightarrow> varg list \<Rightarrow> 'a console_state_scheme \<Rightarrow> (nat \<times> 'a console_state_scheme) option" where
  "kprintf_log font_data level prefix color fmt args s =
     (if level > CONFIG_LOG_LEVEL then Some (0, s)
      else let term = (terminals s (terminal_get_active s))\<lparr>term_color := color\<rparr> in
        Option.bind (term_puts font_data term prefix s) (\<lambda>s1.
        Option.bind (tkvprintf font_data term fmt args s1) (\<lambda>(count, s2).
        map_option (\<lambda>s3. (count, s3)) (term_putchar font_data term 0x0A s2))))"

section \<open>Printed numbers read back\<close>

definition digit_value :: "u8 \<Rightarrow> nat" where
  "digit_value c = unat (if c \<ge> 0x61 then c - 0x57 else if c \<ge> 0x41 then c - 0x37 else c - 0x30)"

definition read_number :: "nat \<Rightarrow> u8 list \<Rightarrow> nat" where
  "read_number base cs = foldl (\<lambda>n c. n * base + digit_value c) 0 cs"

definition skip_blanks :: "u8 list \<Rightarrow> u8 list" where
  "skip_blanks cs = filter (\<lambda>c. c \<noteq> 0x20) cs"

definition read_int :: "u8 list \<Rightarrow> int" where
  "read_int cs = (case skip_blanks cs of [] \<Rightarrow> 0
     | c # ds \<Rightarrow> if c = 0x2D then - int (read_number 10 ds) else int (read_number 10 (c # ds)))"

lemma less_16_cases: "d < (16::nat) \<Longrightarrow> d \<in> {0,1,2,3,4,5,6,7,8,9,10,11,12,13,14,15}"
  by simp arith

lemma digit_char_value: "d < 16 \<Longrightarrow> digit_value (digit_char up d) = d"
  using less_16_cases[of d] by (auto simp: digit_char_def digit_value_def)

lemma digit_char_visible: "d < 16 \<Longrightarrow> digit_char up d \<noteq> 0x20 \<and> digit_char up d \<noteq> 0x2D"
  using less_16_cases[of d] by (auto simp: digit_char_def)

lemma digit_loop_less: "d \<in> set (digit_loop base v) \<Longrightarrow> d < base"
  by (induction base v rule: digit_loop.induct) (subst (asm) (2) digit_loop.simps, auto split: if_splits)

lemma digit_loop_value: "2 \<le> base \<Longrightarrow> foldr (\<lambda>d n. n * base + d) (digit_loop base v) 0 = v"
  by (induction base v rule: digit_loop.induct) (subst digit_loop.simps, auto)

lemma digit_loop_length: "2 \<le> base \<Longrightarrow> v < base ^ n \<Longrightarrow> length (digit_loop base v) \<le> n"
proof (induction n arbitrary: v)
  case 0
  then show ?case by (simp add: digit_loop.simps)
next
  case (Suc n)
  then have "v div base < base ^ n" by (simp add: less_mult_imp_div_less mult.commute)
  then show ?case using Suc by (subst digit_loop.simps) simp
qed

lemma number_buf_length:
  assumes "2 \<le> base" "unat v < base ^ n" "0 < n"
  shows "length (number_buf base up v) \<le> n"
  using digit_loop_length[OF assms(1,2)] assms(3) by (simp add: number_buf_def)

lemma number_buf_visible:
  assumes "base \<le> 16" "c \<in> set (number_buf base up v)"
  shows "c \<noteq> 0x20" "c \<noteq> 0x2D"
  using assms digit_char_visible digit_loop_less[of _ base "unat v"]
  by (fastforce simp: number_buf_def split: if_splits)+

lemma number_buf_value:
  assumes "2 \<le> base" "base \<le> 16"
  shows "read_number base (rev (number_buf base up v)) = unat v"
proof (cases "v = 0")
  case True
  then show ?thesis by (simp add: number_buf_def read_number_def digit_value_def)
next
  case False
  have "foldr (\<lambda>c n. n * base + digit_value c) (map (digit_char up) (digit_loop base (unat v))) 0
        = foldr (\<lambda>d n. n * base + d) (digit_loop base (unat v)) 0"
    unfolding foldr_map using digit_loop_less[of _ base "unat v"] assms(2)
    by (intro foldr_cong refl) (metis comp_apply digit_char_value order_less_le_trans)
  then show ?thesis using False digit_loop_value[OF assms(1)]
    by (simp add: number_buf_def read_number_def foldl_conv_foldr)
qed

lemma read_number_zeros [simp]: "read_number base (replicate n 0x30 @ cs) = read_number base cs"
  by (induction n) (simp_all add: read_number_def digit_value_def)

lemma skip_blanks_simps [simp]:
  "skip_blanks (xs @ ys) = skip_blanks xs @ skip_blanks ys" "skip_blanks (replicate n 0x20) = []"
  "skip_blanks (replicate n 0x30) = replicate n 0x30" "skip_blanks [] = []" "skip_blanks [0x2D] = [0x2D]"
  by (simp_all add: skip_blanks_def)

lemma skip_blanks_number [simp]: "base \<le> 16 \<Longrightarrow> skip_blanks (rev (number_buf base up v)) = rev (number_buf base up v)"
  using number_buf_visible(1) by (auto simp: skip_blanks_def filter_id_conv)

text \<open>
  C27. Printing an unsigned number in base 2 to 16 and reading the digits back gives the number, for every
  field width and both paddings; the digits fit the 65-byte buffer of the code, and the field is exactly as wide
  as the larger of the width and the digits.
\<close>

theorem print_uint_roundtrip:
  assumes "2 \<le> base" "base \<le> 16"
  shows "read_number base (skip_blanks (print_uint_padded v base up w z l)) = unat v \<and>
         length (number_buf base up v) < 65 \<and>
         length (print_uint_padded v base up w z l) = max w (length (number_buf base up v))"
proof -
  have "unat v < 2 ^ 64" using unsigned_less[of v, where 'a = nat] by simp
  also have "2 ^ 64 \<le> base ^ 64" using assms(1) by (intro power_mono) auto
  finally have "length (number_buf base up v) \<le> 64" by (intro number_buf_length assms(1)) auto
  then show ?thesis using assms by (auto simp: print_uint_padded_def Let_def number_buf_value)
qed

theorem print_uint_roundtrip_witness:
  "read_number 16 (skip_blanks (print_uint_padded 0xBEEF 16 True 8 False False)) = unat (0xBEEF :: u64)"
  using print_uint_roundtrip[of 16 "0xBEEF" True 8 False False] by simp

lemma read_int_digits:
  assumes "skip_blanks cs = (if negative then [0x2D] else []) @ replicate n 0x30 @ rev (number_buf 10 False v)"
  shows "read_int cs = (if negative then - int (unat v) else int (unat v))"
proof -
  define ds where "ds = replicate n 0x30 @ rev (number_buf 10 False v)"
  have "rev (number_buf 10 False v) \<noteq> []" by (auto simp: number_buf_def digit_loop.simps unat_eq_0)
  then obtain d ds' where d: "ds = d # ds'" by (cases ds) (auto simp: ds_def)
  have "d \<in> set ds" using d by simp
  then have "d \<noteq> 0x2D" using number_buf_visible(2)[of 10 d False v] by (auto simp: ds_def)
  moreover have "read_number 10 ds = unat v" using number_buf_value[of 10 False v] by (simp add: ds_def)
  ultimately show ?thesis using assms d unfolding ds_def[symmetric] by (simp add: read_int_def)
qed

lemma print_int_shape:
  "\<exists>n. skip_blanks (print_int_padded v w z l) = (if sint v < 0 then [0x2D] else []) @ replicate n 0x30 @
       rev (number_buf 10 False (if sint v < 0 then - v else v))"
proof -
  have "\<exists>n. (xs :: u8 list) = replicate n 0x30 @ xs" for xs by (rule exI[of _ 0]) simp
  then show ?thesis by (simp add: print_int_padded_def Let_def)
qed

lemma uint_of_sint:
  "sint (v :: u64) < 0 \<Longrightarrow> uint (- v) = - sint v" "\<not> sint (v :: u64) < 0 \<Longrightarrow> uint v = sint v"
proof -
  have eq: "uint v = sint v mod 2 ^ 64" using uint_sint[of v] by (simp add: take_bit_eq_mod)
  have b: "- (2 ^ 63) \<le> sint v" "sint v < 2 ^ 63" using sint_ge[of v] sint_lt[of v] by simp_all
  show "uint v = sint v" if "\<not> sint v < 0"
    using that eq b(2) by simp
  show "uint (- v) = - sint v" if "sint v < 0"
  proof -
    have "uint (- v) = (- sint v) mod 2 ^ 64" using eq by (simp add: uint_word_ariths mod_minus_eq)
    also have "\<dots> = - sint v" using that b(1) by (intro mod_pos_pos_trivial) auto
    finally show ?thesis .
  qed
qed

text \<open>
  C28. Printing a signed number, the most negative one included, and reading it back gives the number, for every
  field width and both paddings; its digits fit the 21-byte buffer of the code.
\<close>

theorem print_int_roundtrip:
  "read_int (print_int_padded v w z l) = sint v \<and> length (number_buf 10 False (if sint v < 0 then - v else v)) < 21"
proof
  obtain n where "skip_blanks (print_int_padded v w z l) = (if sint v < 0 then [0x2D] else []) @ replicate n 0x30 @
       rev (number_buf 10 False (if sint v < 0 then - v else v))"
    using print_int_shape by blast
  from read_int_digits[OF this] show "read_int (print_int_padded v w z l) = sint v"
    by (auto simp: uint_of_sint)
next
  have "unat u < 10 ^ 20" for u :: u64
    using unsigned_less[of u, where 'a = nat] by (rule order_less_le_trans) simp
  then have "length (number_buf 10 False u) \<le> 20" for u by (intro number_buf_length) auto
  then show "length (number_buf 10 False (if sint v < 0 then - v else v)) < 21"
    by (rule order_le_less_trans) simp
qed

end
