(* ===== verification/Elf.thy ===== *)
theory Elf
  imports Process
begin

text \<open>
  The program loader, \<^verbatim>\<open>kernel/elf.c\<close>. The file is in a heap buffer at address \<open>data\<close>; its headers are
  read at the byte offsets of their packed declarations. Pages of the process are written through the direct map of physical memory. The
  argument and environment vectors are lists of strings, each without its terminating zero; \<open>None\<close> is \<^verbatim>\<open>NULL\<close>.
\<close>

section \<open>Headers\<close>

definition ELF_EHDR_SIZE :: u64 where "ELF_EHDR_SIZE = 64"
definition ELF_PHDR_SIZE :: u64 where "ELF_PHDR_SIZE = 56"
definition ELF_USER_TOP :: u64 where "ELF_USER_TOP = 0x800000000000"

definition get64 :: "bytes \<Rightarrow> u64 \<Rightarrow> u64" where "get64 d a = load_le d a 8"

definition e_type :: "bytes \<Rightarrow> u64 \<Rightarrow> u16" where "e_type d h = get16 d (h + 16)"
definition e_machine :: "bytes \<Rightarrow> u64 \<Rightarrow> u16" where "e_machine d h = get16 d (h + 18)"
definition e_entry :: "bytes \<Rightarrow> u64 \<Rightarrow> u64" where "e_entry d h = get64 d (h + 24)"
definition e_phoff :: "bytes \<Rightarrow> u64 \<Rightarrow> u64" where "e_phoff d h = get64 d (h + 32)"
definition e_phentsize :: "bytes \<Rightarrow> u64 \<Rightarrow> u16" where "e_phentsize d h = get16 d (h + 54)"
definition e_phnum :: "bytes \<Rightarrow> u64 \<Rightarrow> u16" where "e_phnum d h = get16 d (h + 56)"
definition ph_type :: "bytes \<Rightarrow> u64 \<Rightarrow> u32" where "ph_type d p = get32 d p"
definition ph_flags :: "bytes \<Rightarrow> u64 \<Rightarrow> u32" where "ph_flags d p = get32 d (p + 4)"
definition ph_offset :: "bytes \<Rightarrow> u64 \<Rightarrow> u64" where "ph_offset d p = get64 d (p + 8)"
definition ph_vaddr :: "bytes \<Rightarrow> u64 \<Rightarrow> u64" where "ph_vaddr d p = get64 d (p + 16)"
definition ph_filesz :: "bytes \<Rightarrow> u64 \<Rightarrow> u64" where "ph_filesz d p = get64 d (p + 32)"
definition ph_memsz :: "bytes \<Rightarrow> u64 \<Rightarrow> u64" where "ph_memsz d p = get64 d (p + 40)"

definition ET_EXEC :: u16 where "ET_EXEC = 2"
definition ET_DYN :: u16 where "ET_DYN = 3"
definition EM_X86_64 :: u16 where "EM_X86_64 = 62"
definition PT_LOAD :: u32 where "PT_LOAD = 1"
definition PF_X :: u32 where "PF_X = 1"
definition PF_W :: u32 where "PF_W = 2"

definition ALIGN_UP :: "u64 \<Rightarrow> u64 \<Rightarrow> u64" where "ALIGN_UP val align = (val + align - 1) AND NOT (align - 1)"
definition ALIGN_DOWN :: "u64 \<Rightarrow> u64 \<Rightarrow> u64" where "ALIGN_DOWN val align = val AND NOT (align - 1)"

definition elf_memset :: "u64 \<Rightarrow> u8 \<Rightarrow> u64 \<Rightarrow> 'a pmm_state_scheme \<Rightarrow> 'a pmm_state_scheme" where
  "elf_memset dst val n s = s\<lparr>mem := memset (mem s) dst val n\<rparr>"

definition elf_memcpy :: "u64 \<Rightarrow> bytes \<Rightarrow> u64 \<Rightarrow> u64 \<Rightarrow> 'a pmm_state_scheme \<Rightarrow> 'a pmm_state_scheme" where
  "elf_memcpy dst d src n s = s\<lparr>mem := fold (\<lambda>i m. m(dst + of_nat i := d (src + of_nat i))) [0..<unat n] (mem s)\<rparr>"

definition elf_validate :: "bytes \<Rightarrow> u64 \<Rightarrow> u64 \<Rightarrow> int" where
  "elf_validate d data sz =
     (if data = 0 \<or> sz < ELF_EHDR_SIZE then err EINVAL
      else if d data \<noteq> 0x7F \<or> d (data + 1) \<noteq> 0x45 \<or> d (data + 2) \<noteq> 0x4C \<or> d (data + 3) \<noteq> 0x46 then err ENOEXEC
      else if d (data + 4) \<noteq> 2 then err ENOEXEC
      else if d (data + 5) \<noteq> 1 then err ENOEXEC
      else if e_type d data \<noteq> ET_EXEC \<and> e_type d data \<noteq> ET_DYN then err ENOEXEC
      else if e_machine d data \<noteq> EM_X86_64 then err ENOEXEC
      else if ucast (e_phentsize d data) \<noteq> ELF_PHDR_SIZE then err ENOEXEC
      else if e_phoff d data + ucast (e_phnum d data) * ELF_PHDR_SIZE > sz then err ENOEXEC
      else 0)"

section \<open>Loading\<close>

record elf_info =
  ei_entry :: u64
  ei_phdr_addr :: u64
  ei_phnum :: u16
  ei_brk_start :: u64

definition segment_flags :: "u32 \<Rightarrow> u64" where
  "segment_flags p_flags =
     (let f0 = PTE_PRESENT OR PTE_USER;
          f1 = (if p_flags AND PF_W \<noteq> 0 then f0 OR PTE_WRITABLE else f0)
      in if p_flags AND PF_X = 0 then f1 OR PTE_NX else f1)"

text \<open>The page loop of a segment: \<open>n\<close> pages from \<open>vaddr\<close> on.\<close>

fun map_segment :: "u64 \<Rightarrow> nat \<Rightarrow> u64 \<Rightarrow> u64 \<Rightarrow> 'a pmm_state_scheme \<Rightarrow> int \<times> 'a pmm_state_scheme" where
  "map_segment pml4 0 vaddr pte_flags s = (0, s)"
| "map_segment pml4 (Suc n) vaddr pte_flags s =
     (if vmm_get_physical pml4 vaddr s \<noteq> 0 then map_segment pml4 n (vaddr + PAGE_SIZE) pte_flags s
      else let (phys, s1) = pmm_alloc s in
        if phys = PMM_ALLOC_FAILED then (err ENOMEM, s1)
        else let (ret, s2) = vmm_map_page pml4 vaddr phys pte_flags (elf_memset phys 0 PAGE_SIZE s1) in
          if ret < 0 then (ret, pmm_free phys s2)
          else map_segment pml4 n (vaddr + PAGE_SIZE) pte_flags s2)"

definition page_room :: "u64 \<Rightarrow> u64 \<Rightarrow> u64" where
  "page_room vaddr remaining =
     (let to_copy = PAGE_SIZE - (vaddr - ALIGN_DOWN vaddr PAGE_SIZE) in if to_copy > remaining then remaining else to_copy)"

lemma page_offset_and: "vaddr - ALIGN_DOWN vaddr PAGE_SIZE = vaddr AND (PAGE_SIZE - 1)"
proof -
  have "(vaddr AND NOT (PAGE_SIZE - 1)) + (vaddr AND (PAGE_SIZE - 1)) = (vaddr AND NOT (PAGE_SIZE - 1)) OR (vaddr AND (PAGE_SIZE - 1))"
    by (rule disjunctive_add_eq_or) (simp add: and.assoc and.left_commute[of "NOT _"])
  also have "\<dots> = vaddr" by (rule bit_eqI) (auto simp: bit_simps)
  finally show ?thesis unfolding ALIGN_DOWN_def by (metis add_diff_cancel_left')
qed

lemma page_room_pos: "0 < remaining \<Longrightarrow> 0 < page_room vaddr remaining"
proof -
  assume r: "0 < remaining"
  have "unat (vaddr AND (PAGE_SIZE - 1)) < 4096" unfolding page_offset_unat by simp
  then have "unat (PAGE_SIZE - (vaddr AND (PAGE_SIZE - 1))) = 4096 - unat (vaddr AND (PAGE_SIZE - 1))"
    by (subst unat_sub) (simp_all add: word_le_nat_alt)
  then have "0 < PAGE_SIZE - (vaddr AND (PAGE_SIZE - 1))"
    using \<open>unat (vaddr AND (PAGE_SIZE - 1)) < 4096\<close> by (simp add: word_less_nat_alt)
  then show ?thesis using r by (simp add: page_room_def page_offset_and Let_def)
qed

lemma page_room_le: "page_room vaddr remaining \<le> remaining"
  by (auto simp: page_room_def Let_def)

function copy_segment :: "bytes \<Rightarrow> u64 \<Rightarrow> u64 \<Rightarrow> u64 \<Rightarrow> u64 \<Rightarrow> 'a pmm_state_scheme \<Rightarrow> int \<times> 'a pmm_state_scheme" where
  "copy_segment d pml4 src dst_vaddr remaining s =
     (if remaining = 0 then (0, s)
      else let page_start = ALIGN_DOWN dst_vaddr PAGE_SIZE;
               page_offset = dst_vaddr - page_start;
               to_copy = page_room dst_vaddr remaining;
               phys = vmm_get_physical pml4 page_start s
           in if phys = 0 then (err EFAULT, s)
              else copy_segment d pml4 (src + to_copy) (dst_vaddr + to_copy) (remaining - to_copy)
                     (elf_memcpy (phys + page_offset) d src to_copy s))"
  by pat_completeness auto
termination
proof (relation "measure (\<lambda>(_, _, _, _, remaining, _). unat remaining)", goal_cases)
  case (2 d pml4 src dst_vaddr remaining s page_start page_offset to_copy phys)
  then have "0 < to_copy" "to_copy \<le> remaining" using page_room_pos page_room_le by (auto simp: word_gt_0)
  then have "unat (remaining - to_copy) < unat remaining" by (simp add: unat_sub word_less_nat_alt word_le_nat_alt)
  then show ?case by simp
qed auto

declare copy_segment.simps [simp del]

definition load_segment :: "bytes \<Rightarrow> u64 \<Rightarrow> u64 \<Rightarrow> u64 \<Rightarrow> u64 \<Rightarrow> elf_info \<Rightarrow> 'a pmm_state_scheme \<Rightarrow> int \<times> elf_info \<times> 'a pmm_state_scheme" where
  "load_segment d pml4 data sz phdr info s =
     (if ph_type d phdr \<noteq> PT_LOAD \<or> ph_memsz d phdr = 0 then (0, info, s)
      else if ph_vaddr d phdr \<ge> ELF_USER_TOP then (err ENOEXEC, info, s)
      else let seg_start = ALIGN_DOWN (ph_vaddr d phdr) PAGE_SIZE;
               seg_end = ALIGN_UP (ph_vaddr d phdr + ph_memsz d phdr) PAGE_SIZE;
               num_pages = (seg_end - seg_start) div PAGE_SIZE;
               (ret, s1) = map_segment pml4 (unat num_pages) seg_start (segment_flags (ph_flags d phdr)) s
      in if ret < 0 then (ret, info, s1)
      else if ph_filesz d phdr > 0 \<and> ph_offset d phdr + ph_filesz d phdr > sz then (err ENOEXEC, info, s1)
      else let (ret2, s2) = (if ph_filesz d phdr > 0
                 then copy_segment d pml4 (data + ph_offset d phdr) (ph_vaddr d phdr) (ph_filesz d phdr) s1 else (0, s1))
      in if ret2 < 0 then (ret2, info, s2)
      else let seg_high = ph_vaddr d phdr + ph_memsz d phdr;
               info1 = (if seg_high > ei_brk_start info then info\<lparr>ei_brk_start := seg_high\<rparr> else info);
               info2 = (if ei_phdr_addr info1 = 0 \<and> ph_offset d phdr = 0 \<and>
                           ph_filesz d phdr \<ge> e_phoff d data + ucast (e_phnum d data) * ELF_PHDR_SIZE
                        then info1\<lparr>ei_phdr_addr := ph_vaddr d phdr + e_phoff d data\<rparr> else info1)
           in (0, info2, s2))"

fun load_segments :: "bytes \<Rightarrow> u64 \<Rightarrow> u64 \<Rightarrow> u64 \<Rightarrow> nat \<Rightarrow> u64 \<Rightarrow> elf_info \<Rightarrow> 'a pmm_state_scheme \<Rightarrow> int \<times> elf_info \<times> 'a pmm_state_scheme" where
  "load_segments d pml4 data sz 0 phdr info s = (0, info, s)"
| "load_segments d pml4 data sz (Suc n) phdr info s =
     (let (ret, info1, s1) = load_segment d pml4 data sz phdr info s in
      if ret < 0 then (ret, info1, s1) else load_segments d pml4 data sz n (phdr + ELF_PHDR_SIZE) info1 s1)"

definition elf_load :: "u64 \<Rightarrow> u64 \<Rightarrow> u64 \<Rightarrow> elf_info option \<Rightarrow> 'a process_state_scheme \<Rightarrow> int \<times> elf_info option \<times> 'a process_state_scheme" where
  "elf_load proc data sz info s =
     (if proc = 0 \<or> data = 0 \<or> info = None then (err EINVAL, info, s)
      else let d = hmem s; ret = elf_validate d data sz in
      if ret < 0 then (ret, info, s)
      else let info0 = \<lparr>ei_entry = e_entry d data, ei_phdr_addr = 0, ei_phnum = e_phnum d data, ei_brk_start = 0\<rparr>;
               (ret2, info1, s1) = load_segments d (p_pml4_phys (procs s proc)) data sz (unat (e_phnum d data)) (data + e_phoff d data) info0 s
           in if ret2 < 0 then (ret2, Some info1, s1)
              else (0, Some (info1\<lparr>ei_brk_start := ALIGN_UP (ei_brk_start info1) PAGE_SIZE\<rparr>), s1))"

section \<open>The initial stack\<close>

definition AT_NULL :: u64 where "AT_NULL = 0"
definition AT_PHDR :: u64 where "AT_PHDR = 3"
definition AT_PHENT :: u64 where "AT_PHENT = 4"
definition AT_PHNUM :: u64 where "AT_PHNUM = 5"
definition AT_PAGESZ :: u64 where "AT_PAGESZ = 6"
definition AT_ENTRY :: u64 where "AT_ENTRY = 9"
definition AT_RANDOM :: u64 where "AT_RANDOM = 25"

fun map_stack :: "u64 \<Rightarrow> nat \<Rightarrow> u64 \<Rightarrow> 'a pmm_state_scheme \<Rightarrow> bool \<times> 'a pmm_state_scheme" where
  "map_stack pml4 0 stop s = (True, s)"
| "map_stack pml4 (Suc n) stop s =
     (let vaddr = stop - PAGE_SIZE; (phys, s1) = pmm_alloc s in
      if phys = PMM_ALLOC_FAILED then (False, s1)
      else let (ret, s2) = vmm_map_page pml4 vaddr phys (PTE_PRESENT OR PTE_WRITABLE OR PTE_USER OR PTE_NX) (elf_memset phys 0 PAGE_SIZE s1) in
        if ret < 0 then (False, pmm_free phys s2) else map_stack pml4 n vaddr s2)"

fun put_bytes :: "u64 \<Rightarrow> u64 \<Rightarrow> u8 list \<Rightarrow> 'a pmm_state_scheme \<Rightarrow> bool \<times> 'a pmm_state_scheme" where
  "put_bytes pml4 a [] s = (True, s)"
| "put_bytes pml4 a (c # cs) s =
     (let phys = vmm_get_physical pml4 (ALIGN_DOWN a PAGE_SIZE) s in
      if phys = 0 then (False, s)
      else put_bytes pml4 (a + 1) cs (s\<lparr>mem := (mem s)(phys + (a AND (PAGE_SIZE - 1)) := c)\<rparr>))"

text \<open>The strings of a vector one after the other: their addresses and the address after the last.\<close>

fun put_strings :: "u64 \<Rightarrow> u64 \<Rightarrow> u8 list list \<Rightarrow> 'a pmm_state_scheme \<Rightarrow> bool \<times> u64 list \<times> u64 \<times> 'a pmm_state_scheme" where
  "put_strings pml4 str_ptr [] s = (True, [], str_ptr, s)"
| "put_strings pml4 str_ptr (str # strs) s =
     (let (ok, s1) = put_bytes pml4 str_ptr (str @ [0]) s in
      if \<not> ok then (False, [], str_ptr, s1)
      else let (ok', ptrs, str_ptr', s2) = put_strings pml4 (str_ptr + of_nat (length str + 1)) strs s1
           in (ok', str_ptr # ptrs, str_ptr', s2))"

fun push_u64s :: "u64 \<Rightarrow> u64 list \<Rightarrow> u64 \<Rightarrow> 'a pmm_state_scheme \<Rightarrow> bool \<times> u64 \<times> 'a pmm_state_scheme" where
  "push_u64s pml4 [] sp s = (True, sp, s)"
| "push_u64s pml4 (val # vals) sp s =
     (let sp1 = sp - 8; ph = vmm_get_physical pml4 (ALIGN_DOWN sp1 PAGE_SIZE) s in
      if ph = 0 then (False, sp1, s)
      else push_u64s pml4 vals sp1 (s\<lparr>mem := store64 (mem s) (ph + (sp1 AND (PAGE_SIZE - 1))) val\<rparr>))"

definition strings_size :: "u8 list list \<Rightarrow> u64" where
  "strings_size strs = of_nat (sum_list (map (\<lambda>str. length str + 1) strs))"

definition put_random :: "u64 \<Rightarrow> u64 \<Rightarrow> 'a pmm_state_scheme \<Rightarrow> 'a pmm_state_scheme" where
  "put_random pml4 random_addr s =
     (let phys = vmm_get_physical pml4 (ALIGN_DOWN random_addr PAGE_SIZE) s in
      if phys = 0 then s
      else s\<lparr>mem := fold (\<lambda>i m. m(phys + (random_addr AND (PAGE_SIZE - 1)) + of_nat i :=
                        ucast (drop_bit (i mod 8) random_addr XOR of_nat (i * 17)))) [0..<16] (mem s)\<rparr>)"

definition stack_words :: "elf_info \<Rightarrow> u64 \<Rightarrow> u64 list \<Rightarrow> u64 list \<Rightarrow> u64 list" where
  "stack_words info random_addr argv_ptrs envp_ptrs =
     [0, AT_NULL, random_addr, AT_RANDOM, ei_entry info, AT_ENTRY, ucast (ei_phnum info), AT_PHNUM, ELF_PHDR_SIZE, AT_PHENT]
     @ (if ei_phdr_addr info \<noteq> 0 then [ei_phdr_addr info, AT_PHDR] else [])
     @ [PAGE_SIZE, AT_PAGESZ] @ rev (envp_ptrs @ [0]) @ rev (argv_ptrs @ [0]) @ [of_nat (length argv_ptrs)]"

definition elf_setup_stack ::
  "u64 \<Rightarrow> u8 list list option \<Rightarrow> u8 list list option \<Rightarrow> elf_info option \<Rightarrow> 'a process_state_scheme \<Rightarrow> u64 \<times> 'a process_state_scheme" where
  "elf_setup_stack proc argv envp info s =
     (case (argv, info) of
        (Some args, Some inf0) \<Rightarrow>
          if proc = 0 then (0, s)
          else let pml4 = p_pml4_phys (procs s proc);
                   envs = (case envp of None \<Rightarrow> [] | Some envs \<Rightarrow> envs);
                   (ok, s1) = map_stack pml4 (unat (USER_STACK_SIZE div PAGE_SIZE)) USER_STACK_TOP s
          in if \<not> ok then (0, s1)
          else let strings_base = ALIGN_DOWN (USER_STACK_TOP - strings_size (args @ envs)) 8;
                   (ok2, argv_ptrs, str_ptr, s2) = put_strings pml4 strings_base args s1
          in if \<not> ok2 then (0, s2)
          else let (ok3, envp_ptrs, _, s3) = put_strings pml4 str_ptr envs s2
          in if \<not> ok3 then (0, s3)
          else let random_addr = ALIGN_DOWN (strings_base - 16) 16;
                   s4 = put_random pml4 random_addr s3;
                   (ok4, sp, s5) = push_u64s pml4 (stack_words inf0 random_addr argv_ptrs envp_ptrs) (ALIGN_DOWN random_addr 16) s4
          in (if ok4 then sp else 0, s5)
      | _ \<Rightarrow> (0, s))"

end
