(* ===== verification/Syscall.thy ===== *)
theory Syscall
  imports Interrupt Elf
begin

text \<open>
  System calls, \<^verbatim>\<open>arch/x86/kernel/syscall.c\<close> and \<^verbatim>\<open>arch/x86/kernel/syscall_entry.S\<close>.

  A handler takes its arguments and the state; \<open>None\<close> is a call that does not return, because it
  waits forever, follows a damaged list or touches user memory that is not mapped. \<open>Halted\<close> is the state
  in which an exiting process leaves the halted processor.

  \<open>config\<close> collects what the code takes from elsewhere: the font, the interrupts that arrive while the kernel waits, and the
  addresses of the entry points in assembly.
\<close>

section \<open>State\<close>

datatype syscall_fn = Sys_ni | Sys_read | Sys_write | Sys_exit | Sys_getpid | Sys_brk | Sys_mmap | Sys_munmap
  | Sys_arch_prctl | Sys_getppid | Sys_uname | Sys_wait4 | Sys_fork | Sys_open | Sys_close

record syscall_state = process_state +
  syscall_table :: "syscall_fn list"

record 's config =
  font_data :: "nat \<Rightarrow> u8"
  irqs :: "nat \<Rightarrow> 's \<Rightarrow> 's"
  syscall_entry_addr :: u64
  trampoline_addr :: u64
  fork_child_addr :: u64

datatype 's sys_result = Ret int 's | Halted 's

definition NR_SYSCALLS :: nat where "NR_SYSCALLS = 512"
definition MSR_EFER :: u32 where "MSR_EFER = 0xC0000080"
definition MSR_STAR :: u32 where "MSR_STAR = 0xC0000081"
definition MSR_LSTAR :: u32 where "MSR_LSTAR = 0xC0000082"
definition MSR_SFMASK :: u32 where "MSR_SFMASK = 0xC0000084"
definition EFER_SCE :: u64 where "EFER_SCE = 1"
definition RFLAGS_DF :: u64 where "RFLAGS_DF = 0x400"
definition RFLAGS_TF :: u64 where "RFLAGS_TF = 0x100"
definition RFLAGS_AC :: u64 where "RFLAGS_AC = 0x40000"
definition USER_RFLAGS_ALLOWED :: u64 where "USER_RFLAGS_ALLOWED = 0xED5"
definition USER_RFLAGS_REQUIRED :: u64 where "USER_RFLAGS_REQUIRED = 0x202"
definition PATH_MAX :: u64 where "PATH_MAX = 256"
definition PROT_WRITE :: u64 where "PROT_WRITE = 2"
definition PROT_EXEC :: u64 where "PROT_EXEC = 4"
definition MAP_FIXED :: u64 where "MAP_FIXED = 0x10"
definition MAP_ANONYMOUS :: u64 where "MAP_ANONYMOUS = 0x20"
definition WNOHANG :: u64 where "WNOHANG = 1"
definition ARCH_SET_GS :: u64 where "ARCH_SET_GS = 0x1001"
definition ARCH_SET_FS :: u64 where "ARCH_SET_FS = 0x1002"
definition ARCH_GET_FS :: u64 where "ARCH_GET_FS = 0x1003"
definition ARCH_GET_GS :: u64 where "ARCH_GET_GS = 0x1004"
definition SIZEOF_UTSNAME :: u64 where "SIZEOF_UTSNAME = 325"

definition sanitize_user_rflags :: "u64 \<Rightarrow> u64" where
  "sanitize_user_rflags rf = (rf AND USER_RFLAGS_ALLOWED) OR USER_RFLAGS_REQUIRED"

definition W_EXITCODE :: "int \<Rightarrow> u32" where
  "W_EXITCODE code = push_bit 8 (word_of_int code AND 0xFF)"

text \<open>The operation tables of the open files, with the configuration's font and interrupts.\<close>

definition sys_ops :: "'a syscall_state_scheme config \<Rightarrow> ops_ptr \<Rightarrow> 'a syscall_state_scheme file_ops" where
  "sys_ops cfg = ops_table (font_data cfg) (irqs cfg)"

section \<open>User memory\<close>

fun copy_string_loop :: "nat \<Rightarrow> u64 \<Rightarrow> 'a vmm_state_scheme \<Rightarrow> (bool \<times> u8 list) option" where
  "copy_string_loop 0 a s = Some (False, [])"
| "copy_string_loop (Suc n) a s =
     Option.bind (user_load8 a s) (\<lambda>c.
       if c = 0 then Some (True, [])
       else map_option (\<lambda>(ended, cs). (ended, c # cs)) (copy_string_loop n (a + 1) s))"

definition copy_string_from_user :: "u64 \<Rightarrow> u64 \<Rightarrow> 'a vmm_state_scheme \<Rightarrow> (int + u8 list) option" where
  "copy_string_from_user src max_len s =
     (if max_len = 0 then Some (Inl (err EINVAL))
      else if \<not> vmm_validate_user_range src 1 then Some (Inl (err EFAULT))
      else let room = USER_SPACE_TOP - src;
               safe_max = (if room > max_len then max_len else room)
      in map_option (\<lambda>(ended, str).
           if ended then Inr str else if safe_max < max_len then Inl (err EFAULT) else Inl (err ENAMETOOLONG))
         (copy_string_loop (unat safe_max) src s))"

definition user_store64 :: "u64 \<Rightarrow> u64 \<Rightarrow> 'a vmm_state_scheme \<Rightarrow> 'a vmm_state_scheme option" where
  "user_store64 a v s = user_store a (map (\<lambda>i. ucast (drop_bit (8 * i) v)) [0..<8]) s"

definition user_store32 :: "u64 \<Rightarrow> u32 \<Rightarrow> 'a vmm_state_scheme \<Rightarrow> 'a vmm_state_scheme option" where
  "user_store32 a v s = user_store a (map (\<lambda>i. ucast (drop_bit (8 * i) v)) [0..<4]) s"

section \<open>Files\<close>

definition fd_lookup :: "u64 \<Rightarrow> u64 \<Rightarrow> 'a process_state_scheme \<Rightarrow> u64" where
  "fd_lookup proc fd s = (if fd \<ge> of_nat PROC_MAX_FDS then 0 else fd_file (p_fd_table (procs s proc) ! unat fd))"

definition sys_read :: "'a syscall_state_scheme config \<Rightarrow> u64 \<Rightarrow> u64 \<Rightarrow> u64 \<Rightarrow> 'a syscall_state_scheme \<Rightarrow> (int \<times> 'a syscall_state_scheme) option" where
  "sys_read cfg fd buf count s =
     (let proc = process_current s in
      if proc = 0 then Some (err EBADF, s)
      else if fd_lookup proc fd s = 0 then Some (err EBADF, s)
      else if count = 0 then Some (0, s)
      else Option.bind (vmm_user_range_writable (p_pml4_phys (procs s proc)) buf count s) (\<lambda>ok.
        if \<not> ok then Some (err EFAULT, s) else vfs_read (sys_ops cfg) (fd_lookup proc fd s) buf count s))"

definition sys_write :: "'a syscall_state_scheme config \<Rightarrow> u64 \<Rightarrow> u64 \<Rightarrow> u64 \<Rightarrow> 'a syscall_state_scheme \<Rightarrow> (int \<times> 'a syscall_state_scheme) option" where
  "sys_write cfg fd buf count s =
     (let proc = process_current s in
      if proc = 0 then Some (err EBADF, s)
      else if fd_lookup proc fd s = 0 then Some (err EBADF, s)
      else if count = 0 then Some (0, s)
      else Option.bind (vmm_user_range_readable (p_pml4_phys (procs s proc)) buf count s) (\<lambda>ok.
        if \<not> ok then Some (err EFAULT, s) else vfs_write (sys_ops cfg) (fd_lookup proc fd s) buf count s))"

definition install_fd :: "u64 \<Rightarrow> nat \<Rightarrow> u64 \<Rightarrow> 'a process_state_scheme \<Rightarrow> 'a process_state_scheme" where
  "install_fd proc fd file s = upd_proc proc (\<lambda>p. p\<lparr>p_fd_table := (p_fd_table p)[fd := \<lparr>fd_file = file, fd_flags = 0\<rparr>]\<rparr>) s"

definition open_inode :: "'a syscall_state_scheme config \<Rightarrow> u64 \<Rightarrow> u32 \<Rightarrow> u64 \<Rightarrow> u64 \<Rightarrow> 'a syscall_state_scheme \<Rightarrow> (int \<times> 'a syscall_state_scheme) option" where
  "open_inode cfg proc ino inode flags s =
     (let fd = process_fd_alloc proc s in
      if fd < 0 then Some (err EMFILE, s)
      else Option.bind (vfs_file_alloc s) (\<lambda>(file, s1).
        if file = 0 then Some (err ENOMEM, process_fd_free proc fd s1)
        else Option.bind (kmalloc SIZEOF_EXT2_PRIVATE s1) (\<lambda>(priv, s2).
          if priv = 0 then Some (err ENOMEM, process_fd_free proc fd (snd (vfs_close (sys_ops cfg) file s2)))
          else let s3 = s2\<lparr>ext2_privates := (ext2_privates s2)(priv :=
                        \<lparr>ep_inode_num = ino, ep_inode = inode, ep_size = ext2_get_file_size (hhdm s2) inode\<rparr>)\<rparr>;
                   s4 = upd_file file (\<lambda>f. f\<lparr>vf_type := VFS_TYPE_REG, vf_flags := ucast flags, vf_offset := 0,
                        vf_ops := Some Ext2_file_ops, vf_private := Private_ext2 priv\<rparr>) s3
               in Some (fd, install_fd proc (nat fd) file s4))))"

definition sys_open :: "'a syscall_state_scheme config \<Rightarrow> u64 \<Rightarrow> u64 \<Rightarrow> 'a syscall_state_scheme \<Rightarrow> (int \<times> 'a syscall_state_scheme) option" where
  "sys_open cfg pathname flags s =
     (let proc = process_current s in
      if proc = 0 then Some (err ESRCH, s)
      else Option.bind (copy_string_from_user pathname PATH_MAX s) (\<lambda>r. case r of
        Inl e \<Rightarrow> Some (e, s)
      | Inr path \<Rightarrow>
          Option.bind (ext2_lookup (hhdm s) (fs s) (Some path)) (\<lambda>ino.
          if ino = 0 then Some (err ENOENT, s)
          else Option.bind (ext2_read_inode (hhdm s) (fs s) ino) (\<lambda>inode.
            if inode = 0 then Some (err EIO, s)
            else if \<not> ext2_is_regular_file (hhdm s) inode then Some (err EISDIR, s)
            else open_inode cfg proc ino inode flags s))))"

definition sys_close :: "'a syscall_state_scheme config \<Rightarrow> u64 \<Rightarrow> 'a syscall_state_scheme \<Rightarrow> (int \<times> 'a syscall_state_scheme) option" where
  "sys_close cfg fd s =
     (let proc = process_current s in
      if proc = 0 then Some (err ESRCH, s)
      else if fd_lookup proc fd s = 0 then Some (err EBADF, s)
      else let s1 = snd (vfs_close (sys_ops cfg) (fd_lookup proc fd s) s)
           in Some (0, install_fd proc (unat fd) 0 s1))"

section \<open>Memory\<close>

fun brk_grow :: "u64 \<Rightarrow> nat \<Rightarrow> u64 \<Rightarrow> 'a pmm_state_scheme \<Rightarrow> bool \<times> 'a pmm_state_scheme" where
  "brk_grow pml4 0 page s = (True, s)"
| "brk_grow pml4 (Suc n) page s =
     (let (phys, s1) = pmm_alloc s in
      if phys = PMM_ALLOC_FAILED then (False, s1)
      else let s2 = s1\<lparr>mem := memset (mem s1) phys 0 PAGE_SIZE\<rparr>;
               (ret, s3) = vmm_map_page pml4 (page * PAGE_SIZE) phys (PTE_PRESENT OR PTE_WRITABLE OR PTE_USER) s2
           in if ret < 0 then (False, pmm_free phys s3) else brk_grow pml4 n (page + 1) s3)"

definition release_page :: "u64 \<Rightarrow> u64 \<Rightarrow> 'a pmm_state_scheme \<Rightarrow> 'a pmm_state_scheme" where
  "release_page pml4 vaddr s =
     (let phys = vmm_get_physical pml4 vaddr s in
      if phys \<noteq> 0 then pmm_free phys (snd (vmm_unmap_page pml4 vaddr s)) else s)"

definition sys_brk :: "u64 \<Rightarrow> 'a process_state_scheme \<Rightarrow> int \<times> 'a process_state_scheme" where
  "sys_brk new_brk s =
     (let proc = process_current s; p = procs s proc in
      if proc = 0 then (err ESRCH, s)
      else if new_brk = 0 \<or> new_brk < p_brk_start p then (sint (p_brk p), s)
      else let old_brk = p_brk p;
               old_pages = (old_brk + PAGE_SIZE - 1) div PAGE_SIZE;
               new_pages = (new_brk + PAGE_SIZE - 1) div PAGE_SIZE;
               (ok, s1) = (if new_pages > old_pages then brk_grow (p_pml4_phys p) (unat (new_pages - old_pages)) old_pages s
                           else (True, for_u64 (old_pages - new_pages) (\<lambda>i. release_page (p_pml4_phys p) ((new_pages + i) * PAGE_SIZE)) s))
           in if \<not> ok then (sint old_brk, s1)
              else (sint new_brk, upd_proc proc (\<lambda>p. p\<lparr>p_brk := new_brk\<rparr>) s1))"

definition mmap_undo :: "u64 \<Rightarrow> u64 \<Rightarrow> u64 \<Rightarrow> 'a pmm_state_scheme \<Rightarrow> 'a pmm_state_scheme" where
  "mmap_undo pml4 map_addr i s =
     for_u64 i (\<lambda>j s. let v = map_addr + j * PAGE_SIZE; p = vmm_get_physical pml4 v s; s1 = snd (vmm_unmap_page pml4 v s)
                     in if p \<noteq> 0 then pmm_free p s1 else s1) s"

fun mmap_pages :: "u64 \<Rightarrow> nat \<Rightarrow> u64 \<Rightarrow> u64 \<Rightarrow> u64 \<Rightarrow> 'a pmm_state_scheme \<Rightarrow> bool \<times> 'a pmm_state_scheme" where
  "mmap_pages pml4 0 map_addr i page_flags s = (True, s)"
| "mmap_pages pml4 (Suc n) map_addr i page_flags s =
     (let (phys, s1) = pmm_alloc s in
      if phys = PMM_ALLOC_FAILED then (False, mmap_undo pml4 map_addr i s1)
      else let s2 = s1\<lparr>mem := memset (mem s1) phys 0 PAGE_SIZE\<rparr>;
               (ret, s3) = vmm_map_page pml4 (map_addr + i * PAGE_SIZE) phys page_flags s2
           in if ret < 0 then (False, mmap_undo pml4 map_addr i (pmm_free phys s3))
              else mmap_pages pml4 n map_addr (i + 1) page_flags s3)"

definition prot_flags :: "u64 \<Rightarrow> u64" where
  "prot_flags prot =
     (let f0 = PTE_PRESENT OR PTE_USER;
          f1 = (if prot AND PROT_WRITE \<noteq> 0 then f0 OR PTE_WRITABLE else f0)
      in if prot AND PROT_EXEC = 0 then f1 OR PTE_NX else f1)"

definition sys_mmap :: "u64 \<Rightarrow> u64 \<Rightarrow> u64 \<Rightarrow> u64 \<Rightarrow> u64 \<Rightarrow> 'a process_state_scheme \<Rightarrow> int \<times> 'a process_state_scheme" where
  "sys_mmap addr len prot flags fd s =
     (let proc = process_current s in
      if proc = 0 then (err ESRCH, s)
      else if len = 0 then (err EINVAL, s)
      else if flags AND MAP_ANONYMOUS = 0 \<or> fd \<noteq> -1 then (err ENOSYS, s)
      else let num_pages = (len + PAGE_SIZE - 1) div PAGE_SIZE;
               fixed = (addr \<noteq> 0 \<and> flags AND MAP_FIXED \<noteq> 0)
      in if fixed \<and> addr AND (PAGE_SIZE - 1) \<noteq> 0 then (err EINVAL, s)
      else let (map_addr, s1) = (if fixed then (addr, s) else (mmap_next s, s\<lparr>mmap_next := mmap_next s + num_pages * PAGE_SIZE\<rparr>));
               (ok, s2) = mmap_pages (p_pml4_phys (procs s1 proc)) (unat num_pages) map_addr 0 (prot_flags prot) s1
           in (if ok then sint map_addr else err ENOMEM, s2))"

definition sys_munmap :: "u64 \<Rightarrow> u64 \<Rightarrow> 'a process_state_scheme \<Rightarrow> int \<times> 'a process_state_scheme" where
  "sys_munmap addr len s =
     (let proc = process_current s in
      if proc = 0 then (err ESRCH, s)
      else if addr AND (PAGE_SIZE - 1) \<noteq> 0 \<or> len = 0 then (err EINVAL, s)
      else let num_pages = (len + PAGE_SIZE - 1) div PAGE_SIZE
           in (0, for_u64 num_pages (\<lambda>i. release_page (p_pml4_phys (procs s proc)) (addr + i * PAGE_SIZE)) s))"

section \<open>Identity and thread state\<close>

definition sys_getpid :: "'a process_state_scheme \<Rightarrow> int" where
  "sys_getpid s = (let proc = process_current s in if proc \<noteq> 0 then sint (p_pid (procs s proc)) else 0)"

definition sys_getppid :: "'a process_state_scheme \<Rightarrow> int" where
  "sys_getppid s =
     (let proc = process_current s; parent = p_parent (procs s proc) in
      if proc = 0 then 0 else if parent \<noteq> 0 then sint (p_pid (procs s parent)) else 0)"

definition get_segment_base :: "u64 \<Rightarrow> u64 \<Rightarrow> u64 \<Rightarrow> 'a process_state_scheme \<Rightarrow> (int \<times> 'a process_state_scheme) option" where
  "get_segment_base pml4 addr base s =
     (if \<not> vmm_validate_user_range addr 8 then Some (err EFAULT, s)
      else Option.bind (vmm_user_range_writable pml4 addr 8 s) (\<lambda>ok.
        if \<not> ok then Some (err EFAULT, s) else map_option (\<lambda>s1. (0, s1)) (user_store64 addr base s)))"

definition sys_arch_prctl :: "u64 \<Rightarrow> u64 \<Rightarrow> 'a process_state_scheme \<Rightarrow> (int \<times> 'a process_state_scheme) option" where
  "sys_arch_prctl code addr s =
     (let proc = process_current s; p = procs s proc in
      if proc = 0 then Some (err ESRCH, s)
      else if code = ARCH_SET_FS
      then if \<not> canonical_addr addr then Some (err EINVAL, s)
           else Some (0, wrmsr MSR_FS_BASE addr (upd_proc proc (\<lambda>p. p\<lparr>p_fs_base := addr\<rparr>) s))
      else if code = ARCH_GET_FS then get_segment_base (p_pml4_phys p) addr (p_fs_base p) s
      else if code = ARCH_SET_GS
      then if \<not> canonical_addr addr then Some (err EINVAL, s)
           else Some (0, wrmsr MSR_KERNEL_GS_BASE addr (upd_proc proc (\<lambda>p. p\<lparr>p_gs_base := addr\<rparr>) s))
      else if code = ARCH_GET_GS then get_segment_base (p_pml4_phys p) addr (p_gs_base p) s
      else Some (err EINVAL, s))"

text \<open>The strings of \<^verbatim>\<open>struct utsname\<close>: \<^verbatim>\<open>SeedOS\<close>, \<^verbatim>\<open>seed\<close>, \<^verbatim>\<open>0.1.0\<close>, \<^verbatim>\<open>#1 SMP\<close> and \<^verbatim>\<open>x86_64\<close>, each in a field of 65 bytes.\<close>

definition utsname_strings :: "u8 list list" where
  "utsname_strings =
     [[0x53, 0x65, 0x65, 0x64, 0x4F, 0x53], [0x73, 0x65, 0x65, 0x64], [0x30, 0x2E, 0x31, 0x2E, 0x30],
      [0x23, 0x31, 0x20, 0x53, 0x4D, 0x50], [0x78, 0x38, 0x36, 0x5F, 0x36, 0x34]]"

definition syscall_strncpy :: "u64 \<Rightarrow> u8 list \<Rightarrow> nat \<Rightarrow> 'a vmm_state_scheme \<Rightarrow> 'a vmm_state_scheme option" where
  "syscall_strncpy dst src n s = user_store dst (take (n - 1) src @ [0]) s"

fun put_utsname :: "u64 \<Rightarrow> u8 list list \<Rightarrow> 'a vmm_state_scheme \<Rightarrow> 'a vmm_state_scheme option" where
  "put_utsname a [] s = Some s"
| "put_utsname a (str # strs) s = Option.bind (syscall_strncpy a str 65 s) (put_utsname (a + 65) strs)"

definition sys_uname :: "u64 \<Rightarrow> 'a process_state_scheme \<Rightarrow> (int \<times> 'a process_state_scheme) option" where
  "sys_uname buf s =
     (let proc = process_current s in
      if proc = 0 then Some (err ESRCH, s)
      else Option.bind (vmm_user_range_writable (p_pml4_phys (procs s proc)) buf SIZEOF_UTSNAME s) (\<lambda>ok.
        if \<not> ok then Some (err EFAULT, s) else map_option (\<lambda>s1. (0, s1)) (put_utsname buf utsname_strings s)))"

end
