(* ===== verification/Syscall_Proc.thy ===== *)
theory Syscall_Proc
  imports Syscall
begin

text \<open>
  The system calls that create, end and wait for processes, the dispatch of a call and its entry and exit
  path, \<^verbatim>\<open>arch/x86/kernel/syscall.c\<close> and \<^verbatim>\<open>arch/x86/kernel/syscall_entry.S\<close>.
\<close>

section \<open>Exit and wait\<close>

definition sys_exit :: "u64 \<Rightarrow> 'a process_state_scheme \<Rightarrow> 'a process_state_scheme option" where
  "sys_exit status s =
     (if process_current s \<noteq> 0 then map_option snd (process_exit (sint (ucast status :: u32)) s) else Some s)"

partial_function (option) zombie_loop :: "int \<Rightarrow> u64 \<Rightarrow> 'a process_state_scheme \<Rightarrow> u64 option" where
  [code]: "zombie_loop pid child s =
     (if child = 0 then Some 0
      else let c = procs s child in
        if pid > 0 \<and> sint (p_pid c) \<noteq> pid then zombie_loop pid (p_sibling c) s
        else if p_state c = PROC_ZOMBIE then Some child
        else zombie_loop pid (p_sibling c) s)"

definition find_zombie_child :: "u64 \<Rightarrow> int \<Rightarrow> 'a process_state_scheme \<Rightarrow> u64 option" where
  "find_zombie_child parent pid s = zombie_loop pid (p_children (procs s parent)) s"

partial_function (option) matching_loop :: "int \<Rightarrow> u64 \<Rightarrow> 'a process_state_scheme \<Rightarrow> bool option" where
  [code]: "matching_loop pid child s =
     (if child = 0 then Some False
      else if pid = -1 \<or> pid > 0 \<and> sint (p_pid (procs s child)) = pid then Some True
      else matching_loop pid (p_sibling (procs s child)) s)"

definition has_matching_children :: "u64 \<Rightarrow> int \<Rightarrow> 'a process_state_scheme \<Rightarrow> bool option" where
  "has_matching_children parent pid s = matching_loop pid (p_children (procs s parent)) s"

text \<open>
  The wait: \<open>irq n\<close> is what the interrupts do to the state during the \<open>n\<close>-th halt; the number of the next one
  is threaded through.
\<close>

partial_function (option) wait_halted ::
  "(nat \<Rightarrow> 'a process_state_scheme \<Rightarrow> 'a process_state_scheme) \<Rightarrow> nat \<Rightarrow> u64 \<Rightarrow> 'a process_state_scheme \<Rightarrow> (nat \<times> 'a process_state_scheme) option" where
  [code]: "wait_halted irq n proc s =
     (if p_state (procs s proc) = PROC_SLEEPING
      then wait_halted irq (n + 1) proc (cpu_disable_interrupts (irq n (cpu_enable_interrupts s)))
      else Some (n, s))"

definition reap_child ::
  "(ops_ptr \<Rightarrow> 'a process_state_scheme file_ops) \<Rightarrow> u64 \<Rightarrow> u64 \<Rightarrow> 'a process_state_scheme \<Rightarrow> (int \<times> 'a process_state_scheme) option" where
  "reap_child tbl child wstatus s =
     (let child_pid = p_pid (procs s child); status = W_EXITCODE (p_exit_code (procs s child)) in
      Option.bind (if wstatus \<noteq> 0 then user_store32 wstatus status s else Some s) (\<lambda>s1.
      map_option (\<lambda>s2. (sint child_pid, s2)) (process_destroy tbl child s1)))"

partial_function (option) wait_loop ::
  "(ops_ptr \<Rightarrow> 'a process_state_scheme file_ops) \<Rightarrow> (nat \<Rightarrow> 'a process_state_scheme \<Rightarrow> 'a process_state_scheme) \<Rightarrow> nat \<Rightarrow>
   u64 \<Rightarrow> int \<Rightarrow> u64 \<Rightarrow> u64 \<Rightarrow> 'a process_state_scheme \<Rightarrow> (int \<times> 'a process_state_scheme) option" where
  [code]: "wait_loop tbl irq n proc wait_pid wstatus options s =
     Option.bind (find_zombie_child proc wait_pid s) (\<lambda>child.
     if child \<noteq> 0 then reap_child tbl child wstatus s
     else Option.bind (has_matching_children proc wait_pid s) (\<lambda>any.
       if \<not> any then Some (err ECHILD, s)
       else if options AND WNOHANG \<noteq> 0 then Some (0, s)
       else Option.bind (wait_halted irq n proc
              (upd_proc proc (\<lambda>p. p\<lparr>p_wait_pid := sint (word_of_int wait_pid :: u32), p_state := PROC_SLEEPING\<rparr>) s))
            (\<lambda>(n1, s1). wait_loop tbl irq n1 proc wait_pid wstatus options s1)))"

definition sys_wait4 ::
  "'a syscall_state_scheme config \<Rightarrow> u64 \<Rightarrow> u64 \<Rightarrow> u64 \<Rightarrow> 'a syscall_state_scheme \<Rightarrow> (int \<times> 'a syscall_state_scheme) option" where
  "sys_wait4 cfg pid wstatus options s =
     (let proc = process_current s in
      if proc = 0 then Some (err ESRCH, s)
      else Option.bind (if wstatus = 0 then Some True else vmm_user_range_writable (p_pml4_phys (procs s proc)) wstatus 4 s) (\<lambda>ok.
        if \<not> ok then Some (err EFAULT, s)
        else wait_loop (sys_ops cfg) (irqs cfg) 0 proc (sint pid) wstatus options s))"

section \<open>Fork\<close>

definition sys_fork :: "'a syscall_state_scheme config \<Rightarrow> 'a syscall_state_scheme \<Rightarrow> (int \<times> 'a syscall_state_scheme) option" where
  "sys_fork cfg s =
     (let parent = process_current s in
      if parent = 0 then Some (err ESRCH, s)
      else Option.bind (kmalloc SIZEOF_PROCESS s) (\<lambda>(child, s1).
      if child = 0 then Some (err ENOMEM, s1)
      else let s2 = upd_proc child (\<lambda>_. procs s1 parent) s1 in
      Option.bind (kmalloc KERNEL_STACK_SIZE s2) (\<lambda>(kernel_stack, s3).
      if kernel_stack = 0 then Some (err ENOMEM, kfree child s3)
      else let s4 = upd_proc child (\<lambda>p. p\<lparr>p_kernel_stack_top := kernel_stack + KERNEL_STACK_SIZE\<rparr>) s3;
               (pml4, s5) = vmm_copy_address_space_cow (p_pml4_phys (procs s4 parent)) s4
      in if pml4 = 0 then Some (err ENOMEM, kfree child (kfree kernel_stack s5))
      else let (pid, s6) = process_allocate_pid (upd_proc child (\<lambda>p. p\<lparr>p_pml4_phys := pml4\<rparr>) s5);
               s7 = upd_proc child (\<lambda>p. p\<lparr>p_pid := pid, p_state := PROC_RUNNABLE, p_parent := parent, p_children := 0,
                      p_kthread := None, p_exit_code := 0, p_wait_pid := -1\<rparr>) s6;
               s8 = fold (\<lambda>i s. vfs_file_ref (fd_file (p_fd_table (procs s parent) ! i)) s) [0..<PROC_MAX_FDS] s7;
               s9 = process_add child (link_child parent child s8)
      in Option.bind (kthread_create (trampoline_addr cfg) ''fork-child'' (fork_child_addr cfg) child s9) (\<lambda>(tid, s10).
         if tid = 0 then map_option (\<lambda>s11. (err ENOMEM, s11)) (process_destroy (sys_ops cfg) child s10)
         else map_option (\<lambda>t. let s11 = upd_proc child (\<lambda>p. p\<lparr>p_kthread := t\<rparr>) s10
                              in (sint (p_pid (procs s11 child)), s11)) (kthread_get_kthread tid s10)))))"

text \<open>
  \<^verbatim>\<open>swapgs\<close> exchanges the two base registers. \<^verbatim>\<open>sysretq\<close> loads the instruction pointer and the flags from
  \<^verbatim>\<open>rcx\<close> and \<^verbatim>\<open>r11\<close>.
\<close>

definition swapgs :: "'a io_state_scheme \<Rightarrow> 'a io_state_scheme" where
  "swapgs s = wrmsr MSR_KERNEL_GS_BASE (rdmsr MSR_GS_BASE s) (wrmsr MSR_GS_BASE (rdmsr MSR_KERNEL_GS_BASE s) s)"

record user_regs =
  ur_rax :: u64
  ur_rdi :: u64
  ur_rsi :: u64
  ur_rdx :: u64
  ur_r10 :: u64
  ur_r8 :: u64
  ur_r9 :: u64
  ur_rcx :: u64
  ur_r11 :: u64
  ur_rsp :: u64

definition sysretq_flags :: "u64 \<Rightarrow> u64" where
  "sysretq_flags v = (v AND 0x3C7FD7) OR 2"

text \<open>
  The trampoline of a forked child. It either enters user mode with zeroed registers, or it destroys a child whose saved
  addresses are not canonical and yields forever; the latter has no registers.
\<close>

definition fork_child_user_return ::
  "'a syscall_state_scheme config \<Rightarrow> u64 \<Rightarrow> 'a syscall_state_scheme \<Rightarrow> (user_regs option \<times> 'a syscall_state_scheme) option" where
  "fork_child_user_return cfg child s =
     (let self = kthread_current s;
          s1 = cpu_disable_interrupts s;
          c = procs s1 child;
          exit_self = (\<lambda>s. case self of None \<Rightarrow> s | Some t \<Rightarrow> upd_thread t (\<lambda>k. k\<lparr>kt_state := THREAD_EXITED\<rparr>) s)
      in if \<not> canonical_addr (p_user_rip c) \<or> \<not> canonical_addr (p_user_rsp c)
         then map_option (\<lambda>s2. (None, cpu_enable_interrupts s2))
                (process_destroy (sys_ops cfg) child (upd_proc child (\<lambda>p. p\<lparr>p_kthread := None\<rparr>) (exit_self s1)))
         else let s2 = gdt_set_tss_rsp0 (p_kernel_stack_top c) (process_set_current child s1);
                  s3 = vmm_switch_address_space (p_pml4_phys c) s2;
                  s4 = wrmsr MSR_KERNEL_GS_BASE (segment_base (p_gs_base c)) (wrmsr MSR_FS_BASE (segment_base (p_fs_base c)) s3);
                  s5 = swapgs (upd_proc child (\<lambda>p. p\<lparr>p_kthread := None\<rparr>) (exit_self s4));
                  regs = \<lparr>ur_rax = 0, ur_rdi = 0, ur_rsi = 0, ur_rdx = 0, ur_r10 = 0, ur_r8 = 0, ur_r9 = 0,
                          ur_rcx = p_user_rip c, ur_r11 = p_user_rflags c, ur_rsp = p_user_rsp c\<rparr>
              in Some (Some regs, s5\<lparr>rflags := sysretq_flags (p_user_rflags c)\<rparr>))"

section \<open>Dispatch\<close>

definition syscall_table_init :: "'a syscall_state_scheme \<Rightarrow> 'a syscall_state_scheme" where
  "syscall_table_init s =
     s\<lparr>syscall_table := fold (\<lambda>(nr, h) t. t[nr := h])
         [(0, Sys_read), (1, Sys_write), (60, Sys_exit), (39, Sys_getpid), (12, Sys_brk), (9, Sys_mmap), (11, Sys_munmap),
          (158, Sys_arch_prctl), (110, Sys_getppid), (63, Sys_uname), (61, Sys_wait4), (57, Sys_fork), (2, Sys_open), (3, Sys_close)]
         (replicate NR_SYSCALLS Sys_ni)\<rparr>"

definition syscall_init :: "'a syscall_state_scheme config \<Rightarrow> 'a syscall_state_scheme \<Rightarrow> 'a syscall_state_scheme" where
  "syscall_init cfg s =
     (let s1 = wrmsr MSR_EFER (rdmsr MSR_EFER s OR EFER_SCE) s;
          s2 = wrmsr MSR_STAR (push_bit 48 (ucast GDT_KERNEL_DATA) OR push_bit 32 (ucast GDT_KERNEL_CODE)) s1;
          s3 = wrmsr MSR_LSTAR (syscall_entry_addr cfg) s2;
          s4 = wrmsr MSR_SFMASK (RFLAGS_IF OR RFLAGS_DF OR RFLAGS_TF OR RFLAGS_AC) s3
      in syscall_table_init s4)"

definition run_syscall ::
  "'a syscall_state_scheme config \<Rightarrow> syscall_fn \<Rightarrow> u64 \<Rightarrow> u64 \<Rightarrow> u64 \<Rightarrow> u64 \<Rightarrow> u64 \<Rightarrow> u64 \<Rightarrow> 'a syscall_state_scheme \<Rightarrow> 'a syscall_state_scheme sys_result option" where
  "run_syscall cfg h a1 a2 a3 a4 a5 a6 s =
     (let ret = map_option (\<lambda>(v, s). Ret v s) in
      case h of
        Sys_ni \<Rightarrow> Some (Ret (err ENOSYS) s)
      | Sys_read \<Rightarrow> ret (sys_read cfg a1 a2 a3 s)
      | Sys_write \<Rightarrow> ret (sys_write cfg a1 a2 a3 s)
      | Sys_exit \<Rightarrow> map_option Halted (sys_exit a1 s)
      | Sys_getpid \<Rightarrow> Some (Ret (sys_getpid s) s)
      | Sys_brk \<Rightarrow> ret (Some (sys_brk a1 s))
      | Sys_mmap \<Rightarrow> ret (Some (sys_mmap a1 a2 a3 a4 a5 s))
      | Sys_munmap \<Rightarrow> ret (Some (sys_munmap a1 a2 s))
      | Sys_arch_prctl \<Rightarrow> ret (sys_arch_prctl a1 a2 s)
      | Sys_getppid \<Rightarrow> Some (Ret (sys_getppid s) s)
      | Sys_uname \<Rightarrow> ret (sys_uname a1 s)
      | Sys_wait4 \<Rightarrow> ret (sys_wait4 cfg a1 a2 a3 s)
      | Sys_fork \<Rightarrow> ret (sys_fork cfg s)
      | Sys_open \<Rightarrow> ret (sys_open cfg a1 a2 s)
      | Sys_close \<Rightarrow> ret (sys_close cfg a1 s))"

text \<open>The quadwords of the frame that the entry path builds on the kernel stack.\<close>

definition qw :: "'a heap_state_scheme \<Rightarrow> u64 \<Rightarrow> nat \<Rightarrow> u64" where
  "qw s frame i = load64 (hmem s) (frame + of_nat (8 * i))"

definition snapshot_user :: "u64 \<Rightarrow> 'a process_state_scheme \<Rightarrow> 'a process_state_scheme" where
  "snapshot_user frame s =
     (let proc = process_current s in
      if proc = 0 then s
      else upd_proc proc (\<lambda>p. p\<lparr>p_user_rflags := sanitize_user_rflags (qw s frame 7), p_user_rip := qw s frame 8,
                               p_user_rsp := user_rsp (cpu0_percpu s)\<rparr>) s)"

definition syscall_dispatch :: "'a syscall_state_scheme config \<Rightarrow> u64 \<Rightarrow> 'a syscall_state_scheme \<Rightarrow> 'a syscall_state_scheme sys_result option" where
  "syscall_dispatch cfg frame s =
     (let nr = qw s frame 0; s1 = snapshot_user frame s in
      if nr \<ge> of_nat NR_SYSCALLS then Some (Ret (err ENOSYS) s1)
      else run_syscall cfg (syscall_table s1 ! unat nr) (qw s1 frame 1) (qw s1 frame 2) (qw s1 frame 3)
             (qw s1 frame 4) (qw s1 frame 5) (qw s1 frame 6) s1)"

section \<open>Entry and exit\<close>

fun push_frame :: "u64 \<Rightarrow> u64 list \<Rightarrow> bytes \<Rightarrow> bytes" where
  "push_frame sp [] m = m"
| "push_frame sp (v # vs) m = push_frame (sp - 8) vs (store64 m (sp - 8) v)"

definition enter_kernel :: "user_regs \<Rightarrow> 'a syscall_state_scheme \<Rightarrow> u64 \<times> 'a syscall_state_scheme" where
  "enter_kernel r s =
     (let s1 = swapgs s;
          s2 = s1\<lparr>cpu0_percpu := (cpu0_percpu s1)\<lparr>user_rsp := ur_rsp r\<rparr>\<rparr>;
          sp = kernel_rsp (cpu0_percpu s2);
          m = push_frame sp [ur_rcx r, ur_r11 r, ur_r9 r, ur_r8 r, ur_r10 r, ur_rdx r, ur_rsi r, ur_rdi r, ur_rax r] (hmem s2)
      in (sp - 72, cpu_enable_interrupts (s2\<lparr>hmem := m\<rparr>)))"

definition leave_kernel :: "u64 \<Rightarrow> int \<Rightarrow> 'a syscall_state_scheme \<Rightarrow> user_regs \<times> 'a syscall_state_scheme" where
  "leave_kernel frame result s =
     (let s1 = cpu_disable_interrupts s;
          r11 = sanitize_user_rflags (qw s1 frame 7);
          regs = \<lparr>ur_rax = word_of_int result, ur_rdi = qw s1 frame 1, ur_rsi = qw s1 frame 2, ur_rdx = qw s1 frame 3,
                  ur_r10 = qw s1 frame 4, ur_r8 = qw s1 frame 5, ur_r9 = qw s1 frame 6,
                  ur_rcx = qw s1 frame 8, ur_r11 = r11, ur_rsp = user_rsp (cpu0_percpu s1)\<rparr>
      in (regs, (swapgs s1)\<lparr>rflags := sysretq_flags r11\<rparr>))"

definition syscall_entry :: "'a syscall_state_scheme config \<Rightarrow> user_regs \<Rightarrow> 'a syscall_state_scheme \<Rightarrow> (user_regs option \<times> 'a syscall_state_scheme) option" where
  "syscall_entry cfg r s =
     (let (frame, s1) = enter_kernel r s in
      map_option (\<lambda>res. case res of
          Ret v s2 \<Rightarrow> (let (regs, s3) = leave_kernel frame v s2 in (Some regs, s3))
        | Halted s2 \<Rightarrow> (None, s2)) (syscall_dispatch cfg frame s1))"

end
