(* ===== verification/Boot.thy ===== *)
theory Boot
  imports Kprintf Syscall_Proc
begin

text \<open>
  From the boot loader to user mode: the answers of the boot loader (\<^verbatim>\<open>arch/x86/boot/limine.c\<close>), the floating-point unit
  (\<^verbatim>\<open>arch/x86/kernel/fpu.c\<close>), the system summary (\<^verbatim>\<open>lib/sysinfo.c\<close>), the first process (\<^verbatim>\<open>kernel/kinit.c\<close>,
  \<^verbatim>\<open>arch/x86/kernel/usermode.S\<close>) and the order of initialisation (\<^verbatim>\<open>init/main.c\<close>).

  A response of the boot loader that is missing, a NULL pointer in C, is \<open>None\<close>. Log messages are not modelled; a panic
  has no result. The interrupts that arrive while \<^verbatim>\<open>kmain\<close> goes on after it has enabled them are not part of its model.
\<close>

definition str :: "string \<Rightarrow> u8 list" where
  "str = map of_char"

section \<open>Boot loader\<close>

record limine_file =
  lf_address :: u64
  lf_size :: u64

record limine_responses =
  framebuffer_response :: "framebuffer list option"
  hhdm_response :: "u64 option"
  memmap_response :: "memmap_entry list option"
  rsdp_response :: "u64 option"
  module_response :: "limine_file list option"

definition limine_get_memmap :: "limine_responses \<Rightarrow> memmap_entry list option" where
  "limine_get_memmap l = memmap_response l"

definition limine_get_hhdm_offset :: "limine_responses \<Rightarrow> u64" where
  "limine_get_hhdm_offset l = (case hhdm_response l of None \<Rightarrow> 0 | Some off \<Rightarrow> off)"

definition limine_get_framebuffer :: "limine_responses \<Rightarrow> framebuffer option" where
  "limine_get_framebuffer l = (case framebuffer_response l of None \<Rightarrow> None | Some [] \<Rightarrow> None | Some (f # _) \<Rightarrow> Some f)"

definition limine_get_rsdp :: "limine_responses \<Rightarrow> u64" where
  "limine_get_rsdp l = (case rsdp_response l of None \<Rightarrow> 0 | Some a \<Rightarrow> a)"

definition limine_get_module :: "limine_responses \<Rightarrow> nat \<Rightarrow> limine_file option" where
  "limine_get_module l index =
     (case module_response l of None \<Rightarrow> None
      | Some ms \<Rightarrow> if index \<ge> length ms then None else Some (ms ! index))"

definition limine_get_module_count :: "limine_responses \<Rightarrow> nat" where
  "limine_get_module_count l = (case module_response l of None \<Rightarrow> 0 | Some ms \<Rightarrow> length ms)"

section \<open>Floating-point unit\<close>

text \<open>
  The state that \<^verbatim>\<open>fxsave\<close> stores and \<^verbatim>\<open>fxrstor\<close> loads is the list of its 512 bytes. \<^verbatim>\<open>fninit\<close> sets the control word,
  clears the status and tag words and the last instruction's pointers, and leaves the rest.
\<close>

record sysinfo =
  si_cpu_count :: nat
  total_memory_bytes :: u64
  free_memory_bytes :: u64
  heap_free_bytes :: u64

record boot_state = syscall_state +
  cr0 :: u64
  cr4 :: u64
  fpu_regs :: "u8 list"
  sysinfo :: sysinfo

definition CR0_MP :: u64 where "CR0_MP = 2"
definition CR0_EM :: u64 where "CR0_EM = 4"
definition CR0_TS :: u64 where "CR0_TS = 8"
definition CR4_OSFXSR :: u64 where "CR4_OSFXSR = 0x200"
definition CR4_OSXMMEXCPT :: u64 where "CR4_OSXMMEXCPT = 0x400"
definition MXCSR_DEFAULT :: u32 where "MXCSR_DEFAULT = 0x1F80"
definition FCW_DEFAULT :: u16 where "FCW_DEFAULT = 0x037F"

definition fninit :: "u8 list \<Rightarrow> u8 list" where
  "fninit r = [0x7F, 0x03] @ replicate 22 0 @ drop 24 r"

definition fpu_init :: "'a boot_state_scheme \<Rightarrow> 'a boot_state_scheme" where
  "fpu_init s =
     s\<lparr>cr0 := ((cr0 s AND NOT CR0_EM) OR CR0_MP) AND NOT CR0_TS,
       cr4 := (cr4 s OR CR4_OSFXSR) OR CR4_OSXMMEXCPT,
       fpu_regs := fninit (fpu_regs s)\<rparr>"

definition fpu_save :: "'a boot_state_scheme \<Rightarrow> u8 list" where
  "fpu_save s = fpu_regs s"

definition fpu_restore :: "u8 list \<Rightarrow> 'a boot_state_scheme \<Rightarrow> 'a boot_state_scheme" where
  "fpu_restore st s = s\<lparr>fpu_regs := st\<rparr>"

definition fpu_init_state :: "u8 list" where
  "fpu_init_state = (replicate 512 0)[0 := ucast FCW_DEFAULT, 1 := ucast (drop_bit 8 FCW_DEFAULT),
     0x18 := ucast MXCSR_DEFAULT, 0x19 := ucast (drop_bit 8 MXCSR_DEFAULT),
     0x1A := ucast (drop_bit 16 MXCSR_DEFAULT), 0x1B := ucast (drop_bit 24 MXCSR_DEFAULT)]"

section \<open>System summary\<close>

definition format_bytes :: "u64 \<Rightarrow> u64 \<times> u8 list" where
  "format_bytes bytes =
     (if bytes \<ge> 0x40000000 then (bytes div 0x40000000, str ''GB'')
      else if bytes \<ge> 0x100000 then (bytes div 0x100000, str ''MB'')
      else if bytes \<ge> 0x400 then (bytes div 0x400, str ''KB'')
      else (bytes, str ''B''))"

definition sysinfo_init :: "'a boot_state_scheme \<Rightarrow> 'a boot_state_scheme" where
  "sysinfo_init s =
     s\<lparr>sysinfo := \<lparr>si_cpu_count = cpu_count (acpi_get_info s), total_memory_bytes = pmm_get_usable_pages s * PAGE_SIZE,
                   free_memory_bytes = pmm_get_free_pages s * PAGE_SIZE, heap_free_bytes = kheap_get_free s\<rparr>\<rparr>"

definition sysinfo_get :: "'a boot_state_scheme \<Rightarrow> sysinfo" where
  "sysinfo_get s = sysinfo s"

text \<open>A sequence of calls of \<^verbatim>\<open>kprintf\<close>.\<close>

fun kprintfs :: "(nat \<Rightarrow> u8) \<Rightarrow> (u8 list \<times> varg list) list \<Rightarrow> 'a console_state_scheme \<Rightarrow> 'a console_state_scheme option" where
  "kprintfs font [] s = Some s"
| "kprintfs font ((fmt, args) # ps) s = Option.bind (kprintf font fmt args s) (\<lambda>(_, s1). kprintfs font ps s1)"

definition newline :: "u8 list" where "newline = [0x0A]"

definition sysinfo_print_summary :: "(nat \<Rightarrow> u8) \<Rightarrow> 'a boot_state_scheme \<Rightarrow> 'a boot_state_scheme option" where
  "sysinfo_print_summary font s =
     (let (total_val, total_unit) = format_bytes (total_memory_bytes (sysinfo s));
          (free_val, free_unit) = format_bytes (free_memory_bytes (sysinfo s));
          (heap_val, heap_unit) = format_bytes (heap_free_bytes (sysinfo s));
          rule = replicate 80 0x3D @ newline
      in kprintfs font
           [(newline, []), (rule, []), (replicate 28 0x20 @ str ''SeedOS System Summary'' @ newline, []), (rule, []),
            (str ''  CPU:  %d processor(s)'' @ newline, [Slot (of_nat (si_cpu_count (sysinfo s)))]),
            (str ''  RAM:  %llu %s total, %llu %s free'' @ newline,
               [Slot total_val, Str (Some total_unit), Slot free_val, Str (Some free_unit)]),
            (str ''  Heap: %llu %s available'' @ newline, [Slot heap_val, Str (Some heap_unit)]), (rule, []), (newline, [])] s)"

section \<open>The first process\<close>

text \<open>What \<^verbatim>\<open>iretq\<close> loads, and the fifteen general-purpose registers, which are cleared.\<close>

record ring3_entry =
  r3_rip :: u64
  r3_cs :: u64
  r3_rflags :: u64
  r3_rsp :: u64
  r3_ss :: u64
  r3_gprs :: "u64 list"

definition USER_CS :: u64 where "USER_CS = 0x23"
definition USER_SS :: u64 where "USER_SS = 0x1B"

definition user_mode_enter :: "u64 \<Rightarrow> u64 \<Rightarrow> 'a io_state_scheme \<Rightarrow> ring3_entry \<times> 'a io_state_scheme" where
  "user_mode_enter entry usp s =
     (let s1 = swapgs (cpu_disable_interrupts s)
      in (\<lparr>r3_rip = entry, r3_cs = USER_CS, r3_rflags = 0x202, r3_rsp = usp, r3_ss = USER_SS, r3_gprs = replicate 15 0\<rparr>,
          s1\<lparr>rflags := 0x202\<rparr>))"

definition start_init :: "limine_responses \<Rightarrow> 'a process_state_scheme \<Rightarrow> (ring3_entry \<times> 'a process_state_scheme) option" where
  "start_init l s =
     (if limine_get_module l 0 = None then None
      else Option.bind (ext2_lookup (hhdm s) (fs s) (Some (str ''/init''))) (\<lambda>init_ino.
      if init_ino = 0 then None
      else Option.bind (ext2_read_inode (hhdm s) (fs s) init_ino) (\<lambda>init_inode.
      if init_inode = 0 then None
      else let file_size = ext2_get_file_size (hhdm s) init_inode in
      if file_size = 0 then None
      else Option.bind (kmalloc file_size s) (\<lambda>(elf_data, s1).
      if elf_data = 0 then None
      else Option.bind (ext2_read_file (hhdm s1) (fs s1) init_inode 0 elf_data file_size (hmem s1)) (\<lambda>(bytes_read, m).
      if bytes_read < 0 \<or> word_of_int bytes_read \<noteq> file_size then None
      else Option.bind (process_create (str ''init'') (s1\<lparr>hmem := m\<rparr>)) (\<lambda>(init, s2).
      if init = 0 then None
      else let (ret, info, s3) = elf_load init elf_data file_size (Some \<lparr>ei_entry = 0, ei_phdr_addr = 0, ei_phnum = 0, ei_brk_start = 0\<rparr>) s2 in
      if ret < 0 then None
      else Option.bind info (\<lambda>elf_info.
      let s4 = kfree elf_data (upd_proc init (\<lambda>p. p\<lparr>p_brk_start := ei_brk_start elf_info, p_brk := ei_brk_start elf_info\<rparr>) s3);
          (usp, s5) = elf_setup_stack init (Some [str ''/init'']) (Some [str ''PATH=/bin'', str ''HOME=/'']) (Some elf_info) s4
      in if usp = 0 then None
         else let s6 = upd_proc init (\<lambda>p. p\<lparr>p_state := PROC_RUNNING\<rparr>) (process_set_current init s5);
                  s7 = gdt_set_tss_rsp0 (p_kernel_stack_top (procs s6 init)) s6;
                  s8 = vmm_switch_address_space (p_pml4_phys (procs s7 init)) s7;
                  s9 = upd_proc init (\<lambda>p. p\<lparr>p_user_rip := ei_entry elf_info, p_user_rsp := usp, p_user_rflags := 0x202\<rparr>) s8
              in Some (user_mode_enter (ei_entry elf_info) usp s9))))))))"

section \<open>Initialisation\<close>

text \<open>The addresses of the kernel's static objects and functions, and the build option \<^verbatim>\<open>CONFIG_AUTO_INIT\<close>.\<close>

record 's boot_config =
  bc_config :: "'s config"
  bc_gdt :: u64
  bc_tss :: u64
  bc_ist :: ist_stacks
  bc_percpu :: u64
  bc_isr :: "nat \<Rightarrow> u64"
  bc_idt :: u64
  bc_reaper :: u64
  bc_local_buf :: u64
  bc_auto_init :: bool

datatype 's boot_result = Kmain_returns 's | Enters_shell 's | Enters_ring3 ring3_entry 's

text \<open>The tables, memory and devices, up to the point where interrupts are enabled.\<close>

definition boot_tables :: "'a boot_state_scheme boot_config \<Rightarrow> 'a boot_state_scheme \<Rightarrow> 'a boot_state_scheme" where
  "boot_tables bc s =
     (let s1 = gdt_init (bc_gdt bc) (bc_tss bc) (bc_ist bc) s;
          s2 = fpu_init (percpu_init (bc_percpu bc) s1);
          s3 = syscall_init (bc_config bc) s2
      in idt_install (bc_isr bc) (bc_idt bc) s3)"

definition boot_memory :: "'a boot_state_scheme boot_config \<Rightarrow> limine_responses \<Rightarrow> 'a boot_state_scheme \<Rightarrow> 'a boot_state_scheme option" where
  "boot_memory bc l s =
     Option.bind (limine_get_memmap l) (\<lambda>entries.
     Option.bind (pmm_init entries (limine_get_hhdm_offset l) s) (\<lambda>s1.
     Option.bind (kheap_init (gdt_install_ist_guards (bc_ist bc) (vmm_init s1))) (\<lambda>s2.
     page_init (pmm_get_total_pages s2 * PAGE_SIZE) s2)))"

definition boot_devices :: "limine_responses \<Rightarrow> 'a boot_state_scheme \<Rightarrow> 'a boot_state_scheme option" where
  "boot_devices l s =
     Option.bind (acpi_init (limine_get_rsdp l) s) (\<lambda>(_, s1).
     Option.bind (apic_init s1) (\<lambda>s2.
     Option.bind (keyboard_init (ioapic_init s2)) (\<lambda>s3.
     Some (cpu_enable_interrupts (serial_irq_init s3)))))"

text \<open>Reading \<^verbatim>\<open>/hello.txt\<close> has no effect but may trap or not end on a damaged image.\<close>

definition boot_initrd :: "u64 \<Rightarrow> limine_responses \<Rightarrow> 'a boot_state_scheme \<Rightarrow> 'a boot_state_scheme option" where
  "boot_initrd buf l s =
     (case limine_get_module l 0 of None \<Rightarrow> Some s
      | Some initrd \<Rightarrow>
          Option.bind (ext2_init (lf_address initrd) (lf_size initrd) s) (\<lambda>(ret, s1).
          if ret \<noteq> 0 then Some s1
          else Option.bind (ext2_lookup (hhdm s1) (fs s1) (Some (str ''/hello.txt''))) (\<lambda>ino.
          if ino = 0 then Some s1
          else Option.bind (ext2_read_inode (hhdm s1) (fs s1) ino) (\<lambda>inode.
          if inode = 0 then Some s1
          else map_option (\<lambda>_. s1) (ext2_read_file (hhdm s1) (fs s1) inode 0 buf 127 (\<lambda>_. 0))))))"

definition kmain :: "'a boot_state_scheme boot_config \<Rightarrow> limine_responses \<Rightarrow> 'a boot_state_scheme \<Rightarrow> 'a boot_state_scheme boot_result option" where
  "kmain bc l s =
     (case limine_get_framebuffer l of None \<Rightarrow> Some (Kmain_returns s)
      | Some fb \<Rightarrow>
          let s1 = boot_tables bc (terminal_init (console_init (Some fb) s)) in
          Option.bind (boot_memory bc l s1) (\<lambda>s2.
          Option.bind (boot_devices l s2) (\<lambda>s3.
          Option.bind (sysinfo_print_summary (font_data (bc_config bc)) (sysinfo_init s3)) (\<lambda>s4.
          Option.bind (kthread_init (trampoline_addr (bc_config bc)) (bc_reaper bc) s4) (\<lambda>(_, s5).
          Option.bind (boot_initrd (bc_local_buf bc) l (process_init s5)) (\<lambda>s6.
          if bc_auto_init bc then map_option (\<lambda>(r, s7). Enters_ring3 r s7) (start_init l s6)
          else Some (Enters_shell s6)))))))"

end
