(* ===== verification/Kshell.thy ===== *)
theory Kshell
  imports Boot
begin

text \<open>
  The kernel shell, \<^verbatim>\<open>kernel/kshell.c\<close>: the line editor with its history, the command line and the commands.

  The static variables of the shell are the record \<open>kshell\<close>, beside the state of the machine. A character array is the list
  of its bytes, with the terminating zero; \<open>cstr\<close> is the string it holds, and an argument of a command is its offset in the input
  buffer. The demonstrations that start threads end the model of the command at their name.
\<close>

definition KSHELL_PROMPT :: "u8 list" where "KSHELL_PROMPT = str ''seed> ''"
definition KSHELL_PROMPT_COLOR :: u32 where "KSHELL_PROMPT_COLOR = 0x00FF00"
definition KSHELL_INPUT_COLOR :: u32 where "KSHELL_INPUT_COLOR = 0xFFFFFF"
definition KSHELL_ERROR_COLOR :: u32 where "KSHELL_ERROR_COLOR = 0xFF0000"
definition KSHELL_MAX_INPUT :: nat where "KSHELL_MAX_INPUT = 256"
definition KSHELL_MAX_ARGS :: nat where "KSHELL_MAX_ARGS = 16"
definition KSHELL_HISTORY_SIZE :: nat where "KSHELL_HISTORY_SIZE = 16"
definition KEY_BACKSPACE :: int where "KEY_BACKSPACE = 0x08"
definition KEY_ENTER :: int where "KEY_ENTER = 0x0A"
definition KEY_UP :: int where "KEY_UP = 0x90"
definition KEY_DOWN :: int where "KEY_DOWN = 0x91"
definition KEY_PAGEUP :: int where "KEY_PAGEUP = 0x96"
definition KEY_PAGEDOWN :: int where "KEY_PAGEDOWN = 0x97"

record kshell =
  input_buffer :: "u8 list"
  input_len :: nat
  history :: "u8 list list"
  history_count :: nat
  history_pos :: nat
  history_browse :: int
  saved_input :: "u8 list"

section \<open>Strings\<close>

definition cstr :: "u8 list \<Rightarrow> u8 list" where
  "cstr xs = takeWhile (\<lambda>c. c \<noteq> 0) xs"

fun str_equal :: "u8 list \<Rightarrow> u8 list \<Rightarrow> bool" where
  "str_equal (a # as) (b # bs) = (if a \<noteq> 0 \<and> b \<noteq> 0 then (if a \<noteq> b then False else str_equal as bs) else a = b)"
| "str_equal _ _ = False"

fun str_copy_from :: "nat \<Rightarrow> nat \<Rightarrow> u8 list \<Rightarrow> u8 list \<Rightarrow> u8 list" where
  "str_copy_from 0 i dst src = dst[i := 0]"
| "str_copy_from (Suc k) i dst src =
     (if src ! i \<noteq> 0 then str_copy_from k (i + 1) (dst[i := src ! i]) src else dst[i := 0])"

definition str_copy :: "u8 list \<Rightarrow> u8 list \<Rightarrow> nat \<Rightarrow> u8 list" where
  "str_copy dst src max_len = str_copy_from (max_len - 1) 0 dst src"

section \<open>Command line\<close>

text \<open>
  The loop of \<^verbatim>\<open>parse_command\<close> on the rest of the buffer from offset \<open>p\<close>: the offsets of the arguments and the rest as it is
  left, with a zero after each argument.
\<close>

fun parse_loop :: "nat \<Rightarrow> nat \<Rightarrow> u8 list \<Rightarrow> nat list \<times> u8 list" where
  "parse_loop 0 p xs = ([], xs)"
| "parse_loop (Suc m) p xs =
     (if xs = [] \<or> hd xs = 0 then ([], xs)
      else let sp = takeWhile (\<lambda>c. c = 0x20) xs; ys = dropWhile (\<lambda>c. c = 0x20) xs in
      if ys = [] \<or> hd ys = 0 then ([], xs)
      else let w = takeWhile (\<lambda>c. c \<noteq> 0 \<and> c \<noteq> 0x20) ys; zs = dropWhile (\<lambda>c. c \<noteq> 0 \<and> c \<noteq> 0x20) ys;
               arg = p + length sp
           in if zs = [] \<or> hd zs = 0 then ([arg], xs)
              else let (args, rest) = parse_loop m (arg + length w + 1) (tl zs)
                   in (arg # args, sp @ w @ 0 # rest))"

definition parse_command :: "u8 list \<Rightarrow> nat \<Rightarrow> nat list \<times> u8 list" where
  "parse_command input max_args = parse_loop max_args 0 input"

datatype command = Cmd_help | Cmd_clear | Cmd_echo | Cmd_version | Cmd_meminfo | Cmd_reboot | Cmd_matrix
  | Cmd_spintest | Cmd_mutextest | Cmd_condtest | Cmd_init

definition commands :: "(u8 list \<times> u8 list \<times> command) list" where
  "commands =
     [(str ''help'', str ''Show available commands'', Cmd_help), (str ''clear'', str ''Clear the screen'', Cmd_clear),
      (str ''echo'', str ''Echo arguments to screen'', Cmd_echo), (str ''version'', str ''Show SeedOS version'', Cmd_version),
      (str ''meminfo'', str ''Show memory statistics'', Cmd_meminfo), (str ''reboot'', str ''Reboot the system'', Cmd_reboot),
      (str ''matrix'', str ''Toggle Matrix rain demo'', Cmd_matrix), (str ''spintest'', str ''Test spinlock (busy-wait)'', Cmd_spintest),
      (str ''mutextest'', str ''Test mutex (sleep-wait)'', Cmd_mutextest),
      (str ''condtest'', str ''Test condition variables'', Cmd_condtest), (str ''init'', str ''Launch /init from initrd'', Cmd_init)]"

section \<open>Commands\<close>

text \<open>How a command ends: it returns to the shell, the machine is reset, it enters user mode, or it continues as a demonstration with threads.\<close>

datatype 's cmd_result = Cmd_returns 's | Cmd_resets 's | Cmd_ring3 ring3_entry 's | Cmd_demo command 's

definition cmd_help :: "(nat \<Rightarrow> u8) \<Rightarrow> 'a process_state_scheme \<Rightarrow> 'a process_state_scheme option" where
  "cmd_help font s =
     kprintfs font ((str ''Available commands:'' @ newline, [])
       # map (\<lambda>(name, help, _). (str ''  %-12s %s'' @ newline, [Str (Some name), Str (Some help)])) commands) s"

definition cmd_clear :: "'a process_state_scheme \<Rightarrow> 'a process_state_scheme option" where
  "cmd_clear s = terminal_clear (Some (terminal_get_active s)) s"

definition cmd_echo :: "(nat \<Rightarrow> u8) \<Rightarrow> u8 list list \<Rightarrow> 'a process_state_scheme \<Rightarrow> 'a process_state_scheme option" where
  "cmd_echo font argv s =
     kprintfs font (map (\<lambda>i. (str ''%s%s'', [Str (Some (argv ! i)), Str (Some (if i < length argv - 1 then str '' '' else []))])) [1..<length argv]
       @ [(newline, [])]) s"

definition cmd_version :: "(nat \<Rightarrow> u8) \<Rightarrow> 'a process_state_scheme \<Rightarrow> 'a process_state_scheme option" where
  "cmd_version font s = kprintfs font [(str ''SeedOS v0.1'' @ newline, [])] s"

definition cmd_meminfo :: "(nat \<Rightarrow> u8) \<Rightarrow> 'a process_state_scheme \<Rightarrow> 'a process_state_scheme option" where
  "cmd_meminfo font s =
     kprintfs font [(str ''Heap: %llu used, %llu free'' @ newline, [Slot (kheap_get_used s), Slot (kheap_get_free s)]),
       (str ''PMM:  %llu/%llu pages free'' @ newline, [Slot (pmm_get_free_pages s), Slot (pmm_get_usable_pages s)])] s"

text \<open>At most so many reads of the status of the keyboard controller until its input buffer is empty.\<close>

fun wait_8042 :: "nat \<Rightarrow> 'a io_state_scheme \<Rightarrow> 'a io_state_scheme" where
  "wait_8042 0 s = s"
| "wait_8042 (Suc n) s = (let (status, s1) = inb 0x64 s in if status AND 0x02 = 0 then s1 else wait_8042 n s1)"

definition cmd_reboot :: "(nat \<Rightarrow> u8) \<Rightarrow> 'a process_state_scheme \<Rightarrow> 'a process_state_scheme option" where
  "cmd_reboot font s =
     map_option (\<lambda>s1. (outb 0x64 0xFE (wait_8042 1000 (outb 0xCF9 0x06 (cpu_disable_interrupts s1))))\<lparr>idtr := (0, 0)\<rparr>)
       (kprintfs font [(str ''Rebooting...'' @ newline, [])] s)"

text \<open>The header is read into a local array at address \<open>buf\<close>.\<close>

definition cmd_init :: "(nat \<Rightarrow> u8) \<Rightarrow> limine_responses \<Rightarrow> u64 \<Rightarrow> 'a process_state_scheme \<Rightarrow> 'a process_state_scheme cmd_result option" where
  "cmd_init font l buf s =
     (let use_make = (str ''Use 'make test TEST=<name>' to build with a test binary.'' @ newline, []);
          refuse = (\<lambda>msgs. map_option Cmd_returns (kprintfs font msgs s))
      in Option.bind (ext2_lookup (hhdm s) (fs s) (Some (str ''/init''))) (\<lambda>init_ino.
         if init_ino = 0 then refuse [(str ''Error: /init not found in initrd.'' @ newline, []), use_make]
         else Option.bind (ext2_read_inode (hhdm s) (fs s) init_ino) (\<lambda>inode.
         if inode = 0 then refuse [(str ''Error: Failed to read /init inode.'' @ newline, [])]
         else let size = ext2_get_file_size (hhdm s) inode in
         if size < 64
         then refuse [(str ''Error: /init is too small (%llu bytes).'' @ newline, [Slot size]),
                (str ''The initrd contains a placeholder, not a real binary.'' @ newline, []), use_make]
         else Option.bind (ext2_read_file (hhdm s) (fs s) inode 0 buf 64 (\<lambda>_. 0)) (\<lambda>(n, m).
         if n < 4 \<or> m buf \<noteq> 0x7F \<or> m (buf + 1) \<noteq> 0x45 \<or> m (buf + 2) \<noteq> 0x4C \<or> m (buf + 3) \<noteq> 0x46
         then refuse [(str ''Error: /init is not a valid ELF binary.'' @ newline, []), use_make]
         else Option.bind (kprintfs font [(str ''Launching /init from initrd (%llu bytes)...'' @ newline, [Slot size]),
                (str ''This will not return - entering userspace.'' @ newline @ newline, [])] s) (\<lambda>s1.
         map_option (\<lambda>(r, s2). Cmd_ring3 r s2) (start_init l s1))))))"

record kshell_config =
  kc_font :: "nat \<Rightarrow> u8"
  kc_limine :: limine_responses
  kc_local_buf :: u64

fun run_command :: "kshell_config \<Rightarrow> command \<Rightarrow> u8 list list \<Rightarrow> 'a process_state_scheme \<Rightarrow> 'a process_state_scheme cmd_result option" where
  "run_command kc Cmd_help argv s = map_option Cmd_returns (cmd_help (kc_font kc) s)"
| "run_command kc Cmd_clear argv s = map_option Cmd_returns (cmd_clear s)"
| "run_command kc Cmd_echo argv s = map_option Cmd_returns (cmd_echo (kc_font kc) argv s)"
| "run_command kc Cmd_version argv s = map_option Cmd_returns (cmd_version (kc_font kc) s)"
| "run_command kc Cmd_meminfo argv s = map_option Cmd_returns (cmd_meminfo (kc_font kc) s)"
| "run_command kc Cmd_reboot argv s = map_option Cmd_resets (cmd_reboot (kc_font kc) s)"
| "run_command kc Cmd_init argv s = cmd_init (kc_font kc) (kc_limine kc) (kc_local_buf kc) s"
| "run_command kc c argv s = Some (Cmd_demo c s)"

fun find_command :: "u8 list \<Rightarrow> (u8 list \<times> u8 list \<times> command) list \<Rightarrow> command option" where
  "find_command name [] = None"
| "find_command name ((n, h, c) # cs) = (if str_equal name (n @ [0]) then Some c else find_command name cs)"

definition execute_command :: "kshell_config \<Rightarrow> kshell \<Rightarrow> 'a process_state_scheme \<Rightarrow> (kshell \<times> 'a process_state_scheme cmd_result) option" where
  "execute_command kc sh s =
     (let (argv, buf) = parse_command (input_buffer sh) KSHELL_MAX_ARGS;
          sh1 = sh\<lparr>input_buffer := buf\<rparr>;
          arg = (\<lambda>p. drop p buf)
      in if argv = [] then Some (sh1, Cmd_returns s)
         else map_option (Pair sh1) (case find_command (arg (hd argv)) commands of
           Some c \<Rightarrow> run_command kc c (map (\<lambda>p. cstr (arg p)) argv) s
         | None \<Rightarrow>
             let term = Some (terminal_get_active s) in
             map_option (\<lambda>s1. Cmd_returns (terminal_set_color (Some (terminal_get_active s1)) KSHELL_INPUT_COLOR s1))
               (kprintfs (kc_font kc) [(str ''Unknown command: %s'' @ newline, [Str (Some (cstr (arg (hd argv))))])]
                 (terminal_set_color term KSHELL_ERROR_COLOR s))))"

section \<open>Line editor\<close>

definition add_to_history :: "kshell \<Rightarrow> kshell" where
  "add_to_history sh =
     (if input_len sh = 0 then sh
      else let h = (history sh)[history_pos sh := str_copy (history sh ! history_pos sh) (input_buffer sh) KSHELL_MAX_INPUT]
           in sh\<lparr>history := h, history_pos := (history_pos sh + 1) mod KSHELL_HISTORY_SIZE,
                 history_count := if history_count sh < KSHELL_HISTORY_SIZE then history_count sh + 1 else history_count sh\<rparr>)"

definition get_history_index :: "int \<Rightarrow> kshell \<Rightarrow> int" where
  "get_history_index offset sh =
     (if offset \<ge> int (history_count sh) then -1
      else (int (history_pos sh) - 1 - offset + int KSHELL_HISTORY_SIZE) mod int KSHELL_HISTORY_SIZE)"

text \<open>The bytes that clearing and rewriting the line print.\<close>

definition erase_char :: "u8 list" where "erase_char = [0x08, 0x20, 0x08]"

definition clear_input_line :: "(nat \<Rightarrow> u8) \<Rightarrow> kshell \<Rightarrow> 'a process_state_scheme \<Rightarrow> 'a process_state_scheme option" where
  "clear_input_line font sh s = kprintfs font (replicate (input_len sh) (erase_char, [])) s"

definition set_input :: "u8 list \<Rightarrow> kshell \<Rightarrow> kshell" where
  "set_input src sh = (let b = str_copy (input_buffer sh) src KSHELL_MAX_INPUT in sh\<lparr>input_buffer := b, input_len := length (cstr b)\<rparr>)"

definition replace_input :: "(nat \<Rightarrow> u8) \<Rightarrow> u8 list \<Rightarrow> kshell \<Rightarrow> 'a process_state_scheme \<Rightarrow> (kshell \<times> 'a process_state_scheme) option" where
  "replace_input font src sh s =
     Option.bind (clear_input_line font sh s) (\<lambda>s1.
     let sh1 = set_input src sh
     in map_option (Pair sh1) (kprintfs font [(str ''%s'', [Str (Some (cstr (input_buffer sh1)))])] s1))"

text \<open>The end of the two history functions: the entry at \<^verbatim>\<open>history_browse\<close> becomes the input.\<close>

definition recall_history :: "(nat \<Rightarrow> u8) \<Rightarrow> kshell \<Rightarrow> 'a process_state_scheme \<Rightarrow> (kshell \<times> 'a process_state_scheme) option" where
  "recall_history font sh s =
     (let idx = get_history_index (history_browse sh) sh
      in if idx \<ge> 0 then replace_input font (history sh ! nat idx) sh s else Some (sh, s))"

definition history_prev :: "(nat \<Rightarrow> u8) \<Rightarrow> kshell \<Rightarrow> 'a process_state_scheme \<Rightarrow> (kshell \<times> 'a process_state_scheme) option" where
  "history_prev font sh s =
     (if history_count sh = 0 then Some (sh, s)
      else if history_browse sh \<noteq> -1 \<and> \<not> history_browse sh < int (history_count sh) - 1 then Some (sh, s)
      else recall_history font (if history_browse sh = -1
             then sh\<lparr>saved_input := str_copy (saved_input sh) (input_buffer sh) KSHELL_MAX_INPUT, history_browse := 0\<rparr>
             else sh\<lparr>history_browse := history_browse sh + 1\<rparr>) s)"

definition history_next :: "(nat \<Rightarrow> u8) \<Rightarrow> kshell \<Rightarrow> 'a process_state_scheme \<Rightarrow> (kshell \<times> 'a process_state_scheme) option" where
  "history_next font sh s =
     (if history_browse sh = -1 then Some (sh, s)
      else if history_browse sh > 0
      then recall_history font (sh\<lparr>history_browse := history_browse sh - 1\<rparr>) s
      else map_option (\<lambda>(sh1, s1). (sh1\<lparr>history_browse := -1\<rparr>, s1)) (replace_input font (saved_input sh) sh s))"

definition handle_backspace :: "(nat \<Rightarrow> u8) \<Rightarrow> kshell \<Rightarrow> 'a process_state_scheme \<Rightarrow> (kshell \<times> 'a process_state_scheme) option" where
  "handle_backspace font sh s =
     (if input_len sh > 0
      then let n = input_len sh - 1; sh1 = sh\<lparr>input_len := n, input_buffer := (input_buffer sh)[n := 0]\<rparr>
           in map_option (Pair sh1) (kprintfs font [(erase_char, [])] s)
      else Some (sh, s))"

definition clear_input :: "kshell \<Rightarrow> kshell" where
  "clear_input sh = sh\<lparr>input_len := 0, input_buffer := (input_buffer sh)[0 := 0], history_browse := -1\<rparr>"

definition print_prompt :: "(nat \<Rightarrow> u8) \<Rightarrow> 'a process_state_scheme \<Rightarrow> 'a process_state_scheme option" where
  "print_prompt font s =
     map_option (\<lambda>s1. terminal_set_color (Some (terminal_get_active s1)) KSHELL_INPUT_COLOR s1)
       (kprintfs font [(str ''%s'', [Str (Some KSHELL_PROMPT)])] (terminal_set_color (Some (terminal_get_active s)) KSHELL_PROMPT_COLOR s))"

definition kshell_init :: "kshell \<Rightarrow> kshell" where
  "kshell_init sh = sh\<lparr>input_len := 0, input_buffer := (input_buffer sh)[0 := 0], history_count := 0, history_pos := 0, history_browse := -1,
     saved_input := (saved_input sh)[0 := 0]\<rparr>"

section \<open>The main loop\<close>

text \<open>
  One round of \<^verbatim>\<open>kshell_run\<close> for a character \<open>c\<close> of the keyboard; without one (-1) the processor waits for an interrupt.
  A command that leaves the shell ends the loop; so does, in the model only, a demonstration, whose waiting loop is not followed.
\<close>

definition handle_enter :: "kshell_config \<Rightarrow> kshell \<Rightarrow> 'a process_state_scheme \<Rightarrow> (kshell \<times> 'a process_state_scheme cmd_result) option" where
  "handle_enter kc sh s =
     Option.bind (kprintfs (kc_font kc) [(newline, [])] s) (\<lambda>s1.
     Option.bind (if input_len sh > 0 then execute_command kc (add_to_history sh) s1 else Some (sh, Cmd_returns s1)) (\<lambda>(sh1, r).
     case r of
       Cmd_returns s2 \<Rightarrow> map_option (\<lambda>s3. (clear_input sh1, Cmd_returns s3)) (print_prompt (kc_font kc) s2)
     | _ \<Rightarrow> Some (sh1, r)))"

definition handle_key :: "kshell_config \<Rightarrow> int \<Rightarrow> kshell \<Rightarrow> 'a process_state_scheme \<Rightarrow> (kshell \<times> 'a process_state_scheme cmd_result) option" where
  "handle_key kc c sh s =
     (let font = kc_font kc; rows = snd (console_get_dimensions s); stay = map_option (\<lambda>(sh1, s1). (sh1, Cmd_returns s1)) in
      if c = -1 then Some (sh, Cmd_returns s)
      else if c = KEY_PAGEUP then Some (sh, Cmd_returns (console_scroll_back font (rows - 1) s))
      else if c = KEY_PAGEDOWN then Some (sh, Cmd_returns (console_scroll_forward font (rows - 1) s))
      else let s1 = (if console_is_scrolled_back s then console_scroll_to_bottom font s else s) in
      if c = KEY_ENTER then handle_enter kc sh s1
      else if c = KEY_BACKSPACE then stay (handle_backspace font sh s1)
      else if c = KEY_UP then stay (history_prev font sh s1)
      else if c = KEY_DOWN then stay (history_next font sh s1)
      else if c \<ge> 32 \<and> c < 127 then
        (if input_len sh < KSHELL_MAX_INPUT - 1
         then let n = input_len sh;
                  sh1 = sh\<lparr>input_len := n + 1, input_buffer := (input_buffer sh)[n := word_of_int c, n + 1 := 0]\<rparr>
              in stay (map_option (Pair sh1) (kprintfs font [(str ''%c'', [Slot (word_of_int c)])] s1))
         else Some (sh, Cmd_returns s1))
      else Some (sh, Cmd_returns s1))"

definition kshell_step :: "kshell_config \<Rightarrow> kshell \<Rightarrow> 'a process_state_scheme \<Rightarrow> (kshell \<times> 'a process_state_scheme cmd_result) option" where
  "kshell_step kc sh s = (let (c, s1) = keyboard_getchar s in handle_key kc c sh s1)"

definition kshell_welcome :: "kshell_config \<Rightarrow> 'a process_state_scheme \<Rightarrow> 'a process_state_scheme option" where
  "kshell_welcome kc s =
     Option.bind (kprintfs (kc_font kc) [(newline @ str ''Welcome to SeedOS!'' @ newline, []),
       (str ''Type 'help' for available commands.'' @ newline @ newline, [])] s) (print_prompt (kc_font kc))"

end
