(* ===== verification/Keyboard_Queue.thy ===== *)
theory Keyboard_Queue
  imports Keyboard
begin

text \<open>
  The keyboard's ring buffer is a bounded queue. The contract \<open>bounded_queue\<close> says what the readers and the interrupt
  handlers rely on; the ring buffer implements it, so that every sequence of key presses and reads behaves as on a list of at
  most 63 characters that drops what does not fit.
\<close>

section \<open>The contract\<close>

datatype queue_op = Put u8 | Get

text \<open>A list that holds at most \<open>cap\<close> characters, and its answers to the reads.\<close>

fun list_run :: "nat \<Rightarrow> queue_op list \<Rightarrow> u8 list \<Rightarrow> int list" where
  "list_run cap [] xs = []"
| "list_run cap (Put c # ops) xs = list_run cap ops (if length xs < cap then xs @ [c] else xs)"
| "list_run cap (Get # ops) [] = -1 # list_run cap ops []"
| "list_run cap (Get # ops) (x # xs) = uint x # list_run cap ops xs"

fun queue_run :: "(u8 \<Rightarrow> 's \<Rightarrow> 's) \<Rightarrow> ('s \<Rightarrow> int \<times> 's) \<Rightarrow> queue_op list \<Rightarrow> 's \<Rightarrow> int list" where
  "queue_run put get [] s = []"
| "queue_run put get (Put c # ops) s = queue_run put get ops (put c s)"
| "queue_run put get (Get # ops) s = (case get s of (v, s') \<Rightarrow> v # queue_run put get ops s')"

locale bounded_queue =
  fixes ok :: "'s \<Rightarrow> bool"
    and contents :: "'s \<Rightarrow> u8 list"
    and cap :: nat
    and put :: "u8 \<Rightarrow> 's \<Rightarrow> 's"
    and get :: "'s \<Rightarrow> int \<times> 's"
  assumes put_ok: "ok s \<Longrightarrow> ok (put c s)"
    and get_ok: "ok s \<Longrightarrow> ok (snd (get s))"
    and put_contents: "ok s \<Longrightarrow> contents (put c s) = (if length (contents s) < cap then contents s @ [c] else contents s)"
    and get_empty: "ok s \<Longrightarrow> contents s = [] \<Longrightarrow> get s = (-1, s)"
    and get_first: "ok s \<Longrightarrow> contents s = x # xs \<Longrightarrow> fst (get s) = uint x \<and> contents (snd (get s)) = xs"
begin

lemma run_refines: "ok s \<Longrightarrow> queue_run put get ops s = list_run cap ops (contents s)"
proof (induction ops arbitrary: s)
  case (Cons op ops)
  show ?case
  proof (cases op)
    case (Put c)
    then show ?thesis using Cons.IH[OF put_ok[OF Cons.prems]] put_contents[OF Cons.prems] by simp
  next
    case Get
    obtain v s' where get: "get s = (v, s')" by fastforce
    then have "ok s'" using get_ok[OF Cons.prems] by simp
    then have run: "queue_run put get ops s' = list_run cap ops (contents s')" by (rule Cons.IH)
    show ?thesis
    proof (cases "contents s")
      case Nil
      then show ?thesis using Get get run get_empty[OF Cons.prems] by simp
    next
      case list: (Cons x xs)
      then show ?thesis using Get get run get_first[OF Cons.prems list] by simp
    qed
  qed
qed simp

end

section \<open>The ring buffer implements it\<close>

definition kbd_ok :: "'a input_state_scheme \<Rightarrow> bool" where
  "kbd_ok s \<longleftrightarrow> length (buffer s) = KBD_BUFFER_SIZE \<and> buffer_head s < KBD_BUFFER_SIZE \<and> buffer_tail s < KBD_BUFFER_SIZE"

definition kbd_count :: "'a input_state_scheme \<Rightarrow> nat" where
  "kbd_count s = (buffer_head s + KBD_BUFFER_SIZE - buffer_tail s) mod KBD_BUFFER_SIZE"

definition kbd_contents :: "'a input_state_scheme \<Rightarrow> u8 list" where
  "kbd_contents s = map (\<lambda>i. buffer s ! ((buffer_tail s + i) mod KBD_BUFFER_SIZE)) [0..<kbd_count s]"

lemma kbd_contents_length [simp]: "length (kbd_contents s) = kbd_count s"
  by (simp add: kbd_contents_def)

lemma ring_mod: "x < KBD_BUFFER_SIZE \<Longrightarrow> i \<le> KBD_BUFFER_SIZE \<Longrightarrow>
    (x + i) mod KBD_BUFFER_SIZE = (if x + i < KBD_BUFFER_SIZE then x + i else x + i - KBD_BUFFER_SIZE)"
  by (auto simp: KBD_BUFFER_SIZE_def mod_if)

lemma ring_next: "x < KBD_BUFFER_SIZE \<Longrightarrow> (x + 1) mod KBD_BUFFER_SIZE = (if x + 1 = KBD_BUFFER_SIZE then 0 else x + 1)"
  by (auto simp: KBD_BUFFER_SIZE_def)

lemma kbd_count_eq: "kbd_ok s \<Longrightarrow>
    kbd_count s = (if buffer_tail s \<le> buffer_head s then buffer_head s - buffer_tail s else buffer_head s + KBD_BUFFER_SIZE - buffer_tail s)"
  by (auto simp: kbd_ok_def kbd_count_def KBD_BUFFER_SIZE_def mod_if)

lemma kbd_count_less: "kbd_ok s \<Longrightarrow> kbd_count s < KBD_BUFFER_SIZE"
  by (simp add: kbd_count_def KBD_BUFFER_SIZE_def)

lemma kbd_full_iff:
  assumes "kbd_ok s"
  shows "(buffer_head s + 1) mod KBD_BUFFER_SIZE = buffer_tail s \<longleftrightarrow> \<not> kbd_count s < KBD_BUFFER_SIZE - 1"
  using assms kbd_count_eq[OF assms] ring_next[of "buffer_head s"] by (auto simp: kbd_ok_def KBD_BUFFER_SIZE_def split: if_splits)

lemma kbd_empty_iff: "kbd_ok s \<Longrightarrow> buffer_head s = buffer_tail s \<longleftrightarrow> kbd_count s = 0"
  by (auto simp: kbd_count_eq kbd_ok_def)

lemma kbd_put_contents:
  assumes "kbd_ok s"
  shows "kbd_contents (buffer_put c s) = (if length (kbd_contents s) < KBD_BUFFER_SIZE - 1 then kbd_contents s @ [c] else kbd_contents s)"
proof (cases "kbd_count s < KBD_BUFFER_SIZE - 1")
  case True
  let ?s = "s\<lparr>buffer := (buffer s)[buffer_head s := c], buffer_head := (buffer_head s + 1) mod KBD_BUFFER_SIZE\<rparr>"
  have put: "buffer_put c s = ?s" using True kbd_full_iff[OF assms] by (simp add: buffer_put_def Let_def)
  have ok: "kbd_ok ?s" using assms by (simp add: kbd_ok_def KBD_BUFFER_SIZE_def)
  have count: "kbd_count ?s = Suc (kbd_count s)"
    using True kbd_count_eq[OF assms] kbd_count_eq[OF ok] ring_next[of "buffer_head s"] assms
    by (auto simp: kbd_ok_def KBD_BUFFER_SIZE_def split: if_splits)
  have other: "(buffer_tail s + i) mod KBD_BUFFER_SIZE \<noteq> buffer_head s" if "i < kbd_count s" for i
    using assms that ring_mod[of "buffer_tail s" i] kbd_count_less[OF assms] kbd_count_eq[OF assms]
    by (auto simp: kbd_ok_def split: if_splits)
  have last: "(buffer_tail s + kbd_count s) mod KBD_BUFFER_SIZE = buffer_head s"
    using assms ring_mod[of "buffer_tail s" "kbd_count s"] kbd_count_less[OF assms] kbd_count_eq[OF assms]
    by (auto simp: kbd_ok_def split: if_splits)
  have keep: "map (\<lambda>i. (buffer s)[buffer_head s := c] ! ((buffer_tail s + i) mod KBD_BUFFER_SIZE)) [0..<kbd_count s] = kbd_contents s"
    unfolding kbd_contents_def by (rule map_cong[OF refl]) (metis other nth_list_update_neq atLeastLessThan_iff set_upt)
  show ?thesis using True last keep assms
    unfolding put kbd_contents_def[of ?s] count by (simp add: kbd_ok_def)
next
  case False
  then show ?thesis using kbd_full_iff[OF assms] by (simp add: buffer_put_def Let_def)
qed

lemma kbd_get_first:
  assumes "kbd_ok s" "kbd_contents s = x # xs"
  shows "fst (buffer_get s) = uint x \<and> kbd_contents (snd (buffer_get s)) = xs"
proof -
  have pos: "0 < kbd_count s" using arg_cong[OF assms(2), of length] by simp
  let ?s = "s\<lparr>buffer_tail := (buffer_tail s + 1) mod KBD_BUFFER_SIZE\<rparr>"
  have get: "buffer_get s = (uint (buffer s ! buffer_tail s), ?s)"
    using pos kbd_empty_iff[OF assms(1)] by (simp add: buffer_get_def)
  have ok: "kbd_ok ?s" using assms(1) by (simp add: kbd_ok_def KBD_BUFFER_SIZE_def)
  have count: "kbd_count ?s = kbd_count s - 1"
    using pos kbd_count_eq[OF assms(1)] kbd_count_eq[OF ok] ring_next[of "buffer_tail s"] assms(1)
    unfolding kbd_ok_def by (simp split: if_splits)
  have "kbd_contents s = buffer s ! buffer_tail s # kbd_contents ?s"
  proof (rule nth_equalityI)
    show "length (kbd_contents s) = length (buffer s ! buffer_tail s # kbd_contents ?s)" using pos count by simp
  next
    fix i assume i: "i < length (kbd_contents s)"
    show "kbd_contents s ! i = (buffer s ! buffer_tail s # kbd_contents ?s) ! i"
    proof (cases i)
      case 0
      then show ?thesis using i assms(1) by (simp add: kbd_contents_def kbd_ok_def)
    next
      case (Suc j)
      have "(buffer_tail s + Suc j) mod KBD_BUFFER_SIZE = ((buffer_tail s + 1) mod KBD_BUFFER_SIZE + j) mod KBD_BUFFER_SIZE"
        by (metis add.assoc mod_add_left_eq plus_1_eq_Suc)
      moreover have "j < kbd_count s - 1" using i Suc by simp
      ultimately show ?thesis using i Suc count by (simp add: kbd_contents_def)
    qed
  qed
  then show ?thesis using assms(2) get by simp
qed

interpretation kbd: bounded_queue kbd_ok kbd_contents "KBD_BUFFER_SIZE - 1" buffer_put buffer_get
proof
  fix s :: "'a input_state_scheme" and c :: u8
  assume "kbd_ok s"
  then show "kbd_ok (buffer_put c s)" by (simp add: kbd_ok_def buffer_put_def Let_def KBD_BUFFER_SIZE_def)
next
  fix s :: "'a input_state_scheme"
  assume "kbd_ok s"
  then show "kbd_ok (snd (buffer_get s))" by (simp add: kbd_ok_def buffer_get_def KBD_BUFFER_SIZE_def)
next
  fix s :: "'a input_state_scheme"
  assume "kbd_ok s" "kbd_contents s = []"
  then show "buffer_get s = (-1, s)"
    using kbd_empty_iff[of s] kbd_contents_length[of s] by (simp add: buffer_get_def)
qed (auto simp: kbd_put_contents dest: kbd_get_first)

text \<open>
  C33. Whatever the interleaving of characters from the interrupt handlers and reads, the ring buffer answers the reads as a
  list of at most 63 characters does: in the order of arrival, -1 when it is empty, and a character that arrives when it is full is dropped.
\<close>

theorem keyboard_buffer_refines_list:
  assumes "length (buffer s) = KBD_BUFFER_SIZE" "buffer_head s = 0" "buffer_tail s = 0"
  shows "queue_run keyboard_inject keyboard_getchar ops (s :: 'a input_state_scheme) = list_run 63 ops []"
proof -
  have "kbd_ok s" "kbd_contents s = []" using assms by (simp_all add: kbd_ok_def KBD_BUFFER_SIZE_def kbd_contents_def kbd_count_def)
  moreover have "keyboard_inject = (buffer_put :: u8 \<Rightarrow> 'a input_state_scheme \<Rightarrow> _)" "keyboard_getchar = (buffer_get :: 'a input_state_scheme \<Rightarrow> _)"
    by (auto simp: fun_eq_iff keyboard_inject_def keyboard_getchar_def)
  ultimately show ?thesis using kbd.run_refines[of s ops] by (simp add: KBD_BUFFER_SIZE_def)
qed

definition witness_acpi :: acpi_state where
  "witness_acpi = table_state.extend witness_tables (acpi_state.fields
     \<lparr>local_apic_address = 0, io_apic_address = 0, io_apic_id = 0, io_apic_gsi_base = 0, cpu_count = 0, cpu_apic_ids = [],
      has_pic = 0, override_count = 0, overrides = []\<rparr> 0 0 0)"

definition witness_input :: input_state where
  "witness_input = acpi_state.extend witness_acpi (input_state.fields (replicate 64 0) 0 0 False False False False 0)"

theorem keyboard_buffer_refines_list_witness:
  "queue_run keyboard_inject keyboard_getchar [Put 0x68, Put 0x69, Get, Get, Get] witness_input = [0x68, 0x69, -1]"
proof -
  have "length (buffer witness_input) = KBD_BUFFER_SIZE" "buffer_head witness_input = 0" "buffer_tail witness_input = 0"
    by (simp_all add: witness_input_def acpi_state.defs input_state.defs KBD_BUFFER_SIZE_def)
  note keyboard_buffer_refines_list[OF this, of "[Put 0x68, Put 0x69, Get, Get, Get]"]
  also have "list_run 63 [Put 0x68, Put 0x69, Get, Get, Get] [] = [0x68, 0x69, -1]" by simp
  finally show ?thesis .
qed

end
