(* ===== verification/Console_Bounds.thy ===== *)
theory Console_Bounds
  imports Console Keyboard_Queue
begin

text \<open>
  The console never draws outside the framebuffer and never indexes outside its scrollback ring: an invariant of the
  console's state, kept by every operation, and the set of pixels that the drawing functions may touch.
\<close>

section \<open>Drawing\<close>

text \<open>
  A framebuffer as the boot loader describes it: at least one line of text high, at most \<open>2 ^ 30\<close> pixels wide and high (so
  that no coordinate overflows an \<^verbatim>\<open>int\<close>), a row of pixels fits the pitch and the whole fits the address space.
\<close>

definition fb_ok :: "framebuffer \<Rightarrow> bool" where
  "fb_ok fb \<longleftrightarrow> 16 \<le> unat (fb_height fb) \<and> unat (fb_height fb) \<le> 2 ^ 30 \<and> unat (fb_width fb) \<le> 2 ^ 30
     \<and> 4 * unat (fb_width fb) \<le> unat (fb_pitch fb) \<and> unat (fb_pitch fb) div 4 * unat (fb_height fb) \<le> 2 ^ 62"

definition visible :: "framebuffer \<Rightarrow> u64 set" where
  "visible fb = {i. \<exists>x y. x < unat (fb_width fb) \<and> y < unat (fb_height fb) \<and> unat i = y * (unat (fb_pitch fb) div 4) + x}"

text \<open>The state \<open>s'\<close> differs from \<open>s\<close> in visible pixels only.\<close>

definition drawn :: "framebuffer \<Rightarrow> 'a console_state_scheme \<Rightarrow> 'a console_state_scheme \<Rightarrow> bool" where
  "drawn fb s s' \<longleftrightarrow> s' = s\<lparr>fb_pixels := fb_pixels s'\<rparr> \<and> (\<forall>i. i \<notin> visible fb \<longrightarrow> fb_pixels s' i = fb_pixels s i)"

lemma drawn_refl [simp]: "drawn fb s s"
  by (simp add: drawn_def)

lemma drawn_trans:
  assumes "drawn fb s s1" "drawn fb s1 s2"
  shows "drawn fb s s2"
proof -
  have s1: "s1 = s\<lparr>fb_pixels := fb_pixels s1\<rparr>" and s2: "s2 = s1\<lparr>fb_pixels := fb_pixels s2\<rparr>" using assms unfolding drawn_def by blast+
  have "s1\<lparr>fb_pixels := p\<rparr> = s\<lparr>fb_pixels := p\<rparr>" for p by (subst s1) simp
  then have "s2 = s\<lparr>fb_pixels := fb_pixels s2\<rparr>" using s2 by metis
  then show ?thesis using assms unfolding drawn_def by simp
qed

lemma drawn_fold:
  assumes "\<And>a t. a \<in> set xs \<Longrightarrow> drawn fb s t \<Longrightarrow> drawn fb t (f a t)"
  shows "drawn fb s (fold f xs s)"
  using assms
proof (induction xs rule: rev_induct)
  case (snoc a xs)
  then show ?case using drawn_trans[OF snoc.IH] by simp
qed simp

lemma drawn_fields:
  assumes "drawn fb s s'"
  shows "framebuffer s' = framebuffer s" "screen_rows s' = screen_rows s" "screen_cols s' = screen_cols s"
    "scrollback s' = scrollback s" "scrollback_head s' = scrollback_head s" "scrollback_count s' = scrollback_count s"
    "current_col s' = current_col s" "view_offset s' = view_offset s"
proof -
  have e: "s' = s\<lparr>fb_pixels := fb_pixels s'\<rparr>" using assms unfolding drawn_def by blast
  show "framebuffer s' = framebuffer s" "screen_rows s' = screen_rows s" "screen_cols s' = screen_cols s"
    "scrollback s' = scrollback s" "scrollback_head s' = scrollback_head s" "scrollback_count s' = scrollback_count s"
    "current_col s' = current_col s" "view_offset s' = view_offset s"
    by (subst e; simp)+
qed

lemma to_int_small:
  assumes "unat w < 2 ^ 31"
  shows "to_int w = uint w"
proof -
  have "int (unat w) < int (2 ^ 31)" using assms by (simp only: of_nat_less_iff)
  then have "uint w < 2 ^ 31" by simp
  moreover have "- (2 ^ 31) \<le> uint w" by (rule order_trans[of _ 0]) simp_all
  ultimately show ?thesis unfolding to_int_def by (rule signed_take_bit_int_eq_self[rotated])
qed

lemma fb_dims:
  assumes "fb_ok fb"
  shows "to_int (fb_width fb) = uint (fb_width fb)" "to_int (fb_height fb) = uint (fb_height fb)"
    "to_int (fb_width fb) \<le> 2 ^ 30" "to_int (fb_height fb) \<le> 2 ^ 30"
proof -
  have n: "unat (fb_width fb) \<le> 2 ^ 30" "unat (fb_height fb) \<le> 2 ^ 30" using assms by (simp_all add: fb_ok_def)
  then show w: "to_int (fb_width fb) = uint (fb_width fb)" and h: "to_int (fb_height fb) = uint (fb_height fb)"
    by (simp_all add: to_int_small)
  have "int (unat (fb_width fb)) \<le> int (2 ^ 30)" "int (unat (fb_height fb)) \<le> int (2 ^ 30)" using n by (simp_all only: of_nat_le_iff)
  then show "to_int (fb_width fb) \<le> 2 ^ 30" "to_int (fb_height fb) \<le> 2 ^ 30" unfolding w h by simp_all
qed

lemma int32_id: "- (2 ^ 31) \<le> k \<Longrightarrow> k < 2 ^ 31 \<Longrightarrow> int32 k = k"
  unfolding int32_def by (rule signed_take_bit_int_eq_self)

lemma nat_less_unat: "0 \<le> x \<Longrightarrow> x < uint w \<Longrightarrow> nat x < unat w"
  by (simp add: nat_less_iff)

lemma put_pixel_drawn:
  assumes "fb_ok fb" "0 \<le> x" "x < to_int (fb_width fb)" "0 \<le> y" "y < to_int (fb_height fb)"
  shows "drawn fb s (put_pixel fb x y color s)"
proof -
  let ?p = "unat (fb_pitch fb) div 4"
  have xy: "nat x < unat (fb_width fb)" "nat y < unat (fb_height fb)"
    using assms fb_dims[OF assms(1)] by (auto intro!: nat_less_unat)
  have "unat (fb_width fb) \<le> ?p" using assms(1) by (simp add: fb_ok_def less_eq_div_iff_mult_less_eq mult.commute)
  then have "nat x < ?p" using xy(1) by linarith
  then have "nat y * ?p + nat x < Suc (nat y) * ?p" by simp
  also have "\<dots> \<le> unat (fb_height fb) * ?p" using xy(2) by (intro mult_le_mono1) simp
  also have "\<dots> \<le> 2 ^ 62" using assms(1) by (simp add: fb_ok_def mult.commute)
  finally have small: "nat y * ?p + nat x < 2 ^ 62" .
  have "unat (fb_pitch fb div 4) = ?p" by (simp add: unat_div)
  then have p: "fb_pitch fb div 4 = of_nat ?p" by (metis of_nat_unat ucast_id)
  have "pixel_index fb x y = of_nat (nat y * ?p + nat x)"
    unfolding pixel_index_def p using of_nat_nat[OF assms(2), where 'a = "64 word"] of_nat_nat[OF assms(4), where 'a = "64 word"]
    by (simp only: of_nat_add of_nat_mult)
  moreover have "unat (of_nat n :: u64) = n" if "n < 2 ^ 62" for n using that by (simp add: unat_of_nat)
  ultimately have "unat (pixel_index fb x y) = nat y * ?p + nat x" using small by metis
  then have "pixel_index fb x y \<in> visible fb" using xy unfolding visible_def by blast
  then show ?thesis by (auto simp: drawn_def put_pixel_def)
qed

lemma draw_pixels_drawn:
  assumes "fb_ok fb" "0 \<le> x" "0 \<le> y" "\<And>col. col \<in> set cols \<Longrightarrow> x + int col < to_int (fb_width fb)"
    "\<And>row. row \<in> set rows \<Longrightarrow> y + int row < to_int (fb_height fb)"
  shows "drawn fb s (draw_pixels fb rows cols x y f s)"
  unfolding draw_pixels_def
  by (intro drawn_fold put_pixel_drawn assms) (use assms(2,3) in auto)

lemma set_takeWhileD': "a \<in> set (takeWhile P xs) \<Longrightarrow> P a"
  by (blast dest: set_takeWhileD)

lemma fill_rect_drawn:
  assumes "fb_ok fb" "framebuffer s = Some fb" "0 \<le> x" "0 \<le> y"
  shows "drawn fb s (console_fill_rect x y w h color s)"
  using assms by (auto simp: console_fill_rect_def Let_def intro!: draw_pixels_drawn dest!: set_takeWhileD')

lemma draw_char_drawn:
  assumes "fb_ok fb" "framebuffer s = Some fb"
  shows "drawn fb s (console_draw_char font c x y color s)"
  using assms fb_dims(3,4)[OF assms(1)] by (auto simp: console_draw_char_def Let_def int32_id intro!: draw_pixels_drawn)

lemma draw_string_drawn:
  assumes "fb_ok fb" "framebuffer s = Some fb"
  shows "drawn fb s (console_draw_string font str x y color s)"
  using assms
proof (induction str arbitrary: x s)
  case (Cons c str)
  note d = draw_char_drawn[OF Cons.prems, of font c x y color]
  show ?case using drawn_trans[OF d Cons.IH] Cons.prems drawn_fields(1)[OF d] by simp
qed simp

lemma draw_image_drawn:
  assumes "fb_ok fb" "framebuffer s = Some fb" "0 \<le> x" "0 \<le> y"
  shows "drawn fb s (console_draw_image pixels w h x y s)"
  using assms by (auto simp: console_draw_image_def Let_def intro!: draw_pixels_drawn dest!: set_takeWhileD')

lemma render_line_drawn:
  assumes "fb_ok fb" "framebuffer s = Some fb"
  shows "drawn fb s (render_line font row s)"
  using assms by (auto simp: render_line_def drawn_fields intro!: drawn_fold draw_char_drawn split: option.split)

lemma render_view_drawn:
  fixes s :: "'a console_state_scheme"
  assumes "fb_ok fb" "framebuffer s = Some fb"
  shows "drawn fb s (render_view font s)"
proof -
  have c: "drawn fb s (console_fill_rect 0 0 w h 0 s)" for w h by (rule fill_rect_drawn[OF assms]) simp_all
  have "drawn fb t (fold (render_line font) xs t)" if "framebuffer t = Some fb" for t :: "'a console_state_scheme" and xs
    by (intro drawn_fold render_line_drawn assms(1)) (simp add: drawn_fields that)
  from drawn_trans[OF c this] show ?thesis using assms(2) drawn_fields(1)[OF c] by (simp add: render_view_def)
qed

section \<open>The invariant\<close>

definition line_ok :: "console_line \<Rightarrow> bool" where
  "line_ok l \<longleftrightarrow> length (cells l) = MAX_COLS \<and> 0 \<le> line_length l \<and> line_length l \<le> int MAX_COLS"

definition console_ok :: "framebuffer \<Rightarrow> 'a console_state_scheme \<Rightarrow> bool" where
  "console_ok fb s \<longleftrightarrow> fb_ok fb \<and> framebuffer s = Some fb \<and> 0 < screen_rows s \<and> 0 \<le> screen_cols s
     \<and> length (scrollback s) = SCROLLBACK_LINES \<and> (\<forall>l \<in> set (scrollback s). line_ok l)
     \<and> scrollback_head s < SCROLLBACK_LINES \<and> 1 \<le> scrollback_count s \<and> scrollback_count s \<le> SCROLLBACK_LINES
     \<and> 0 \<le> current_col s \<and> current_col s \<le> int MAX_COLS \<and> 0 \<le> view_offset s \<and> (view_offset s = 0 \<or> view_offset s \<le> int (scrollback_count s) - screen_rows s)"

lemma drawn_ok: "drawn fb s s' \<Longrightarrow> console_ok fb s' = console_ok fb s"
  by (simp add: console_ok_def drawn_fields)

text \<open>An operation that keeps the invariant and draws inside the framebuffer.\<close>

definition safe :: "framebuffer \<Rightarrow> 'a console_state_scheme \<Rightarrow> 'a console_state_scheme \<Rightarrow> bool" where
  "safe fb s s' \<longleftrightarrow> console_ok fb s' \<and> (\<forall>i. i \<notin> visible fb \<longrightarrow> fb_pixels s' i = fb_pixels s i)"

lemma safe_refl: "console_ok fb s \<Longrightarrow> safe fb s s"
  by (simp add: safe_def)

lemma safe_ok: "safe fb s s' \<Longrightarrow> console_ok fb s'"
  by (simp add: safe_def)

lemma safe_trans: "safe fb s s1 \<Longrightarrow> safe fb s1 s2 \<Longrightarrow> safe fb s s2"
  by (simp add: safe_def)

lemma drawn_safe: "console_ok fb s \<Longrightarrow> drawn fb s s' \<Longrightarrow> safe fb s s'"
  by (simp add: safe_def drawn_ok) (simp add: drawn_def)

lemma console_okD: "console_ok fb s \<Longrightarrow> fb_ok fb" "console_ok fb s \<Longrightarrow> framebuffer s = Some fb"
  by (simp_all add: console_ok_def)

section \<open>The operations keep it\<close>

lemma line_ok_upd: "length xs = n \<Longrightarrow> i < n \<Longrightarrow> (\<forall>l \<in> set xs. line_ok l) \<Longrightarrow> line_ok l \<Longrightarrow> \<forall>l \<in> set (xs[i := l]). line_ok l"
  using set_update_subset_insert[of xs i l] by auto

lemma set_line_length_safe:
  assumes "console_ok fb s" "i < SCROLLBACK_LINES" "0 \<le> n" "n \<le> int MAX_COLS"
  shows "safe fb s (set_line_length i n s)"
proof -
  have "line_ok ((scrollback s ! i)\<lparr>line_length := n\<rparr>)" using assms by (simp add: console_ok_def line_ok_def)
  then show ?thesis using assms line_ok_upd[of "scrollback s" SCROLLBACK_LINES i]
    by (simp add: safe_def console_ok_def set_line_length_def)
qed

lemma scrollback_newline_safe:
  assumes "console_ok fb s"
  shows "safe fb s (scrollback_newline s)"
proof -
  let ?h = "(scrollback_head s + 1) mod SCROLLBACK_LINES"
  let ?s = "s\<lparr>scrollback_head := ?h, scrollback_count := if scrollback_count s < SCROLLBACK_LINES then scrollback_count s + 1 else scrollback_count s,
      current_col := 0\<rparr>"
  have h: "?h < SCROLLBACK_LINES" by (simp add: SCROLLBACK_LINES_def)
  have s: "safe fb s ?s" using assms h by (auto simp: safe_def console_ok_def)
  have "safe fb s (set_line_length ?h 0 ?s)" by (rule safe_trans[OF s set_line_length_safe[OF safe_ok[OF s] h]]) simp_all
  moreover have "scrollback_newline s = set_line_length ?h 0 ?s"
    by (simp add: scrollback_newline_def Let_def set_line_length_def)
  ultimately show ?thesis by simp
qed

lemma scrollback_init_safe:
  assumes "console_ok fb s"
  shows "safe fb s (scrollback_init s)"
proof -
  let ?s = "s\<lparr>scrollback_head := 0, scrollback_count := 1, view_offset := 0, current_col := 0\<rparr>"
  have s: "safe fb s ?s" using assms by (simp add: safe_def console_ok_def SCROLLBACK_LINES_def)
  show ?thesis unfolding scrollback_init_def
    by (rule safe_trans[OF s set_line_length_safe[OF safe_ok[OF s]]]) (simp_all add: SCROLLBACK_LINES_def)
qed

lemma scrollback_putchar_safe:
  assumes "console_ok fb s"
  shows "safe fb s (scrollback_putchar c color s)"
proof (cases "current_col s < int MAX_COLS")
  case True
  let ?l = "scrollback s ! scrollback_head s"
  have "line_ok ?l" using assms by (simp add: console_ok_def)
  then have "line_ok (?l\<lparr>cells := (cells ?l)[nat (current_col s) := \<lparr>ch = c, cell_color = color\<rparr>], line_length := current_col s + 1\<rparr>)"
    using True assms by (simp add: line_ok_def console_ok_def)
  then show ?thesis using assms True line_ok_upd[of "scrollback s" SCROLLBACK_LINES "scrollback_head s"]
    by (simp add: safe_def console_ok_def scrollback_putchar_def Let_def)
qed (use assms in \<open>simp add: scrollback_putchar_def safe_refl\<close>)

lemma safe_fold:
  assumes "console_ok fb s" "\<And>a t. a \<in> set xs \<Longrightarrow> console_ok fb t \<Longrightarrow> safe fb t (f a t)"
  shows "safe fb s (fold f xs s)"
  using assms
proof (induction xs arbitrary: s)
  case (Cons a xs)
  have a: "safe fb s (f a s)" using Cons.prems by simp
  have "safe fb (f a s) (fold f xs (f a s))" by (rule Cons.IH[OF safe_ok[OF a]]) (use Cons.prems in simp)
  from safe_trans[OF a this] show ?case by simp
qed (simp add: safe_refl)

lemma draw_safe:
  assumes "console_ok fb s"
  shows "safe fb s (render_view font s)" "safe fb s (console_draw_char font c x y color s)"
    and "0 \<le> x \<Longrightarrow> 0 \<le> y \<Longrightarrow> safe fb s (console_fill_rect x y w h color s)"
    and "0 \<le> x \<Longrightarrow> 0 \<le> y \<Longrightarrow> safe fb s (console_draw_image pixels w h x y s)"
    and "safe fb s (console_draw_string font str x y color s)"
proof -
  note d = drawn_safe[OF assms] and ok = console_okD[OF assms]
  show "safe fb s (render_view font s)" by (rule d[OF render_view_drawn[OF ok]])
  show "safe fb s (console_draw_char font c x y color s)" by (rule d[OF draw_char_drawn[OF ok]])
  show "0 \<le> x \<Longrightarrow> 0 \<le> y \<Longrightarrow> safe fb s (console_fill_rect x y w h color s)" by (rule d[OF fill_rect_drawn[OF ok]])
  show "0 \<le> x \<Longrightarrow> 0 \<le> y \<Longrightarrow> safe fb s (console_draw_image pixels w h x y s)" by (rule d[OF draw_image_drawn[OF ok]])
  show "safe fb s (console_draw_string font str x y color s)" by (rule d[OF draw_string_drawn[OF ok]])
qed

lemma newline_scroll_safe: "console_ok fb s \<Longrightarrow> safe fb s (newline_scroll font s)"
  using scrollback_newline_safe[of fb s] safe_trans[OF _ draw_safe(1)[OF safe_ok], of fb s "scrollback_newline s"]
  by (simp add: newline_scroll_def Let_def)

lemma tab_spaces_safe: "console_ok fb s \<Longrightarrow> safe fb s (tab_spaces color s)"
  unfolding tab_spaces_def by (rule safe_fold) (simp_all add: scrollback_putchar_safe safe_refl)

text \<open>Changing fields that the invariant does not mention.\<close>

lemma cursor_fields_safe:
  "console_ok fb s \<Longrightarrow> safe fb s (s\<lparr>cursor_draw_x := x, cursor_draw_y := y\<rparr>)"
  "console_ok fb s \<Longrightarrow> safe fb s (s\<lparr>cursor_visible := v\<rparr>)"
  "console_ok fb s \<Longrightarrow> safe fb s (s\<lparr>cursor_last_toggle := k\<rparr>)"
  "console_ok fb s \<Longrightarrow> safe fb s (s\<lparr>fullscreen_mode := v\<rparr>)"
  "console_ok fb s \<Longrightarrow> safe fb s (s\<lparr>view_offset := 0\<rparr>)"
  by (simp_all add: safe_def console_ok_def)

lemma draw_cursor_safe:
  assumes "console_ok fb s"
  shows "safe fb s (draw_cursor s)"
proof -
  obtain x y where p: "get_cursor_position s = (x, y)" by fastforce
  have d: "0 \<le> x \<Longrightarrow> 0 \<le> y \<Longrightarrow> safe fb s ((console_fill_rect x (y + 14) 8 2 CURSOR_COLOR s)\<lparr>cursor_draw_x := x, cursor_draw_y := y\<rparr>)"
    by (rule safe_trans[OF draw_safe(3)[OF assms] cursor_fields_safe(1)[OF safe_ok[OF draw_safe(3)[OF assms]]]]) simp_all
  show ?thesis using d console_okD(2)[OF assms] by (simp add: draw_cursor_def p safe_refl assms)
qed

lemma erase_cursor_safe: "console_ok fb s \<Longrightarrow> safe fb s (erase_cursor s)"
  using draw_safe(3)[of fb s] console_okD(2)[of fb s] by (auto simp: erase_cursor_def safe_refl)

lemma safe_then: "safe fb s t \<Longrightarrow> (console_ok fb t \<Longrightarrow> safe fb t u) \<Longrightarrow> safe fb s u"
  using safe_trans safe_ok by blast

lemma safe_if: "(P \<Longrightarrow> safe fb s a) \<Longrightarrow> (\<not> P \<Longrightarrow> safe fb s b) \<Longrightarrow> safe fb s (if P then a else b)"
  by simp

lemma backspace_safe:
  assumes "console_ok fb s" "current_col s > 0" "0 \<le> y"
  shows "safe fb s (let s' = set_line_length (scrollback_head s) (current_col s - 1) (s\<lparr>current_col := current_col s - 1\<rparr>)
    in console_fill_rect (current_col s' * 8) y 8 16 0 s')"
proof -
  let ?s = "s\<lparr>current_col := current_col s - 1\<rparr>"
  have a: "safe fb s ?s" using assms by (auto simp: safe_def console_ok_def)
  have l: "scrollback_head s < SCROLLBACK_LINES" "0 \<le> current_col s - 1" "current_col s - 1 \<le> int MAX_COLS"
    using assms(1,2) by (auto simp: console_ok_def)
  have b: "safe fb s (set_line_length (scrollback_head s) (current_col s - 1) ?s)"
    by (rule safe_then[OF a set_line_length_safe[OF _ l]])
  show ?thesis unfolding Let_def by (rule safe_then[OF b draw_safe(3)]) (use assms(2,3) in \<open>simp_all add: set_line_length_def\<close>)
qed

lemma tab_safe:
  assumes "console_ok fb s"
  shows "safe fb s (let old_col = current_col s; s' = tab_spaces color s
    in fold (\<lambda>i s. console_draw_char font 0x20 (i * 8) y color s) [old_col..current_col s' - 1] s')"
  unfolding Let_def by (rule safe_then[OF tab_spaces_safe[OF assms] safe_fold]) (simp_all add: draw_safe(2))

lemma console_putchar_safe:
  assumes "console_ok fb s"
  shows "safe fb s (console_putchar font c color s)"
proof (cases "fullscreen_mode s")
  case True
  then show ?thesis by (simp add: console_putchar_def safe_refl assms)
next
  case False
  define s0 where "s0 = (if view_offset s > 0 then render_view font (s\<lparr>view_offset := 0\<rparr>) else s)"
  have a: "safe fb s s0" unfolding s0_def
    using safe_then[OF cursor_fields_safe(5)[OF assms] draw_safe(1)] safe_refl[OF assms] by simp
  have ok: "console_ok fb s0" by (rule safe_ok[OF a])
  define screen_row where "screen_row = (if int (scrollback_count s0) - 1 \<ge> screen_rows s0 then screen_rows s0 - 1 else int (scrollback_count s0) - 1)"
  have r: "0 \<le> screen_row * 16" using ok by (auto simp: screen_row_def console_ok_def)
  define s1 where "s1 = (if c = 0x0A then newline_scroll font s0
      else if c = 0x0D then s0\<lparr>current_col := 0\<rparr>
      else if c = 0x08 then
        (if current_col s0 > 0
         then let s' = set_line_length (scrollback_head s0) (current_col s0 - 1) (s0\<lparr>current_col := current_col s0 - 1\<rparr>)
              in console_fill_rect (current_col s' * 8) (screen_row * 16) 8 16 0 s'
         else s0)
      else if c = 0x09 then
        (let old_col = current_col s0; s' = tab_spaces color s0
         in fold (\<lambda>i s. console_draw_char font 0x20 (i * 8) (screen_row * 16) color s) [old_col..current_col s' - 1] s')
      else let draw_col = current_col s0
           in console_draw_char font c (draw_col * 8) (screen_row * 16) color (scrollback_putchar c color s0))"
  have cr: "safe fb s0 (s0\<lparr>current_col := 0\<rparr>)" using ok by (simp add: safe_def console_ok_def)
  have ch: "safe fb s0 (let draw_col = current_col s0
      in console_draw_char font c (draw_col * 8) (screen_row * 16) color (scrollback_putchar c color s0))"
    unfolding Let_def by (rule safe_then[OF scrollback_putchar_safe[OF ok] draw_safe(2)])
  have "safe fb s0 s1" unfolding s1_def
    by (intro safe_if newline_scroll_safe[OF ok] cr backspace_safe[OF ok _ r] tab_safe[OF ok] ch safe_refl[OF ok])
  then have b: "safe fb s s1" by (rule safe_trans[OF a])
  have e: "(framebuffer s = None \<or> fullscreen_mode s) = False" using False console_okD(2)[OF assms] by simp
  have "console_putchar font c color s = (if current_col s1 \<ge> screen_cols s1 then newline_scroll font s1 else s1)"
    unfolding console_putchar_def e if_False Let_def s1_def screen_row_def s0_def by (rule refl)
  then show ?thesis by (simp only:) (intro safe_if b safe_then[OF b newline_scroll_safe])
qed

lemma extend_rows_safe:
  assumes "console_ok fb s"
  shows "safe fb s (extend_rows n s)"
  using assms
proof (induction n s rule: extend_rows.induct)
  case (1 n s)
  show ?case
  proof (cases "int (scrollback_count s) \<le> n \<and> scrollback_count s < SCROLLBACK_LINES")
    case True
    have "extend_rows n s = extend_rows n (scrollback_newline s)" using True by (simp add: extend_rows.simps[of n s])
    then show ?thesis using safe_then[OF scrollback_newline_safe[OF 1(2)] 1(1)[OF True]] by simp
  next
    case False
    have "extend_rows n s = s" using False by (auto simp: extend_rows.simps[of n s])
    then show ?thesis using safe_refl[OF 1(2)] by simp
  qed
qed

section \<open>Runs\<close>

datatype console_op = Putchar u8 u32 | Scroll_back int | Scroll_forward int | Scroll_to_bottom | Clear u32
  | Update_cursor u64 | Hide_cursor | Show_cursor | Fullscreen bool | Set_cursor int int
  | Draw_char u8 int int u32 | Draw_string "u8 list" int int u32 | Fill_rect int int int int u32
  | Draw_image "int \<Rightarrow> u32" int int int int

fun console_step :: "(nat \<Rightarrow> u8) \<Rightarrow> console_op \<Rightarrow> 'a console_state_scheme \<Rightarrow> 'a console_state_scheme" where
  "console_step font (Putchar c color) s = console_putchar font c color s"
| "console_step font (Scroll_back n) s = console_scroll_back font n s"
| "console_step font (Scroll_forward n) s = console_scroll_forward font n s"
| "console_step font Scroll_to_bottom s = console_scroll_to_bottom font s"
| "console_step font (Clear color) s = console_clear color s"
| "console_step font (Update_cursor ticks) s = console_update_cursor ticks s"
| "console_step font Hide_cursor s = console_hide_cursor s"
| "console_step font Show_cursor s = console_show_cursor s"
| "console_step font (Fullscreen b) s = console_set_fullscreen b s"
| "console_step font (Set_cursor x y) s = console_set_cursor x y s"
| "console_step font (Draw_char c x y color) s = console_draw_char font c x y color s"
| "console_step font (Draw_string str x y color) s = console_draw_string font str x y color s"
| "console_step font (Fill_rect x y w h color) s = console_fill_rect x y w h color s"
| "console_step font (Draw_image pixels w h x y) s = console_draw_image pixels w h x y s"

text \<open>
  What the console needs of its callers: no negative coordinates for rectangles, images and the cursor column, which the
  code does not check, and no distance (an \<^verbatim>\<open>int\<close>) so large that adding it to the view offset overflows.
\<close>

fun op_ok :: "console_op \<Rightarrow> bool" where
  "op_ok (Fill_rect x y w h color) \<longleftrightarrow> 0 \<le> x \<and> 0 \<le> y"
| "op_ok (Draw_image pixels w h x y) \<longleftrightarrow> 0 \<le> x \<and> 0 \<le> y"
| "op_ok (Set_cursor x y) \<longleftrightarrow> 0 \<le> x"
| "op_ok (Scroll_back n) \<longleftrightarrow> n < 2 ^ 31 - 1000"
| "op_ok (Scroll_forward n) \<longleftrightarrow> n < 2 ^ 31"
| "op_ok _ \<longleftrightarrow> True"

lemma view_safe:
  assumes "console_ok fb s" "0 \<le> v" "v = 0 \<or> v \<le> int (scrollback_count s) - screen_rows s"
  shows "safe fb s (render_view font (s\<lparr>view_offset := v\<rparr>))"
proof -
  have "safe fb s (s\<lparr>view_offset := v\<rparr>)" using assms by (simp add: safe_def console_ok_def)
  then show ?thesis by (rule safe_then[OF _ draw_safe(1)])
qed

lemma cursor_safe:
  assumes "console_ok fb s"
  shows "safe fb s (console_hide_cursor s)" "safe fb s (console_show_cursor s)" "safe fb s (console_update_cursor ticks s)"
proof -
  note e = erase_cursor_safe[OF assms] and d = draw_cursor_safe[OF assms] and f = cursor_fields_safe
  have ev: "safe fb s ((erase_cursor s)\<lparr>cursor_visible := v\<rparr>)" for v by (rule safe_then[OF e f(2)])
  have dv: "safe fb s ((draw_cursor s)\<lparr>cursor_visible := v\<rparr>)" for v by (rule safe_then[OF d f(2)])
  show "safe fb s (console_hide_cursor s)" "safe fb s (console_show_cursor s)"
    using ev dv safe_refl[OF assms] by (simp_all add: console_hide_cursor_def console_show_cursor_def)
  have t: "safe fb s (s\<lparr>cursor_last_toggle := ticks\<rparr>)" by (rule f(3)[OF assms])
  have t1: "safe fb s ((erase_cursor (s\<lparr>cursor_last_toggle := ticks\<rparr>))\<lparr>cursor_visible := False\<rparr>)"
    by (rule safe_then[OF safe_then[OF t erase_cursor_safe] f(2)])
  have t2: "safe fb s ((draw_cursor (s\<lparr>cursor_last_toggle := ticks\<rparr>))\<lparr>cursor_visible := True\<rparr>)"
    by (rule safe_then[OF safe_then[OF t draw_cursor_safe] f(2)])
  have m: "safe fb s ((draw_cursor (erase_cursor s))\<lparr>cursor_last_toggle := ticks\<rparr>)"
    by (rule safe_then[OF safe_then[OF e draw_cursor_safe] f(3)])
  show "safe fb s (console_update_cursor ticks s)"
    using t1 t2 m safe_refl[OF assms] by (simp add: console_update_cursor_def Let_def split: prod.split)
qed

lemma console_step_safe:
  assumes "console_ok fb s" "op_ok op"
  shows "safe fb s (console_step font op s)"
proof (cases op)
  case (Scroll_back n)
  have v: "0 < n \<Longrightarrow> int32 (view_offset s + n) = view_offset s + n"
    using assms Scroll_back by (intro int32_id) (auto simp: console_ok_def SCROLLBACK_LINES_def)
  show ?thesis using assms(1) v view_safe[OF assms(1)] safe_refl[OF assms(1)] Scroll_back
    by (auto simp: console_scroll_back_def Let_def console_ok_def)
next
  case (Scroll_forward n)
  have v: "0 < n \<Longrightarrow> int32 (view_offset s - n) = view_offset s - n"
    using assms Scroll_forward by (intro int32_id) (auto simp: console_ok_def SCROLLBACK_LINES_def)
  show ?thesis using assms(1) v view_safe[OF assms(1)] safe_refl[OF assms(1)] Scroll_forward
    by (auto simp: console_scroll_forward_def Let_def console_ok_def)
next
  case Scroll_to_bottom
  have v: "safe fb s (render_view font (s\<lparr>view_offset := 0\<rparr>))" by (rule view_safe[OF assms(1)]) simp_all
  show ?thesis using Scroll_to_bottom v safe_then[OF v draw_cursor_safe] safe_refl[OF assms(1)]
    by (simp add: console_scroll_to_bottom_def Let_def)
next
  case (Clear color)
  have "safe fb s (console_fill_rect 0 0 w h color s)" for w h by (rule draw_safe(3)[OF assms(1)]) simp_all
  from safe_then[OF this scrollback_init_safe] show ?thesis using Clear console_okD(2)[OF assms(1)] by (simp add: console_clear_def)
next
  case (Fullscreen b)
  have f: "safe fb s (s\<lparr>fullscreen_mode := b\<rparr>)" by (rule cursor_fields_safe(4)[OF assms(1)])
  show ?thesis using Fullscreen safe_then[OF f cursor_safe(1)] safe_then[OF f cursor_safe(2)]
    by (cases b) (simp_all add: console_set_fullscreen_def)
next
  case (Set_cursor x y)
  have "x sdiv 8 = x div 8" using assms(2) Set_cursor by (simp add: signed_divide_int_def sgn_if)
  then have "safe fb s (s\<lparr>current_col := if x sdiv 8 \<ge> int MAX_COLS then int MAX_COLS - 1 else x sdiv 8\<rparr>)"
    using assms Set_cursor by (simp add: safe_def console_ok_def MAX_COLS_def pos_imp_zdiv_nonneg_iff)
  from safe_then[OF this extend_rows_safe] show ?thesis using Set_cursor by (simp add: console_set_cursor_def Let_def)
next
  case (Fill_rect x y w h color)
  then show ?thesis using draw_safe(3)[OF assms(1)] assms(2) by simp
next
  case (Draw_image pixels w h x y)
  then show ?thesis using draw_safe(4)[OF assms(1)] assms(2) by simp
qed (simp_all add: console_putchar_safe draw_safe(2,5) cursor_safe assms(1))

lemma console_run_safe:
  assumes "console_ok fb s" "\<forall>op \<in> set ops. op_ok op"
  shows "safe fb s (fold (console_step font) ops s)"
  by (rule safe_fold[OF assms(1)]) (simp add: console_step_safe assms(2))

lemma console_init_ok:
  assumes "fb_ok fb" "length (scrollback s) = SCROLLBACK_LINES" "\<forall>l \<in> set (scrollback s). line_ok l"
  shows "console_ok fb (console_init (Some fb) s)" "fb_pixels (console_init (Some fb) s) = fb_pixels s"
proof -
  let ?l = "(scrollback s ! 0)\<lparr>line_length := 0\<rparr>"
  have z: "0 < SCROLLBACK_LINES" by (simp add: SCROLLBACK_LINES_def)
  have "line_ok ?l" using assms(2,3) z by (simp add: line_ok_def)
  then have l: "\<forall>l \<in> set ((scrollback s)[0 := ?l]). line_ok l" by (rule line_ok_upd[OF assms(2) z assms(3)])
  have h: "unat (fb_height fb div 16) = unat (fb_height fb) div 16" "unat (fb_width fb div 8) = unat (fb_width fb) div 8"
    by (simp_all add: unat_div)
  then have u: "unat (fb_height fb div 16) < 2 ^ 31" "unat (fb_width fb div 8) < 2 ^ 31" "unat (fb_height fb div 16) \<noteq> 0"
    using assms(1) by (auto simp: fb_ok_def)
  have "0 < int (unat (fb_height fb div 16))" using u(3) by (simp only: of_nat_0_less_iff neq0_conv)
  then have "0 < to_int (fb_height fb div 16)" "0 \<le> to_int (fb_width fb div 8)"
    by (simp_all add: to_int_small[OF u(1)] to_int_small[OF u(2)])
  then show "console_ok fb (console_init (Some fb) s)"
    using assms l z by (simp add: console_ok_def console_init_def scrollback_init_def set_line_length_def Let_def)
  show "fb_pixels (console_init (Some fb) s) = fb_pixels s"
    by (simp add: console_init_def scrollback_init_def set_line_length_def Let_def)
qed

text \<open>
  C36. From its initialisation on a screen at least 16 pixels high, whatever is printed, scrolled, cleared, filled or drawn
  and wherever the cursor blinks, the console changes only pixels of the screen: the index of a changed pixel lies in one of
  the rows, left of the width, and so inside the framebuffer. Characters and strings may be drawn at any coordinates; rectangles and images
  need non-negative ones (\<open>op_ok\<close>).
\<close>

theorem console_run_in_framebuffer:
  assumes "fb_ok fb" "length (scrollback s) = SCROLLBACK_LINES" "\<forall>l \<in> set (scrollback s). line_ok l" "\<forall>op \<in> set ops. op_ok op"
  shows "fb_pixels (fold (console_step font) ops (console_init (Some fb) s)) i = fb_pixels s i
    \<or> unat i div (unat (fb_pitch fb) div 4) < unat (fb_height fb) \<and> unat i mod (unat (fb_pitch fb) div 4) < unat (fb_width fb)
      \<and> unat i < unat (fb_pitch fb) div 4 * unat (fb_height fb)"
  unfolding disj_imp
proof (rule impI)
  let ?p = "unat (fb_pitch fb) div 4"
  assume n: "fb_pixels (fold (console_step font) ops (console_init (Some fb) s)) i \<noteq> fb_pixels s i"
  note init = console_init_ok[OF assms(1-3)]
  have "i \<in> visible fb" using console_run_safe[OF init(1) assms(4), of font] n init(2) unfolding safe_def by metis
  then obtain x y where xy: "x < unat (fb_width fb)" "y < unat (fb_height fb)" "unat i = y * ?p + x" unfolding visible_def by blast
  have "unat (fb_width fb) \<le> ?p" using assms(1) by (simp add: fb_ok_def less_eq_div_iff_mult_less_eq mult.commute)
  then have x: "x < ?p" using xy(1) by linarith
  have "y * ?p + x < Suc y * ?p" using x by simp
  also have "\<dots> \<le> unat (fb_height fb) * ?p" using xy(2) by (intro mult_le_mono1) simp
  finally show "unat i div ?p < unat (fb_height fb) \<and> unat i mod ?p < unat (fb_width fb) \<and> unat i < ?p * unat (fb_height fb)"
    using xy x by (simp add: mult.commute)
qed

text \<open>
  C37. From its initialisation on every operation whose arguments are as in \<open>op_ok\<close> (the cursor is not set to a negative column, the view is not
  scrolled by nearly \<open>2 ^ 31\<close> lines) keeps the console's state well-formed: the write position lies in the ring of 1000 lines, every
  line has its 160 cells and uses at most these, the column is between 0 and 160, and the view is never scrolled back further than there are lines.
\<close>

theorem console_run_wf:
  assumes "fb_ok fb" "length (scrollback s) = SCROLLBACK_LINES" "\<forall>l \<in> set (scrollback s). line_ok l" "\<forall>op \<in> set ops. op_ok op"
    and "s' = fold (console_step font) ops (console_init (Some fb) s)"
  shows "length (scrollback s') = 1000 \<and> scrollback_head s' < 1000 \<and> 1 \<le> scrollback_count s' \<and> scrollback_count s' \<le> 1000
    \<and> (\<forall>k < 1000. length (cells (scrollback s' ! k)) = 160 \<and> 0 \<le> line_length (scrollback s' ! k) \<and> line_length (scrollback s' ! k) \<le> 160)
    \<and> 0 \<le> current_col s' \<and> current_col s' \<le> 160
    \<and> 0 \<le> view_offset s' \<and> view_offset s' \<le> max 0 (int (scrollback_count s') - screen_rows s')"
proof -
  have "console_ok fb s'" using console_run_safe[OF console_init_ok(1)[OF assms(1-3)] assms(4), of font] assms(5) by (simp add: safe_def)
  then show ?thesis by (auto simp: console_ok_def line_ok_def SCROLLBACK_LINES_def MAX_COLS_def)
qed

text \<open>
  Each condition of \<open>op_ok\<close> is needed: a rectangle above the screen changes memory in front of the framebuffer, a negative
  cursor position gives a negative column, and scrolling far back overflows to a negative view offset.
\<close>

lemma console_fill_rect_negative:
  assumes "fb_ok fb" "framebuffer s = Some fb" "0 < unat (fb_width fb)"
  shows "fb_pixels (console_fill_rect 0 (-1) 1 1 color s) (- (fb_pitch fb div 4)) = color"
proof -
  have "0 < to_int (fb_width fb)" using fb_dims(1)[OF assms(1)] assms(3)
    by (metis of_nat_0_less_iff uint_nat)
  moreover have "- 1 < to_int (fb_height fb)" using fb_dims(2)[OF assms(1)] by (simp add: order.strict_trans2[of _ 0])
  ultimately show ?thesis using assms(2)
    by (simp add: console_fill_rect_def draw_pixels_def put_pixel_def pixel_index_def Let_def)
qed

lemma console_set_cursor_negative: "0 < scrollback_count s \<Longrightarrow> current_col (console_set_cursor (-8) 0 s) = -1"
  by (simp add: console_set_cursor_def Let_def extend_rows.simps MAX_COLS_def)

lemma console_scroll_back_overflow:
  assumes "framebuffer s = Some fb" "view_offset s = 1"
  shows "console_scroll_back font (2 ^ 31 - 1) s = render_view font (s\<lparr>view_offset := - (2 ^ 31)\<rparr>)"
  using assms by (simp add: console_scroll_back_def Let_def int32_def signed_take_bit_eq_take_bit_shift)

definition witness_fb :: framebuffer where
  "witness_fb = \<lparr>fb_width = 640, fb_height = 480, fb_pitch = 2560\<rparr>"

definition witness_console :: console_state where
  "witness_console = input_state.extend witness_input (console_state.fields None (\<lambda>_. 0)
     (replicate SCROLLBACK_LINES \<lparr>cells = replicate MAX_COLS \<lparr>ch = 0, cell_color = 0\<rparr>, line_length = 0\<rparr>) 0 0 0 0 0 0 False False 0 0 0 False
     (\<lambda>_. \<lparr>backends = 0, term_color = 0\<rparr>) Terminal_default)"

lemma witness_console_ok:
  "fb_ok witness_fb" "length (scrollback witness_console) = SCROLLBACK_LINES" "\<forall>l \<in> set (scrollback witness_console). line_ok l"
  "fb_pixels witness_console = (\<lambda>_. 0)"
  by (simp_all add: fb_ok_def witness_fb_def witness_console_def input_state.defs console_state.defs line_ok_def)

theorem console_run_in_framebuffer_witness:
  "fb_pixels (fold (console_step (\<lambda>_. 0xFF)) [Putchar 0x41 0xFFFFFF, Putchar 0x0A 0, Fill_rect 600 470 100 100 7, Scroll_back 1]
     (console_init (Some witness_fb) witness_console)) 307200 = 0"
  using console_run_in_framebuffer[OF witness_console_ok(1-3),
      of "[Putchar 0x41 0xFFFFFF, Putchar 0x0A 0, Fill_rect 600 470 100 100 7, Scroll_back 1]" "\<lambda>_. 0xFF" 307200]
  by (simp add: witness_console_ok(4) witness_fb_def del: fold_simps)

theorem console_run_wf_witness:
  "current_col (fold (console_step (\<lambda>_. 0xFF)) [Putchar 0x41 0xFFFFFF, Set_cursor 2000 0] (console_init (Some witness_fb) witness_console)) \<le> 160"
proof -
  have "\<forall>op \<in> set [Putchar 0x41 0xFFFFFF, Set_cursor 2000 0]. op_ok op" by simp
  from console_run_wf[OF witness_console_ok(1-3) this refl] show ?thesis by blast
qed

end
