(* ===== verification/Kshell_Editor.thy ===== *)
theory Kshell_Editor
  imports Kshell Console_Bounds
begin

text \<open>
  What the kernel shell does, against two abstract descriptions: \<^verbatim>\<open>parse_command\<close> splits the line into its words, and the keys edit
  a line and walk through the list of the last sixteen lines.
\<close>

section \<open>Command line\<close>

fun split_blank :: "u8 list \<Rightarrow> u8 list list" where
  "split_blank [] = [[]]"
| "split_blank (c # cs) = (if c = 0x20 then [] # split_blank cs else (c # hd (split_blank cs)) # tl (split_blank cs))"

definition blank_words :: "u8 list \<Rightarrow> u8 list list" where
  "blank_words xs = filter (\<lambda>w. w \<noteq> []) (split_blank xs)"

lemma split_blank_nonempty [simp]: "split_blank xs \<noteq> []"
  by (induction xs) auto

lemma blank_words_blank [simp]: "blank_words (0x20 # xs) = blank_words xs" "blank_words [] = []"
  by (simp_all add: blank_words_def)

lemma blank_words_skip: "blank_words xs = blank_words (dropWhile (\<lambda>c. c = 0x20) xs)"
  by (induction xs) auto

lemma split_blank_word: "0x20 \<notin> set w \<Longrightarrow> split_blank (w @ xs) = (w @ hd (split_blank xs)) # tl (split_blank xs)"
  by (induction w) auto

lemma blank_words_word:
  assumes "0x20 \<notin> set w" "w \<noteq> []"
  shows "blank_words w = [w]" "blank_words (w @ 0x20 # xs) = w # blank_words xs"
  using split_blank_word[OF assms(1), of "[]"] split_blank_word[OF assms(1), of "0x20 # xs"] assms(2)
  by (simp_all add: blank_words_def)

lemma cstr_simps [simp]: "cstr [] = []" "cstr (0 # xs) = []" "c \<noteq> 0 \<Longrightarrow> cstr (c # xs) = c # cstr xs"
  by (simp_all add: cstr_def)

lemma cstr_append: "0 \<notin> set w \<Longrightarrow> cstr (w @ xs) = w @ cstr xs"
  by (induction w) auto

lemma takeWhile_not_zero: "0 \<notin> set (takeWhile (\<lambda>c. c = 0x20) (xs :: u8 list))"
  by (auto dest: set_takeWhileD)

text \<open>The rest of the buffer, cut into blanks, a word and what follows it.\<close>

lemma parse_loop_step:
  assumes "0 \<notin> set sp" "\<forall>c \<in> set sp. c = 0x20" "w \<noteq> []" "\<forall>c \<in> set w. c \<noteq> 0 \<and> c \<noteq> 0x20"
  shows "parse_loop (Suc m) p (sp @ w @ 0 # r) = ([p + length sp], sp @ w @ 0 # r)"
    and "parse_loop (Suc m) p (sp @ w @ 0x20 # r) =
      (let (args, rest) = parse_loop m (p + length sp + length w + 1) r in ((p + length sp) # args, sp @ w @ 0 # rest))"
proof -
  obtain c cs where w: "w = c # cs" "c \<noteq> 0" "c \<noteq> 0x20" using assms(3,4) by (cases w) auto
  have t: "takeWhile (\<lambda>c. c = 0x20) (sp @ w @ d # r) = sp" "dropWhile (\<lambda>c. c = 0x20) (sp @ w @ d # r) = w @ d # r" for d
    using assms(2) w by (simp_all add: takeWhile_append dropWhile_append)
  have u: "takeWhile (\<lambda>c. c \<noteq> 0 \<and> c \<noteq> 0x20) (w @ d # r) = w" "dropWhile (\<lambda>c. c \<noteq> 0 \<and> c \<noteq> 0x20) (w @ d # r) = d # r"
    if "d = 0 \<or> d = 0x20" for d
    using assms(4) that by (auto simp: takeWhile_append dropWhile_append)
  have h: "sp @ w @ d # r \<noteq> []" "hd (sp @ w @ d # r) \<noteq> 0" "hd (w @ d # r) \<noteq> 0" for d using assms(1) w by (cases sp; auto)+
  show "parse_loop (Suc m) p (sp @ w @ 0 # r) = ([p + length sp], sp @ w @ 0 # r)"
    using h u by (simp add: t Let_def)
  show "parse_loop (Suc m) p (sp @ w @ 0x20 # r) =
      (let (args, rest) = parse_loop m (p + length sp + length w + 1) r in ((p + length sp) # args, sp @ w @ 0 # rest))"
    using h u by (simp add: t Let_def)
qed

lemma parse_loop_stop:
  assumes "\<forall>c \<in> set sp. c = 0x20"
  shows "parse_loop m p (sp @ 0 # r) = ([], sp @ 0 # r)"
  using assms by (cases m; cases sp) (auto simp: dropWhile_append Let_def)

lemma buffer_cases:
  fixes xs :: "u8 list"
  assumes "0 \<in> set xs"
  obtains (stop) sp r where "xs = sp @ 0 # r" "\<forall>c \<in> set sp. c = 0x20"
    | (last) sp w r where "xs = sp @ w @ 0 # r" "\<forall>c \<in> set sp. c = 0x20" "w \<noteq> []" "\<forall>c \<in> set w. c \<noteq> 0 \<and> c \<noteq> 0x20"
    | (more) sp w r where "xs = sp @ w @ 0x20 # r" "\<forall>c \<in> set sp. c = 0x20" "w \<noteq> []" "\<forall>c \<in> set w. c \<noteq> 0 \<and> c \<noteq> 0x20" "0 \<in> set r"
proof -
  define sp ys where "sp = takeWhile (\<lambda>c. c = 0x20) xs" and "ys = dropWhile (\<lambda>c. c = 0x20) xs"
  have x: "xs = sp @ ys" and sp: "\<forall>c \<in> set sp. c = 0x20" by (auto simp: sp_def ys_def dest: set_takeWhileD)
  have y: "0 \<in> set ys" using assms x sp by auto
  then have y0: "ys \<noteq> []" by auto
  then have y1: "hd ys \<noteq> 0x20" using hd_dropWhile[of "\<lambda>c. c = 0x20" xs] unfolding ys_def by blast
  define w zs where "w = takeWhile (\<lambda>c. c \<noteq> 0 \<and> c \<noteq> 0x20) ys" and "zs = dropWhile (\<lambda>c. c \<noteq> 0 \<and> c \<noteq> 0x20) ys"
  have yz: "ys = w @ zs" and w: "\<forall>c \<in> set w. c \<noteq> 0 \<and> c \<noteq> 0x20" by (auto simp: w_def zs_def dest: set_takeWhileD)
  have z: "0 \<in> set zs" using y yz w by auto
  then obtain d r where d: "zs = d # r" by (cases zs) auto
  have "d = 0 \<or> d = 0x20" using hd_dropWhile[of "\<lambda>c. c \<noteq> 0 \<and> c \<noteq> 0x20" ys] d unfolding zs_def by (metis list.sel(1) list.distinct(1))
  moreover have "w = [] \<Longrightarrow> d \<noteq> 0x20" using y0 y1 yz d by auto
  ultimately show ?thesis using stop[of sp r] last[of sp w r] more[of sp w r] x sp yz w z d
    by (cases "w = []"; cases "d = 0") auto
qed

lemma blank_words_buffer:
  assumes "\<forall>c \<in> set sp. c = 0x20" "w \<noteq> []" "\<forall>c \<in> set w. c \<noteq> 0 \<and> c \<noteq> 0x20"
  shows "blank_words (cstr (sp @ w @ 0 # r)) = [w]" "blank_words (cstr (sp @ w @ 0x20 # r)) = w # blank_words (cstr r)"
proof -
  have n: "0 \<notin> set sp" "0 \<notin> set w" "0x20 \<notin> set w" using assms by auto
  have s: "blank_words (sp @ ys) = blank_words ys" for ys using assms(1) by (induction sp) auto
  show "blank_words (cstr (sp @ w @ 0 # r)) = [w]" "blank_words (cstr (sp @ w @ 0x20 # r)) = w # blank_words (cstr r)"
    using n blank_words_word[OF n(3) assms(2)] by (simp_all add: cstr_append s)
qed

lemma blank_words_spaces: "\<forall>c \<in> set sp. c = 0x20 \<Longrightarrow> blank_words (cstr (sp @ 0 # r)) = []"
  by (induction sp) auto

text \<open>The arguments are read in the buffer \<open>pre @ xs\<close>, whose first part the loop has passed.\<close>

lemma parse_loop_words:
  assumes "0 \<in> set xs" "parse_loop m (length pre) xs = (args, rest)"
  shows "length rest = length xs \<and> map (\<lambda>p. cstr (drop p (pre @ rest))) args = take m (blank_words (cstr xs))
    \<and> (\<forall>p \<in> set args. 0 \<in> set (drop p (pre @ rest)))"
  using assms
proof (induction m arbitrary: pre xs args rest)
  case (Suc m)
  from Suc.prems(1) show ?case
  proof (cases rule: buffer_cases)
    case (stop sp r)
    then show ?thesis using Suc.prems(2) blank_words_spaces[of sp r] by (auto simp: parse_loop_stop simp del: parse_loop.simps)
  next
    case (last sp w r)
    then have "0 \<notin> set sp" "0 \<notin> set w" by auto
    then show ?thesis using last Suc.prems(2) blank_words_buffer(1)[OF last(2-4), of r]
      by (auto simp: parse_loop_step cstr_append simp del: parse_loop.simps)
  next
    case (more sp w r)
    then have n: "0 \<notin> set sp" "0 \<notin> set w" by auto
    let ?pre = "pre @ sp @ w @ [0]"
    obtain as rs where p: "parse_loop m (length ?pre) r = (as, rs)" by fastforce
    have e: "args = (length pre + length sp) # as" "rest = sp @ w @ 0 # rs"
      using Suc.prems(2) p more n by (simp_all add: parse_loop_step add.assoc del: parse_loop.simps)
    have "length rs = length r" "map (\<lambda>p. cstr (drop p (?pre @ rs))) as = take m (blank_words (cstr r))" "\<forall>p \<in> set as. 0 \<in> set (drop p (?pre @ rs))"
      using Suc.IH[OF more(5) p] by auto
    then show ?thesis using more n blank_words_buffer(2)[OF more(2-4), of r] by (simp add: e cstr_append)
  qed
qed simp

text \<open>
  C38. \<^verbatim>\<open>parse_command\<close> finds the words of the line: the zero-terminated strings its results point to, in the buffer as it leaves it, are the
  maximal runs of characters other than a space, in order, at most as many as asked for, each ends inside the buffer, and the buffer keeps its length.
\<close>

theorem parse_command_words:
  assumes "0 \<in> set input" "parse_command input max_args = (argv, buf)"
  shows "map (\<lambda>p. cstr (drop p buf)) argv = take max_args (blank_words (cstr input)) \<and> length buf = length input
    \<and> (\<forall>p \<in> set argv. 0 \<in> set (drop p buf))"
  using parse_loop_words[of input max_args "[]" argv buf] assms by (simp add: parse_command_def)

theorem parse_command_words_witness:
  "map (\<lambda>p. cstr (drop p (snd (parse_command (str ''  echo  ab c'' @ [0, 0]) 2)))) (fst (parse_command (str ''  echo  ab c'' @ [0, 0]) 2)) = [str ''echo'', str ''ab'']"
  using parse_command_words[of "str ''  echo  ab c'' @ [0, 0]" 2 "fst (parse_command (str ''  echo  ab c'' @ [0, 0]) 2)" "snd (parse_command (str ''  echo  ab c'' @ [0, 0]) 2)"]
  by (simp add: blank_words_def str_def cstr_def)

section \<open>Printing returns\<close>

text \<open>The transmitter of the serial port becomes ready when its line status is read often enough.\<close>

definition uart_drains :: "'a io_state_scheme \<Rightarrow> bool" where
  "uart_drains s \<longleftrightarrow> (\<forall>log. \<exists>k. port_in s (log @ replicate k (In8 (COM1 + 5))) (COM1 + 5) AND 0x20 \<noteq> 0)"

text \<open>A result that is a state with the same devices.\<close>

definition returns :: "'a io_state_scheme option \<Rightarrow> 'a io_state_scheme \<Rightarrow> bool" where
  "returns r s \<longleftrightarrow> (\<exists>s'. r = Some s' \<and> port_in s' = port_in s)"

lemma returns_Some [simp]: "returns (Some s') s \<longleftrightarrow> port_in s' = port_in s"
  by (simp add: returns_def)

lemma returns_bind:
  assumes "returns r s" "\<And>s'. port_in s' = port_in s \<Longrightarrow> returns (f s') s'"
  shows "returns (Option.bind r f) s"
  using assms by (fastforce simp: returns_def)

lemma uart_drains_cong: "port_in s' = port_in s \<Longrightarrow> uart_drains s' = uart_drains s"
  by (simp add: uart_drains_def)

lemma serial_wait_returns:
  "port_in s (io_log s @ replicate k (In8 (COM1 + 5))) (COM1 + 5) AND 0x20 \<noteq> 0 \<Longrightarrow> returns (serial_wait s) s"
proof (induction k arbitrary: s)
  case 0
  then show ?case by (subst serial_wait.simps) (simp add: serial_tx_ready_def inb_def)
next
  case (Suc k)
  let ?s = "s\<lparr>io_log := io_log s @ [In8 (COM1 + 5)]\<rparr>"
  have "returns (serial_wait ?s) ?s" by (rule Suc.IH) (use Suc.prems in simp)
  then show ?case by (subst serial_wait.simps) (simp add: serial_tx_ready_def inb_def returns_def)
qed

lemma serial_putchar_returns: "uart_drains s \<Longrightarrow> returns (serial_putchar c s) s"
  using serial_wait_returns[of s] by (fastforce simp: uart_drains_def serial_putchar_def returns_def outb_def)

lemma serial_puts_returns: "uart_drains s \<Longrightarrow> returns (serial_puts cs s) s"
proof (induction cs arbitrary: s)
  case (Cons c cs)
  have "returns (if c = 0x0A then serial_putchar 0x0D s else Some s) s" using serial_putchar_returns[OF Cons.prems] by simp
  then show ?case using Cons.prems uart_drains_cong
    by (auto intro!: returns_bind serial_putchar_returns Cons.IH)
qed simp

lemma port_in_fold: "(\<And>a t. port_in (f a t) = port_in t) \<Longrightarrow> port_in (fold f xs s) = port_in s"
  by (induction xs arbitrary: s) auto

lemma port_in_draw [simp]:
  "port_in (draw_pixels fb rows cols x y f s) = port_in s"
  by (auto simp: draw_pixels_def put_pixel_def intro!: port_in_fold)

lemma port_in_console [simp]:
  "port_in (console_fill_rect x y w h color s) = port_in s" "port_in (console_draw_char font c x y color s) = port_in s"
  "port_in (set_line_length i n s) = port_in s" "port_in (scrollback_newline s) = port_in s" "port_in (scrollback_putchar c color s) = port_in s"
  by (auto simp: console_fill_rect_def console_draw_char_def Let_def set_line_length_def scrollback_newline_def scrollback_putchar_def split: option.split)

lemma port_in_draw_chars [simp]: "port_in (fold (\<lambda>i. console_draw_char font (c i) (x i) (y i) (color i)) xs s) = port_in s"
  by (simp add: port_in_fold)

lemma port_in_render_line [simp]: "port_in (render_line font row s) = port_in s"
  by (simp add: render_line_def split: option.split)

lemma port_in_render [simp]: "port_in (render_view font s) = port_in s"
  by (simp add: render_view_def port_in_fold[of "render_line font"] split: option.split)

lemma port_in_tab [simp]: "port_in (tab_spaces color s) = port_in s" "port_in (newline_scroll font s) = port_in s"
  by (auto simp: tab_spaces_def newline_scroll_def Let_def intro!: port_in_fold)

lemma port_in_putchar [simp]: "port_in (console_putchar font c color s) = port_in s"
  by (simp add: console_putchar_def Let_def if_distrib[of port_in])

lemma port_in_view [simp]:
  "port_in (console_scroll_back font n s) = port_in s" "port_in (console_scroll_forward font n s) = port_in s"
  "port_in (console_scroll_to_bottom font s) = port_in s" "port_in (console_clear color s) = port_in s"
  "port_in (terminal_set_color t color s) = port_in s"
  by (auto simp: console_scroll_back_def console_scroll_forward_def console_scroll_to_bottom_def draw_cursor_def console_clear_def
    scrollback_init_def terminal_set_color_def Let_def split: option.split prod.split)

lemma term_puts_returns: "uart_drains s \<Longrightarrow> returns (term_puts font t out s) s"
proof (induction out arbitrary: s)
  case (Cons c out)
  have "returns (term_putchar font t c s) s"
    using serial_putchar_returns[of "console_putchar font c (term_color t) s" c] serial_putchar_returns[OF Cons.prems, of c]
      uart_drains_cong[of "console_putchar font c (term_color t) s" s] Cons.prems
    by (simp add: term_putchar_def returns_def)
  then show ?case using Cons.prems uart_drains_cong by (auto intro!: returns_bind Cons.IH)
qed simp

lemma kprintfs_returns:
  assumes "uart_drains s" "\<forall>(fmt, args) \<in> set ps. kformat fmt args \<noteq> None"
  shows "returns (kprintfs font ps s) s"
  using assms
proof (induction ps arbitrary: s)
  case (Cons p ps)
  obtain fmt args out where p: "p = (fmt, args)" "kformat fmt args = Some out" using Cons.prems(2) by (cases p) auto
  obtain s1 where s1: "term_puts font (terminals s (terminal_get_active s)) out s = Some s1" "port_in s1 = port_in s"
    using term_puts_returns[OF Cons.prems(1)] unfolding returns_def by blast
  have "returns (kprintfs font ps s1) s1" by (rule Cons.IH) (use Cons.prems uart_drains_cong[OF s1(2)] in auto)
  then show ?case using s1 by (simp add: p kprintf_def tkvprintf_def returns_def)
qed simp

lemma kformat_plain: "0x25 \<notin> set fmt \<Longrightarrow> kformat fmt args = Some fmt"
  by (induction fmt) auto

lemma kformat_shell [simp]:
  "kformat (str ''%s'') [Str (Some v)] = Some v" "kformat (str ''%c'') [Slot c] = Some [ucast c]"
  "kformat newline [] = Some newline" "kformat erase_char [] = Some erase_char"
  by (simp_all add: str_def newline_def erase_char_def convert_def fmt_long_def kputs_padded_def)

section \<open>The editor\<close>

record editor =
  ed_line :: "u8 list"
  ed_hist :: "u8 list list"
  ed_browse :: "nat option"
  ed_saved :: "u8 list"

text \<open>What a key does: the newest line of the history comes first.\<close>

definition edit :: "int \<Rightarrow> editor \<Rightarrow> editor" where
  "edit c e =
     (if c = KEY_ENTER then e\<lparr>ed_line := [], ed_browse := None,
        ed_hist := if ed_line e = [] then ed_hist e else take 16 (ed_line e # ed_hist e)\<rparr>
      else if c = KEY_BACKSPACE then e\<lparr>ed_line := butlast (ed_line e)\<rparr>
      else if c = KEY_UP then
        (case ed_browse e of
           None \<Rightarrow> if ed_hist e = [] then e else e\<lparr>ed_saved := ed_line e, ed_line := ed_hist e ! 0, ed_browse := Some 0\<rparr>
         | Some i \<Rightarrow> if i + 1 < length (ed_hist e) then e\<lparr>ed_line := ed_hist e ! (i + 1), ed_browse := Some (i + 1)\<rparr> else e)
      else if c = KEY_DOWN then
        (case ed_browse e of
           None \<Rightarrow> e
         | Some 0 \<Rightarrow> e\<lparr>ed_line := ed_saved e, ed_browse := None\<rparr>
         | Some (Suc i) \<Rightarrow> e\<lparr>ed_line := ed_hist e ! i, ed_browse := Some i\<rparr>)
      else if 32 \<le> c \<and> c < 127 \<and> length (ed_line e) < 255 then e\<lparr>ed_line := ed_line e @ [word_of_int c]\<rparr>
      else e)"

definition line_buf :: "u8 list \<Rightarrow> bool" where
  "line_buf b \<longleftrightarrow> length b = KSHELL_MAX_INPUT \<and> 0 \<in> set b"

definition kshell_wf :: "kshell \<Rightarrow> bool" where
  "kshell_wf sh \<longleftrightarrow> line_buf (input_buffer sh) \<and> input_len sh = length (cstr (input_buffer sh))
     \<and> length (history sh) = KSHELL_HISTORY_SIZE \<and> (\<forall>h \<in> set (history sh). line_buf h) \<and> line_buf (saved_input sh)
     \<and> history_count sh \<le> KSHELL_HISTORY_SIZE \<and> history_pos sh < KSHELL_HISTORY_SIZE
     \<and> -1 \<le> history_browse sh \<and> history_browse sh < int (history_count sh)"

text \<open>The \<open>i\<close>-th newest line.\<close>

definition recent :: "kshell \<Rightarrow> nat \<Rightarrow> u8 list" where
  "recent sh i = cstr (history sh ! ((history_pos sh + 15 - i) mod 16))"

definition editor_of :: "kshell \<Rightarrow> editor" where
  "editor_of sh = \<lparr>ed_line = cstr (input_buffer sh), ed_hist = map (recent sh) [0..<history_count sh],
     ed_browse = if history_browse sh = -1 then None else Some (nat (history_browse sh)), ed_saved = cstr (saved_input sh)\<rparr>"

subsection \<open>Buffers\<close>

lemma cstr_split: "0 \<in> set b \<Longrightarrow> \<exists>r. b = cstr b @ 0 # r"
  by (induction b) (auto simp: cstr_def)

lemma cstr_not_zero: "0 \<notin> set (cstr b)"
  by (auto simp: cstr_def dest: set_takeWhileD)

lemma cstr_set:
  assumes "0 \<in> set b"
  shows "length (cstr b) < length b"
    and "cstr (b[0 := 0]) = []"
    and "i \<le> length (cstr b) \<Longrightarrow> cstr (b[i := 0]) = take i (cstr b)"
    and "length (cstr b) + 1 < length b \<Longrightarrow> c \<noteq> 0 \<Longrightarrow> cstr (b[length (cstr b) := c, length (cstr b) + 1 := 0]) = cstr b @ [c]"
proof -
  obtain w r where w: "b = w @ 0 # r" "cstr b = w" "0 \<notin> set w" using cstr_split[OF assms] cstr_not_zero by metis
  show "length (cstr b) < length b" unfolding w(2) by (simp add: w(1))
  show "cstr (b[0 := 0]) = []" by (cases w) (simp_all add: w(1))
  show "cstr (b[i := 0]) = take i (cstr b)" if "i \<le> length (cstr b)"
  proof -
    have "take i w @ 0 # drop (i + 1) b = b[i := 0]" using that w by (subst upd_conv_take_nth_drop) auto
    moreover have "0 \<notin> set (take i w)" using w(3) by (auto dest: in_set_takeD)
    ultimately show ?thesis using w(2) by (metis cstr_append cstr_simps(2) append_Nil2)
  qed
  show "cstr (b[length (cstr b) := c, length (cstr b) + 1 := 0]) = cstr b @ [c]" if "length (cstr b) + 1 < length b" "c \<noteq> 0"
    using that w by (cases r) (simp_all add: cstr_append list_update_append)
qed

lemma str_copy_from_eq:
  assumes "src = w @ 0 # r" "0 \<notin> set w" "i \<le> length w" "length w \<le> i + k" "length w < length dst"
  shows "str_copy_from k i dst src = take i dst @ drop i w @ 0 # drop (length w + 1) dst"
  using assms(3-5)
proof (induction k arbitrary: i dst)
  case 0
  then show ?case by (simp add: upd_conv_take_nth_drop)
next
  case (Suc k)
  show ?case
  proof (cases "i = length w")
    case True
    then show ?thesis using Suc.prems by (simp add: assms(1) upd_conv_take_nth_drop)
  next
    case False
    then have i: "i < length w" using Suc.prems by simp
    have "w ! i \<noteq> 0" using assms(2) nth_mem[OF i] by metis
    then have c: "src ! i = w ! i" "src ! i \<noteq> 0" using i by (simp_all add: assms(1) nth_append)
    have "str_copy_from k (i + 1) (dst[i := w ! i]) src = take (i + 1) (dst[i := w ! i]) @ drop (i + 1) w @ 0 # drop (length w + 1) (dst[i := w ! i])"
      by (rule Suc.IH) (use Suc.prems i in auto)
    also have "\<dots> = take i dst @ drop i w @ 0 # drop (length w + 1) dst"
      using i Suc.prems(3) by (simp add: take_Suc_conv_app_nth Cons_nth_drop_Suc[symmetric])
    finally show ?thesis using c by simp
  qed
qed

lemma str_copy_line:
  assumes "line_buf dst" "line_buf src"
  shows "line_buf (str_copy dst src KSHELL_MAX_INPUT)" "cstr (str_copy dst src KSHELL_MAX_INPUT) = cstr src"
proof -
  obtain w r where w: "src = w @ 0 # r" "cstr src = w" "0 \<notin> set w" using assms cstr_split[of src] cstr_not_zero by (metis line_buf_def)
  have l: "length w < 256" "length dst = 256" using assms w(1) by (simp_all add: line_buf_def KSHELL_MAX_INPUT_def)
  have "str_copy dst src KSHELL_MAX_INPUT = w @ 0 # drop (length w + 1) dst"
    unfolding str_copy_def KSHELL_MAX_INPUT_def by (subst str_copy_from_eq[OF w(1,3)]) (use l in simp_all)
  then show "line_buf (str_copy dst src KSHELL_MAX_INPUT)" "cstr (str_copy dst src KSHELL_MAX_INPUT) = cstr src"
    using l w by (simp_all add: line_buf_def KSHELL_MAX_INPUT_def cstr_append)
qed

lemma line_buf_upd: "line_buf b \<Longrightarrow> i < KSHELL_MAX_INPUT \<Longrightarrow> line_buf (b[i := 0])" 
  by (simp add: line_buf_def set_update_memI)

subsection \<open>History\<close>

lemma recent_index:
  assumes "history_pos sh < 16" "i < history_count sh" "history_count sh \<le> 16"
  shows "get_history_index (int i) sh = int ((history_pos sh + 15 - i) mod 16)"
proof -
  have "int (history_pos sh) - 1 - int i + 16 = int (history_pos sh + 15 - i)" using assms by simp
  then show ?thesis using assms by (simp add: get_history_index_def KSHELL_HISTORY_SIZE_def zmod_int algebra_simps)
qed

lemma add_to_history_refines:
  assumes "kshell_wf sh" "cstr (input_buffer sh) \<noteq> []"
  shows "map (recent (add_to_history sh)) [0..<history_count (add_to_history sh)]
    = take 16 (cstr (input_buffer sh) # map (recent sh) [0..<history_count sh])"
proof -
  let ?p = "history_pos sh" and ?sh = "add_to_history sh"
  let ?h = "str_copy (history sh ! ?p) (input_buffer sh) KSHELL_MAX_INPUT"
  have wf: "input_len sh \<noteq> 0" "length (history sh) = 16" "?p < 16" "history_count sh \<le> 16" "line_buf (history sh ! ?p)" "line_buf (input_buffer sh)"
    using assms by (auto simp: kshell_wf_def KSHELL_HISTORY_SIZE_def)
  have f: "history ?sh = (history sh)[?p := ?h]" "history_pos ?sh = (?p + 1) mod 16"
    "history_count ?sh = (if history_count sh < 16 then history_count sh + 1 else history_count sh)"
    using wf(1) by (simp_all add: add_to_history_def Let_def KSHELL_HISTORY_SIZE_def)
  have m: "((?p + 1) mod 16 + 15 - i) mod 16 = (if i = 0 then ?p else (?p + 15 - (i - 1)) mod 16)" if "i < 16" for i
    using that wf(3) by (cases "?p = 15") (auto simp: mod_if)
  have ne: "?p \<noteq> (?p + 15 - (i - 1)) mod 16" if "0 < i" "i < 16" for i
    using that wf(3) by (auto simp: mod_if)
  have r: "recent ?sh i = (if i = 0 then cstr (input_buffer sh) else recent sh (i - 1))" if "i < 16" for i
    unfolding recent_def f(1,2) m[OF that] using that wf(2,3) ne[of i] str_copy_line(2)[OF wf(5,6)] by simp
  show ?thesis
  proof (rule nth_equalityI)
    fix i assume "i < length (map (recent ?sh) [0..<history_count ?sh])"
    then have "i < history_count ?sh" "i < 16" "i \<noteq> 0 \<Longrightarrow> i - 1 < history_count sh" using wf(4) by (auto simp: f(3) split: if_splits)
    then show "map (recent ?sh) [0..<history_count ?sh] ! i = take 16 (cstr (input_buffer sh) # map (recent sh) [0..<history_count sh]) ! i"
      by (cases i) (simp_all add: r)
  qed (use wf(4) in \<open>simp add: f(3)\<close>)
qed

lemma add_to_history_wf:
  assumes "kshell_wf sh"
  shows "kshell_wf (add_to_history sh)"
proof -
  let ?h = "str_copy (history sh ! history_pos sh) (input_buffer sh) KSHELL_MAX_INPUT"
  have "line_buf ?h" using assms by (intro str_copy_line(1)) (simp_all add: kshell_wf_def)
  then have "\<forall>h \<in> set ((history sh)[history_pos sh := ?h]). line_buf h"
    using assms set_update_subset_insert[of "history sh" "history_pos sh" ?h] by (auto simp: kshell_wf_def)
  then show ?thesis using assms by (auto simp: kshell_wf_def add_to_history_def Let_def KSHELL_HISTORY_SIZE_def)
qed

lemma set_input_refines:
  assumes "kshell_wf sh" "line_buf src"
  shows "kshell_wf (set_input src sh)" "editor_of (set_input src sh) = (editor_of sh)\<lparr>ed_line := cstr src\<rparr>"
  using str_copy_line[of "input_buffer sh" src] assms
  by (simp_all add: kshell_wf_def set_input_def Let_def editor_of_def recent_def)

lemma replace_input_refines:
  assumes "kshell_wf sh" "line_buf src" "uart_drains s"
  shows "\<exists>s'. replace_input font src sh s = Some (set_input src sh, s') \<and> port_in s' = port_in s"
proof -
  obtain s1 where s1: "clear_input_line font sh s = Some s1" "port_in s1 = port_in s"
    using kprintfs_returns[OF assms(3), of "replicate (input_len sh) (erase_char, [])"] by (auto simp: clear_input_line_def returns_def)
  let ?ps = "[(str ''%s'', [Str (Some (cstr (input_buffer (set_input src sh))))])]"
  have "uart_drains s1" using assms(3) uart_drains_cong[OF s1(2)] by simp
  from kprintfs_returns[OF this, of ?ps] obtain s2 where "kprintfs font ?ps s1 = Some s2" "port_in s2 = port_in s1"
    by (auto simp: returns_def)
  then show ?thesis using s1 by (simp add: replace_input_def Let_def)
qed

subsection \<open>Keys\<close>

text \<open>The shell goes on with a state that stands for the editor \<open>e\<close>.\<close>

definition goes_on :: "(kshell \<times> 'a process_state_scheme) option \<Rightarrow> 'a process_state_scheme \<Rightarrow> editor \<Rightarrow> bool" where
  "goes_on r s e \<longleftrightarrow> (\<exists>sh' s'. r = Some (sh', s') \<and> kshell_wf sh' \<and> editor_of sh' = e \<and> port_in s' = port_in s)"

lemma goes_on_print:
  assumes "uart_drains s" "kshell_wf sh" "editor_of sh = e" "kformat fmt args \<noteq> None"
  shows "goes_on (map_option (Pair sh) (kprintfs font [(fmt, args)] s)) s e"
  using kprintfs_returns[OF assms(1), of "[(fmt, args)]" font] assms by (auto simp: goes_on_def returns_def)

lemma browse_fields:
  "kshell_wf sh \<Longrightarrow> line_buf b \<Longrightarrow> -1 \<le> i \<Longrightarrow> i < int (history_count sh) \<Longrightarrow> kshell_wf (sh\<lparr>saved_input := b, history_browse := i\<rparr>)"
  "kshell_wf sh \<Longrightarrow> -1 \<le> i \<Longrightarrow> i < int (history_count sh) \<Longrightarrow> kshell_wf (sh\<lparr>history_browse := i\<rparr>)"
  by (simp_all add: kshell_wf_def)

lemma recall_refines:
  assumes "kshell_wf sh" "i < history_count sh" "uart_drains s" "history_browse sh = int i"
  shows "goes_on (recall_history font sh s) s ((editor_of sh)\<lparr>ed_line := ed_hist (editor_of sh) ! i\<rparr>)"
proof -
  let ?k = "(history_pos sh + 15 - i) mod 16"
  have idx: "get_history_index (history_browse sh) sh = int ?k"
    using assms recent_index[of sh i] by (simp add: kshell_wf_def KSHELL_HISTORY_SIZE_def)
  have b: "line_buf (history sh ! ?k)" using assms(1) by (simp add: kshell_wf_def KSHELL_HISTORY_SIZE_def)
  obtain s' where "replace_input font (history sh ! ?k) sh s = Some (set_input (history sh ! ?k) sh, s')" "port_in s' = port_in s"
    using replace_input_refines[OF assms(1) b assms(3)] by blast
  moreover have "ed_hist (editor_of sh) ! i = cstr (history sh ! ?k)" using assms(2) by (simp add: editor_of_def recent_def)
  ultimately show ?thesis using set_input_refines[OF assms(1) b] unfolding goes_on_def recall_history_def Let_def idx by simp
qed

lemma history_prev_refines:
  assumes "kshell_wf sh" "uart_drains s"
  shows "goes_on (history_prev font sh s) s (edit KEY_UP (editor_of sh))"
proof (cases "history_browse sh = -1")
  case True
  let ?sh = "sh\<lparr>saved_input := str_copy (saved_input sh) (input_buffer sh) KSHELL_MAX_INPUT, history_browse := 0\<rparr>"
  have c: "line_buf (saved_input sh)" "line_buf (input_buffer sh)" using assms(1) by (simp_all add: kshell_wf_def)
  show ?thesis
  proof (cases "history_count sh = 0")
    case False
    have wf: "kshell_wf ?sh" using False by (intro browse_fields(1)[OF assms(1)] str_copy_line(1)[OF c]) simp_all
    have e: "editor_of ?sh = (editor_of sh)\<lparr>ed_saved := cstr (input_buffer sh), ed_browse := Some 0\<rparr>"
      by (simp add: editor_of_def recent_def str_copy_line(2)[OF c])
    have "goes_on (history_prev font sh s) s ((editor_of ?sh)\<lparr>ed_line := ed_hist (editor_of ?sh) ! 0\<rparr>)"
      using recall_refines[OF wf _ assms(2), of 0 font] True False by (simp add: history_prev_def)
    moreover have "(editor_of ?sh)\<lparr>ed_line := ed_hist (editor_of ?sh) ! 0\<rparr> = edit KEY_UP (editor_of sh)"
      using True False unfolding e by (simp add: edit_def KEY_UP_def KEY_ENTER_def KEY_BACKSPACE_def editor_of_def)
    ultimately show ?thesis by simp
  qed (use True assms in \<open>simp add: history_prev_def goes_on_def edit_def KEY_UP_def KEY_ENTER_def KEY_BACKSPACE_def editor_of_def\<close>)
next
  case False
  then obtain i where i: "history_browse sh = int i" "i < history_count sh" using assms(1)
    by (cases "history_browse sh") (auto simp: kshell_wf_def)
  let ?sh = "sh\<lparr>history_browse := int (i + 1)\<rparr>"
  show ?thesis
  proof (cases "i + 1 < history_count sh")
    case True
    have wf: "kshell_wf ?sh" using True by (intro browse_fields(2)[OF assms(1)]) simp_all
    have e: "editor_of ?sh = (editor_of sh)\<lparr>ed_browse := Some (i + 1)\<rparr>"
      by (simp add: editor_of_def recent_def nat_add_distrib)
    have "goes_on (history_prev font sh s) s ((editor_of ?sh)\<lparr>ed_line := ed_hist (editor_of ?sh) ! (i + 1)\<rparr>)"
      using recall_refines[OF wf _ assms(2), of "i + 1" font] True i by (simp add: history_prev_def add.commute)
    moreover have "(editor_of ?sh)\<lparr>ed_line := ed_hist (editor_of ?sh) ! (i + 1)\<rparr> = edit KEY_UP (editor_of sh)"
      using True i unfolding e by (simp add: edit_def KEY_UP_def KEY_ENTER_def KEY_BACKSPACE_def editor_of_def)
    ultimately show ?thesis by simp
  qed (use i assms in \<open>auto simp: history_prev_def goes_on_def edit_def KEY_UP_def KEY_ENTER_def KEY_BACKSPACE_def editor_of_def\<close>)
qed

lemma history_next_refines:
  assumes "kshell_wf sh" "uart_drains s"
  shows "goes_on (history_next font sh s) s (edit KEY_DOWN (editor_of sh))"
proof (cases "history_browse sh = -1")
  case True
  then show ?thesis using assms(1)
    by (simp add: history_next_def goes_on_def edit_def KEY_DOWN_def KEY_UP_def KEY_ENTER_def KEY_BACKSPACE_def editor_of_def)
next
  case False
  then obtain i where i: "history_browse sh = int i" "i < history_count sh" using assms(1)
    by (cases "history_browse sh") (auto simp: kshell_wf_def)
  note edit_down = edit_def KEY_DOWN_def KEY_UP_def KEY_ENTER_def KEY_BACKSPACE_def editor_of_def
  show ?thesis
  proof (cases i)
    case 0
    have b: "line_buf (saved_input sh)" using assms(1) by (simp add: kshell_wf_def)
    note si = set_input_refines[OF assms(1) b]
    let ?sh = "(set_input (saved_input sh) sh)\<lparr>history_browse := -1\<rparr>"
    have "kshell_wf ?sh" by (rule browse_fields(2)[OF si(1)]) simp_all
    moreover have "editor_of ?sh = (editor_of (set_input (saved_input sh) sh))\<lparr>ed_browse := None\<rparr>" by (simp add: editor_of_def recent_def)
    then have "editor_of ?sh = (editor_of sh)\<lparr>ed_line := cstr (saved_input sh), ed_browse := None\<rparr>" unfolding si(2) by simp
    then have "editor_of ?sh = edit KEY_DOWN (editor_of sh)" unfolding edit_def using i 0
      by (simp only:) (simp add: edit_down)
    ultimately show ?thesis using replace_input_refines[OF assms(1) b assms(2), of font] i 0
      by (auto simp: history_next_def goes_on_def)
  next
    case (Suc j)
    let ?sh = "sh\<lparr>history_browse := int j\<rparr>"
    have wf: "kshell_wf ?sh" using i Suc by (intro browse_fields(2)[OF assms(1)]) simp_all
    have e: "editor_of ?sh = (editor_of sh)\<lparr>ed_browse := Some j\<rparr>" by (simp add: editor_of_def recent_def)
    have "goes_on (history_next font sh s) s ((editor_of ?sh)\<lparr>ed_line := ed_hist (editor_of ?sh) ! j\<rparr>)"
      using recall_refines[OF wf _ assms(2), of j font] i Suc by (simp add: history_next_def)
    moreover have "(editor_of ?sh)\<lparr>ed_line := ed_hist (editor_of ?sh) ! j\<rparr> = edit KEY_DOWN (editor_of sh)"
      using i Suc nat_int[of "Suc j"] unfolding e by (simp add: edit_down)
    ultimately show ?thesis by simp
  qed
qed

lemma handle_backspace_refines:
  assumes "kshell_wf sh" "uart_drains s"
  shows "goes_on (handle_backspace font sh s) s (edit KEY_BACKSPACE (editor_of sh))"
proof (cases "cstr (input_buffer sh) = []")
  case False
  let ?n = "input_len sh - 1" let ?sh = "sh\<lparr>input_len := ?n, input_buffer := (input_buffer sh)[?n := 0]\<rparr>"
  have b: "0 \<in> set (input_buffer sh)" "line_buf (input_buffer sh)" "input_len sh = length (cstr (input_buffer sh))"
    using assms(1) by (simp_all add: kshell_wf_def line_buf_def)
  then have c: "cstr ((input_buffer sh)[?n := 0]) = butlast (cstr (input_buffer sh))" "?n < KSHELL_MAX_INPUT"
    using cstr_set(1,3)[OF b(1)] by (auto simp: butlast_conv_take line_buf_def)
  have "kshell_wf ?sh" using assms(1) c line_buf_upd[OF b(2) c(2)] b(3) by (simp add: kshell_wf_def)
  moreover have "editor_of ?sh = edit KEY_BACKSPACE (editor_of sh)"
    using c(1) by (simp add: editor_of_def recent_def edit_def KEY_BACKSPACE_def KEY_ENTER_def)
  ultimately show ?thesis using goes_on_print[OF assms(2), of ?sh _ erase_char "[]" font] False b(3) by (simp add: handle_backspace_def Let_def)
qed (use assms(1) in \<open>simp add: handle_backspace_def kshell_wf_def goes_on_def edit_def KEY_BACKSPACE_def KEY_ENTER_def editor_of_def\<close>)

lemma char_not_zero: "32 \<le> c \<Longrightarrow> c < 127 \<Longrightarrow> (word_of_int c :: u8) \<noteq> 0"
proof
  assume c: "32 \<le> c" "c < 127" and "(word_of_int c :: u8) = 0"
  then have "uint (word_of_int c :: u8) = 0" by simp
  then show False using c by (simp add: uint_word_of_int)
qed

lemma insert_char_wf:
  assumes "kshell_wf sh" "input_len sh < 255" "c \<noteq> 0"
  shows "kshell_wf (sh\<lparr>input_len := input_len sh + 1, input_buffer := (input_buffer sh)[input_len sh := c, input_len sh + 1 := 0]\<rparr>)"
    and "editor_of (sh\<lparr>input_len := input_len sh + 1, input_buffer := (input_buffer sh)[input_len sh := c, input_len sh + 1 := 0]\<rparr>)
      = (editor_of sh)\<lparr>ed_line := ed_line (editor_of sh) @ [c]\<rparr>"
proof -
  have b: "0 \<in> set (input_buffer sh)" "length (input_buffer sh) = 256" "input_len sh = length (cstr (input_buffer sh))"
    using assms(1) by (simp_all add: kshell_wf_def line_buf_def KSHELL_MAX_INPUT_def)
  have "0 \<in> set ((input_buffer sh)[input_len sh := c, input_len sh + 1 := 0])" using assms(2) b(2) by (intro set_update_memI) simp
  moreover have "cstr ((input_buffer sh)[input_len sh := c, input_len sh + 1 := 0]) = cstr (input_buffer sh) @ [c]"
    using cstr_set(4)[OF b(1) _ assms(3)] assms(2) b by simp
  ultimately show "kshell_wf (sh\<lparr>input_len := input_len sh + 1, input_buffer := (input_buffer sh)[input_len sh := c, input_len sh + 1 := 0]\<rparr>)"
    "editor_of (sh\<lparr>input_len := input_len sh + 1, input_buffer := (input_buffer sh)[input_len sh := c, input_len sh + 1 := 0]\<rparr>)
      = (editor_of sh)\<lparr>ed_line := ed_line (editor_of sh) @ [c]\<rparr>"
    using assms(1) b(2,3) by (simp_all add: kshell_wf_def line_buf_def KSHELL_MAX_INPUT_def editor_of_def recent_def)
qed

subsection \<open>Commands\<close>

lemma str_equal_cstr:
  assumes "0 \<in> set a" "0 \<notin> set n"
  shows "str_equal a (n @ [0]) \<longleftrightarrow> cstr a = n"
  using assms
proof (induction n arbitrary: a)
  case Nil
  then show ?case by (cases a) (auto simp: cstr_def)
next
  case (Cons c n)
  then show ?case by (cases a) (auto simp: cstr_def)
qed

text \<open>
  The commands whose model need not end in a return: \<^verbatim>\<open>reboot\<close> and \<^verbatim>\<open>init\<close> leave the shell; \<^verbatim>\<open>matrix\<close>, \<^verbatim>\<open>spintest\<close>,
  \<^verbatim>\<open>mutextest\<close> and \<^verbatim>\<open>condtest\<close> return to it in the code once their threads are done, but the model of the
  command ends (\<open>Cmd_demo\<close>) before they give the processor to these threads.
\<close>

definition cut_commands :: "u8 list list" where
  "cut_commands = map str [''reboot'', ''matrix'', ''spintest'', ''mutextest'', ''condtest'', ''init'']"

lemma find_command_leaves:
  assumes "0 \<in> set a" "find_command a commands = Some c" "cstr a \<notin> set cut_commands"
  shows "c \<in> {Cmd_help, Cmd_clear, Cmd_echo, Cmd_version, Cmd_meminfo}"
proof -
  have n: "\<forall>(n, _, c) \<in> set commands. 0 \<notin> set n \<and> (n \<in> set cut_commands \<or> c \<in> {Cmd_help, Cmd_clear, Cmd_echo, Cmd_version, Cmd_meminfo})"
    by (simp add: commands_def cut_commands_def str_def)
  have "\<exists>n h. (n, h, c) \<in> set cs \<and> str_equal a (n @ [0])" if "find_command a cs = Some c" for cs
    using that by (induction a cs rule: find_command.induct) (auto split: if_splits)
  from this[OF assms(2)] show ?thesis using n str_equal_cstr[OF assms(1)] assms(3) by fastforce
qed

lemma kformat_messages:
  "kformat (str ''Available commands:'' @ newline) [] \<noteq> None"
  "kformat (str ''  %-12s %s'' @ newline) [Str a, Str b] \<noteq> None" "kformat (str ''%s%s'') [Str a, Str b] \<noteq> None"
  "kformat (str ''SeedOS v0.1'' @ newline) [] \<noteq> None" "kformat (str ''Heap: %llu used, %llu free'' @ newline) [Slot x, Slot y] \<noteq> None"
  "kformat (str ''PMM:  %llu/%llu pages free'' @ newline) [Slot x, Slot y] \<noteq> None" "kformat (str ''Unknown command: %s'' @ newline) [Str a] \<noteq> None"
  by (simp_all add: str_def newline_def convert_def fmt_long_def)

lemmas kformat_ok = kformat_messages[unfolded not_None_eq]

lemma run_command_returns:
  assumes "uart_drains s" "c \<in> {Cmd_help, Cmd_clear, Cmd_echo, Cmd_version, Cmd_meminfo}"
  shows "\<exists>s'. run_command kc c argv s = Some (Cmd_returns s') \<and> port_in s' = port_in s"
proof -
  note p = kprintfs_returns[OF assms(1)]
  have "returns (cmd_help (kc_font kc) s) s" unfolding cmd_help_def by (rule p) (auto simp: kformat_ok)
  moreover have "returns (cmd_echo (kc_font kc) argv s) s" unfolding cmd_echo_def by (rule p) (auto simp: kformat_ok)
  moreover have "returns (cmd_version (kc_font kc) s) s" unfolding cmd_version_def by (rule p) (auto simp: kformat_ok)
  moreover have "returns (cmd_meminfo (kc_font kc) s) s" unfolding cmd_meminfo_def by (rule p) (auto simp: kformat_ok)
  moreover have "returns (serial_puts CLEAR_SEQUENCE s) s" "returns (serial_puts CLEAR_SEQUENCE (console_clear 0 s)) s"
    using serial_puts_returns[OF assms(1)] serial_puts_returns[of "console_clear 0 s"] assms(1) uart_drains_cong[of "console_clear 0 s" s]
    by (simp_all add: returns_def)
  then have "returns (cmd_clear s) s" unfolding cmd_clear_def terminal_clear_def Let_def by simp
  ultimately show ?thesis using assms(2) by (auto simp: returns_def)
qed

text \<open>Executing the command of a line changes only the input buffer, and keeps its length.\<close>

lemma execute_command_kshell:
  assumes "line_buf (input_buffer sh)" "execute_command kc sh s = Some (sh', r)"
  shows "\<exists>buf. sh' = sh\<lparr>input_buffer := buf\<rparr> \<and> length buf = KSHELL_MAX_INPUT"
proof -
  obtain argv buf where p: "parse_command (input_buffer sh) KSHELL_MAX_ARGS = (argv, buf)" by fastforce
  then have "length buf = KSHELL_MAX_INPUT" using parse_loop_words[of "input_buffer sh" KSHELL_MAX_ARGS "[]" argv buf] assms(1)
    by (simp add: parse_command_def line_buf_def)
  moreover have "sh' = sh\<lparr>input_buffer := buf\<rparr>" using assms(2) by (auto simp: execute_command_def p Let_def split: if_splits)
  ultimately show ?thesis by blast
qed

lemma execute_command_returns:
  assumes "line_buf (input_buffer sh)" "uart_drains s" "set (take 1 (blank_words (cstr (input_buffer sh)))) \<inter> set cut_commands = {}"
  shows "\<exists>sh' s'. execute_command kc sh s = Some (sh', Cmd_returns s') \<and> port_in s' = port_in s"
proof -
  obtain argv buf where p: "parse_command (input_buffer sh) KSHELL_MAX_ARGS = (argv, buf)" by fastforce
  then have w: "map (\<lambda>p. cstr (drop p buf)) argv = take 16 (blank_words (cstr (input_buffer sh)))" 
    using parse_loop_words[of "input_buffer sh" 16 "[]" argv buf] assms(1) by (simp add: parse_command_def line_buf_def KSHELL_MAX_ARGS_def)
  show ?thesis
  proof (cases argv)
    case Nil
    then show ?thesis by (simp add: execute_command_def p Let_def)
  next
    case (Cons a as)
    let ?a = "drop a buf" and ?t = "terminal_set_color (Some (terminal_get_active s)) KSHELL_ERROR_COLOR s"
    obtain ws where "blank_words (cstr (input_buffer sh)) = cstr ?a # ws" using w Cons by (cases "blank_words (cstr (input_buffer sh))") auto
    then have a: "cstr ?a \<notin> set cut_commands" using assms(3) by simp
    have "returns (kprintfs (kc_font kc) [(str ''Unknown command: %s'' @ newline, [Str (Some (cstr ?a))])] ?t) ?t"
      using assms(2) uart_drains_cong[of ?t s] by (intro kprintfs_returns) (simp_all add: kformat_ok)
    then have u: "find_command ?a commands = None \<Longrightarrow> ?thesis" using Cons by (fastforce simp: execute_command_def p Let_def returns_def)
    have f: "?thesis" if "find_command ?a commands = Some c" "0 \<in> set ?a" for c
      using run_command_returns[OF assms(2) find_command_leaves[OF that(2,1) a]] that(1) Cons by (fastforce simp: execute_command_def p Let_def)
    have "0 \<in> set ?a" using parse_loop_words[of "input_buffer sh" 16 "[]" argv buf] p Cons assms(1)
      by (simp add: parse_command_def line_buf_def KSHELL_MAX_ARGS_def)
    then show ?thesis using u f by blast
  qed
qed

lemma print_prompt_returns: "uart_drains s \<Longrightarrow> returns (print_prompt font s) s"
  using kprintfs_returns[of "terminal_set_color (Some (terminal_get_active s)) KSHELL_PROMPT_COLOR s" "[(str ''%s'', [Str (Some KSHELL_PROMPT)])]" font]
    uart_drains_cong[of "terminal_set_color (Some (terminal_get_active s)) KSHELL_PROMPT_COLOR s" s]
  by (auto simp: print_prompt_def returns_def)

lemma clear_input_refines:
  assumes "kshell_wf sh" "length buf = KSHELL_MAX_INPUT"
  shows "kshell_wf (clear_input (sh\<lparr>input_buffer := buf\<rparr>))"
    "editor_of (clear_input (sh\<lparr>input_buffer := buf\<rparr>)) = (editor_of sh)\<lparr>ed_line := [], ed_browse := None\<rparr>"
proof -
  obtain c cs where b: "buf = c # cs" using assms(2) by (cases buf) (auto simp: KSHELL_MAX_INPUT_def)
  show "kshell_wf (clear_input (sh\<lparr>input_buffer := buf\<rparr>))"
    "editor_of (clear_input (sh\<lparr>input_buffer := buf\<rparr>)) = (editor_of sh)\<lparr>ed_line := [], ed_browse := None\<rparr>"
    using assms by (simp_all add: b kshell_wf_def line_buf_def clear_input_def editor_of_def recent_def)
qed

lemma handle_enter_refines:
  assumes "kshell_wf sh" "handle_enter kc sh s = Some (sh', Cmd_returns s')"
  shows "kshell_wf sh' \<and> editor_of sh' = edit KEY_ENTER (editor_of sh)"
proof (cases "cstr (input_buffer sh) = []")
  case True
  then have l: "input_len sh = 0" "line_buf (input_buffer sh)" using assms(1) by (simp_all add: kshell_wf_def)
  then have "sh' = clear_input sh" using assms(2) by (auto simp: handle_enter_def bind_eq_Some_conv)
  then show ?thesis using clear_input_refines[OF assms(1), of "input_buffer sh"] l True
    by (simp add: line_buf_def edit_def) (simp add: editor_of_def)
next
  case False
  let ?sh = "add_to_history sh"
  have wf: "kshell_wf ?sh" by (rule add_to_history_wf[OF assms(1)])
  have l: "input_len sh > 0" "line_buf (input_buffer ?sh)" using assms(1) wf False by (simp_all add: kshell_wf_def)
  obtain s1 sh1 r where e1: "execute_command kc ?sh s1 = Some (sh1, r)"
    and e2: "(case r of Cmd_returns s2 \<Rightarrow> map_option (\<lambda>s3. (clear_input sh1, Cmd_returns s3)) (print_prompt (kc_font kc) s2) | _ \<Rightarrow> Some (sh1, r))
      = Some (sh', Cmd_returns s')"
    using assms(2) l(1) unfolding handle_enter_def by (auto simp: bind_eq_Some_conv)
  have e: "execute_command kc ?sh s1 = Some (sh1, r)" "sh' = clear_input sh1" using e1 e2 by (cases r; auto)+
  obtain buf where b: "sh1 = ?sh\<lparr>input_buffer := buf\<rparr>" "length buf = KSHELL_MAX_INPUT" using execute_command_kshell[OF l(2) e(1)] by blast
  have "editor_of ?sh = (editor_of sh)\<lparr>ed_hist := take 16 (cstr (input_buffer sh) # ed_hist (editor_of sh))\<rparr>"
    using add_to_history_refines[OF assms(1) False] by (simp add: editor_of_def add_to_history_def Let_def)
  then show ?thesis using clear_input_refines[OF wf b(2)] False by (simp add: e(2) b(1) edit_def) (simp add: editor_of_def)
qed

lemma handle_enter_returns:
  assumes "kshell_wf sh" "uart_drains s" "set (take 1 (blank_words (cstr (input_buffer sh)))) \<inter> set cut_commands = {}"
  shows "\<exists>sh' s'. handle_enter kc sh s = Some (sh', Cmd_returns s') \<and> port_in s' = port_in s"
proof -
  let ?sh = "add_to_history sh"
  obtain s1 where s1: "kprintfs (kc_font kc) [(newline, [])] s = Some s1" "port_in s1 = port_in s"
    using kprintfs_returns[OF assms(2), of "[(newline, [])]"] by (auto simp: returns_def)
  have b: "line_buf (input_buffer ?sh)" "input_buffer ?sh = input_buffer sh"
    using add_to_history_wf[OF assms(1)] by (simp_all add: kshell_wf_def add_to_history_def Let_def)
  have "uart_drains s1" using assms(2) uart_drains_cong[OF s1(2)] by simp
  then obtain sh3 s3 where "execute_command kc ?sh s1 = Some (sh3, Cmd_returns s3)" "port_in s3 = port_in s1"
    using execute_command_returns[OF b(1), of s1 kc] assms(3) b(2) by auto
  then obtain sh2 s2 where "(if input_len sh > 0 then execute_command kc ?sh s1 else Some (sh, Cmd_returns s1)) = Some (sh2, Cmd_returns s2)" "port_in s2 = port_in s"
    using s1(2) by (cases "input_len sh > 0") auto
  moreover from this have "returns (print_prompt (kc_font kc) s2) s2" using assms(2) uart_drains_cong by (intro print_prompt_returns) blast
  ultimately show ?thesis using s1 by (auto simp: handle_enter_def returns_def simp del: if_split)
qed

lemma handle_key_returns:
  assumes "kshell_wf sh" "uart_drains s"
    and "c \<noteq> KEY_ENTER \<or> set (take 1 (blank_words (ed_line (editor_of sh)))) \<inter> set cut_commands = {}"
  shows "\<exists>sh' s'. handle_key kc c sh s = Some (sh', Cmd_returns s')"
proof -
  let ?t = "if console_is_scrolled_back s then console_scroll_to_bottom (kc_font kc) s else s"
  have t: "uart_drains ?t" using assms(2) uart_drains_cong[of ?t s] by simp
  note keys = history_prev_refines[OF assms(1) t] history_next_refines[OF assms(1) t] handle_backspace_refines[OF assms(1) t]
  have "\<exists>sh' s'. handle_enter kc sh ?t = Some (sh', Cmd_returns s')" if "c = KEY_ENTER"
    using handle_enter_returns[OF assms(1) t] assms(3) that by (fastforce simp: editor_of_def)
  moreover have "\<exists>s'. kprintfs (kc_font kc) [(str ''%c'', [Slot (word_of_int c)])] ?t = Some s'"
    using kprintfs_returns[OF t, of "[(str ''%c'', [Slot (word_of_int c)])]" "kc_font kc"] by (auto simp: returns_def)
  ultimately show ?thesis using keys[of "kc_font kc"] unfolding handle_key_def Let_def goes_on_def
    by (auto simp del: kprintfs.simps)
qed

text \<open>
  C39. Whatever key arrives, if the shell goes on then its buffers, read as a line, a list of at most sixteen earlier lines, a place in that list and a
  saved line, have changed as the abstract editor says, and they are well-formed again: every buffer has its 256 bytes and a terminating zero, the length of
  the input is that of its string, and the indices are in range. And the shell does go on, provided the serial port takes its output (\<open>uart_drains\<close>), for every key
  except Enter on a line whose first word is \<^verbatim>\<open>reboot\<close>, \<^verbatim>\<open>init\<close> or one of the demonstrations \<^verbatim>\<open>matrix\<close>, \<^verbatim>\<open>spintest\<close>, \<^verbatim>\<open>mutextest\<close> and \<^verbatim>\<open>condtest\<close>,
  whose run is not followed here although the code returns from it.
\<close>

theorem handle_key_edits:
  assumes "kshell_wf sh" "uart_drains s"
  shows "(\<forall>sh' s'. handle_key kc c sh s = Some (sh', Cmd_returns s') \<longrightarrow> kshell_wf sh' \<and> editor_of sh' = edit c (editor_of sh))
    \<and> (c \<noteq> KEY_ENTER \<or> set (take 1 (blank_words (ed_line (editor_of sh)))) \<inter> set cut_commands = {}
      \<longrightarrow> (\<exists>sh' s'. handle_key kc c sh s = Some (sh', Cmd_returns s')))"
proof (rule conjI; intro allI impI)
  fix sh' s'
  assume h: "handle_key kc c sh s = Some (sh', Cmd_returns s')"
  let ?t = "if console_is_scrolled_back s then console_scroll_to_bottom (kc_font kc) s else s" and ?f = "kc_font kc"
  have t: "uart_drains ?t" using assms(2) uart_drains_cong[of ?t s] by simp
  note keys = history_prev_refines[OF assms(1) t, of ?f] history_next_refines[OF assms(1) t, of ?f] handle_backspace_refines[OF assms(1) t, of ?f]
  have len: "input_len sh = length (ed_line (editor_of sh))" using assms(1) by (simp add: kshell_wf_def editor_of_def)
  show "kshell_wf sh' \<and> editor_of sh' = edit c (editor_of sh)"
  proof (cases "c \<in> {KEY_ENTER, KEY_BACKSPACE, KEY_UP, KEY_DOWN}")
    case True
    then consider "c = KEY_ENTER" | "c = KEY_BACKSPACE" | "c = KEY_UP" | "c = KEY_DOWN" by blast
    then show ?thesis
    proof cases
      case 1
      then have "handle_enter kc sh ?t = Some (sh', Cmd_returns s')" using h
        unfolding handle_key_def Let_def by (simp only:) (simp add: KEY_ENTER_def KEY_PAGEUP_def KEY_PAGEDOWN_def)
      then show ?thesis using handle_enter_refines[OF assms(1)] 1 by blast
    qed (use h keys in \<open>auto simp: handle_key_def Let_def goes_on_def KEY_ENTER_def KEY_PAGEUP_def KEY_PAGEDOWN_def KEY_BACKSPACE_def KEY_UP_def KEY_DOWN_def\<close>)
  next
    case False
    show ?thesis
    proof (cases "32 \<le> c \<and> c < 127 \<and> input_len sh < 255")
      case True
      then have "sh' = sh\<lparr>input_len := input_len sh + 1, input_buffer := (input_buffer sh)[input_len sh := word_of_int c, input_len sh + 1 := 0]\<rparr>"
        using h False by (auto simp: handle_key_def Let_def KEY_PAGEUP_def KEY_PAGEDOWN_def KSHELL_MAX_INPUT_def)
      then show ?thesis using insert_char_wf[OF assms(1), of "word_of_int c"] char_not_zero True False len by (simp add: edit_def)
    next
      case out: False
      then have "sh' = sh" using h False by (auto simp: handle_key_def Let_def KSHELL_MAX_INPUT_def split: if_splits)
      then show ?thesis using assms(1) False out len by (auto simp: edit_def)
    qed
  qed
next
  assume "c \<noteq> KEY_ENTER \<or> set (take 1 (blank_words (ed_line (editor_of sh)))) \<inter> set cut_commands = {}"
  then show "\<exists>sh' s'. handle_key kc c sh s = Some (sh', Cmd_returns s')" by (rule handle_key_returns[OF assms])
qed

definition witness_shell :: process_state where
  "witness_shell = vfs_state.extend (ext2_state.extend (console_state.extend (witness_console\<lparr>port_in := \<lambda>_ _. 0x60\<rparr>)
       (ext2_state.fields \<lparr>fs_disk = 0, fs_disk_size = 0, fs_sb = 0, fs_gdt = 0, fs_block_size = 1024, fs_inodes_per_group = 8, fs_inode_size = 128, fs_groups_count = 1\<rparr>))
       (vfs_state.fields (\<lambda>_. \<lparr>vf_type = 0, vf_flags = 0, vf_offset = 0, vf_refcount = 0, vf_ops = None, vf_private = Private_null\<rparr>)
         (\<lambda>_. \<lparr>ep_inode_num = 0, ep_inode = 0, ep_size = 0\<rparr>)))
     (process_state.fields
       (\<lambda>_. \<lparr>p_pid = 0, p_name = [], p_state = PROC_EMBRYO, p_pml4_phys = 0, p_brk_start = 0, p_brk = 0, p_kthread = None, p_kernel_stack_top = 0,
         p_user_rip = 0, p_user_rsp = 0, p_user_rflags = 0, p_fs_base = 0, p_gs_base = 0, p_fd_table = [], p_parent = 0, p_children = 0, p_sibling = 0,
         p_exit_code = 0, p_wait_pid = 0, p_pending_signals = 0, p_blocked_signals = 0, p_next = 0\<rparr>) 0 0 1 0 0)"

text \<open>The shell's variables as they are when the kernel starts, after the character \<^verbatim>\<open>h\<close>.\<close>

definition witness_kshell :: kshell where
  "witness_kshell = \<lparr>input_buffer = 0x68 # replicate 255 0, input_len = 1, history = replicate 16 (replicate 256 0), history_count = 0, history_pos = 0,
     history_browse = -1, saved_input = replicate 256 0\<rparr>"

theorem handle_key_edits_witness:
  "\<exists>sh' s'. handle_key \<lparr>kc_font = \<lambda>_. 0, kc_limine = \<lparr>framebuffer_response = None, hhdm_response = None, memmap_response = None, rsdp_response = None, module_response = None\<rparr>,
      kc_local_buf = 0\<rparr> KEY_ENTER witness_kshell witness_shell = Some (sh', Cmd_returns s')
    \<and> ed_line (editor_of sh') = [] \<and> ed_hist (editor_of sh') = [[0x68]]"
proof -
  have "kshell_wf witness_kshell"
    by (simp add: kshell_wf_def witness_kshell_def line_buf_def KSHELL_MAX_INPUT_def KSHELL_HISTORY_SIZE_def cstr_def)
  moreover have "port_in witness_shell = (\<lambda>_ _. 0x60)"
    by (simp add: witness_shell_def vfs_state.defs ext2_state.defs console_state.defs process_state.defs)
  then have "uart_drains witness_shell" by (simp add: uart_drains_def)
  moreover have e: "ed_line (editor_of witness_kshell) = [0x68]" "ed_hist (editor_of witness_kshell) = []"
    by (simp_all add: editor_of_def witness_kshell_def cstr_def)
  moreover have "[0x68] \<notin> set cut_commands" by (simp add: cut_commands_def str_def)
  then have "set (take 1 (blank_words [0x68])) \<inter> set cut_commands = {}" by (simp add: blank_words_def)
  ultimately show ?thesis
    using handle_key_edits[of witness_kshell witness_shell "\<lparr>kc_font = \<lambda>_. 0, kc_limine = \<lparr>framebuffer_response = None, hhdm_response = None, memmap_response = None,
      rsdp_response = None, module_response = None\<rparr>, kc_local_buf = 0\<rparr>" KEY_ENTER] by (fastforce simp: edit_def)
qed


end
