(* ===== verification/Condtest.thy ===== *)
theory Condtest
  imports Sync
begin

text \<open>
  The producer and consumer of the shell's condition variable test, \<^verbatim>\<open>kernel/kshell.c\<close>, running on the locks of \<open>Sync\<close> and
  the scheduler of \<open>Kthread\<close>. Each thread has a place in its code. A step of the current thread runs its code up to the next point where
  another thread can come in: the operations of \<^verbatim>\<open>kernel/sync.c\<close> are split at the \<^verbatim>\<open>preempt_enable\<close> before each \<^verbatim>\<open>kthread_block\<close>.
  Between any two steps the scheduler may do anything that \<open>thread_step\<close> allows.

  The statements that update the buffer are one step, because only the thread that holds the mutex touches these variables (which is part
  of what is proved). A thread that waits in \<^verbatim>\<open>hlt\<close> is still the current one and may here go on early, so the model has more runs
  than the kernel. Counters and indices are never negative and are naturals. Printing is not modelled.
\<close>

section \<open>The threads\<close>

definition BUFFER_SIZE :: nat where "BUFFER_SIZE = 5"

text \<open>
  Where a thread is: at the test of its \<^verbatim>\<open>for\<close> or \<^verbatim>\<open>while\<close> loop; in \<^verbatim>\<open>mutex_lock\<close> before the attempt or before
  \<^verbatim>\<open>kthread_block\<close>; at the test of its waiting loop; in \<^verbatim>\<open>cond_wait\<close> before \<^verbatim>\<open>kthread_block\<close>, before taking the mutex back, or before
  blocking for it; at the update of the buffer; at \<^verbatim>\<open>cond_signal\<close>, \<^verbatim>\<open>mutex_unlock\<close>, \<^verbatim>\<open>kthread_sleep\<close>; at the end.
\<close>

datatype place = Looping | Locking | Lock_blocking | Testing | Wait_blocking | Reacquiring | Reacquire_blocking
  | Updating | Signalling | Unlocking | Sleeping | Ending | Done

text \<open>\<open>item\<close> is the producer's loop variable, \<open>got\<close> the items the consumer has taken, in order; its \<^verbatim>\<open>consumed\<close> is their number.\<close>

record condtest =
  buffer :: "nat list"
  buffer_count :: nat
  buffer_in :: nat
  buffer_out :: nat
  buffer_mutex :: mutex
  buffer_not_empty :: cond
  buffer_not_full :: cond
  producer_done :: bool
  consumer_done :: bool
  producer :: place
  item :: nat
  consumer :: place
  got :: "nat list"

definition cmd_condtest_init :: "condtest \<Rightarrow> condtest" where
  "cmd_condtest_init d = d\<lparr>buffer_count := 0, buffer_in := 0, buffer_out := 0, producer_done := False, consumer_done := False,
     buffer_mutex := mutex_init (buffer_mutex d), buffer_not_empty := cond_init (buffer_not_empty d),
     buffer_not_full := cond_init (buffer_not_full d), producer := Looping, item := 1, consumer := Looping, got := []\<rparr>"

text \<open>The places inside \<^verbatim>\<open>mutex_lock\<close> and \<^verbatim>\<open>cond_wait\<close>, the same for both threads.\<close>

definition lock_step :: "place \<Rightarrow> mutex \<Rightarrow> 'a kthread_state_scheme \<Rightarrow> (place \<times> mutex \<times> 'a kthread_state_scheme) option" where
  "lock_step p m s =
     (case p of
        Locking \<Rightarrow> (case mutex_enter m s of None \<Rightarrow> None | Some (held, m1, s1) \<Rightarrow> Some (if held then Testing else Lock_blocking, m1, s1))
      | Lock_blocking \<Rightarrow> (case kthread_block s of None \<Rightarrow> None | Some (_, s1) \<Rightarrow> Some (Locking, m, s1))
      | Wait_blocking \<Rightarrow> (case kthread_block s of None \<Rightarrow> None | Some (_, s1) \<Rightarrow> Some (Reacquiring, m, s1))
      | Reacquiring \<Rightarrow> (case cond_enter m s of None \<Rightarrow> None | Some (held, m1, s1) \<Rightarrow> Some (if held then Testing else Reacquire_blocking, m1, s1))
      | Reacquire_blocking \<Rightarrow> (case kthread_block s of None \<Rightarrow> None | Some (_, s1) \<Rightarrow> Some (Reacquiring, m, s1))
      | _ \<Rightarrow> None)"

definition produce :: "condtest \<Rightarrow> condtest" where
  "produce d = d\<lparr>buffer := (buffer d)[buffer_in d := item d], buffer_in := (buffer_in d + 1) mod BUFFER_SIZE, buffer_count := buffer_count d + 1\<rparr>"

definition consume :: "condtest \<Rightarrow> condtest" where
  "consume d = d\<lparr>got := got d @ [buffer d ! buffer_out d], buffer_out := (buffer_out d + 1) mod BUFFER_SIZE, buffer_count := buffer_count d - 1\<rparr>"

definition producer_thread :: "condtest \<Rightarrow> 'a kthread_state_scheme \<Rightarrow> (condtest \<times> 'a kthread_state_scheme) option" where
  "producer_thread d s =
     (case producer d of
        Looping \<Rightarrow> Some (d\<lparr>producer := if item d \<le> 10 then Locking else Ending\<rparr>, s)
      | Testing \<Rightarrow>
          if buffer_count d = BUFFER_SIZE
          then case cond_release (buffer_not_full d) (buffer_mutex d) s of None \<Rightarrow> None
            | Some (c, m, s1) \<Rightarrow> Some (d\<lparr>buffer_not_full := c, buffer_mutex := m, producer := Wait_blocking\<rparr>, s1)
          else Some (d\<lparr>producer := Updating\<rparr>, s)
      | Updating \<Rightarrow> Some ((produce d)\<lparr>producer := Signalling\<rparr>, s)
      | Signalling \<Rightarrow> let (c, s1) = cond_signal (buffer_not_empty d) s in Some (d\<lparr>buffer_not_empty := c, producer := Unlocking\<rparr>, s1)
      | Unlocking \<Rightarrow> let (m, s1) = mutex_unlock (buffer_mutex d) s in Some (d\<lparr>buffer_mutex := m, producer := Sleeping\<rparr>, s1)
      | Sleeping \<Rightarrow> (case kthread_sleep 50 s of None \<Rightarrow> None | Some (_, s1) \<Rightarrow> Some (d\<lparr>producer := Looping, item := item d + 1\<rparr>, s1))
      | Ending \<Rightarrow> Some (d\<lparr>producer_done := True, producer := Done\<rparr>, s)
      | Done \<Rightarrow> None
      | p \<Rightarrow> (case lock_step p (buffer_mutex d) s of None \<Rightarrow> None
          | Some (p1, m, s1) \<Rightarrow> Some (d\<lparr>producer := p1, buffer_mutex := m\<rparr>, s1)))"

definition consumer_thread :: "condtest \<Rightarrow> 'a kthread_state_scheme \<Rightarrow> (condtest \<times> 'a kthread_state_scheme) option" where
  "consumer_thread d s =
     (case consumer d of
        Looping \<Rightarrow> Some (d\<lparr>consumer := if length (got d) < 10 then Locking else Ending\<rparr>, s)
      | Testing \<Rightarrow>
          if buffer_count d = 0 \<and> \<not> producer_done d
          then case cond_release (buffer_not_empty d) (buffer_mutex d) s of None \<Rightarrow> None
            | Some (c, m, s1) \<Rightarrow> Some (d\<lparr>buffer_not_empty := c, buffer_mutex := m, consumer := Wait_blocking\<rparr>, s1)
          else Some (d\<lparr>consumer := Updating\<rparr>, s)
      | Updating \<Rightarrow>
          if buffer_count d > 0 then Some ((consume d)\<lparr>consumer := Signalling\<rparr>, s) else Some (d\<lparr>consumer := Unlocking\<rparr>, s)
      | Signalling \<Rightarrow> let (c, s1) = cond_signal (buffer_not_full d) s in Some (d\<lparr>buffer_not_full := c, consumer := Unlocking\<rparr>, s1)
      | Unlocking \<Rightarrow> let (m, s1) = mutex_unlock (buffer_mutex d) s in Some (d\<lparr>buffer_mutex := m, consumer := Sleeping\<rparr>, s1)
      | Sleeping \<Rightarrow> (case kthread_sleep 80 s of None \<Rightarrow> None | Some (_, s1) \<Rightarrow> Some (d\<lparr>consumer := Looping\<rparr>, s1))
      | Ending \<Rightarrow> Some (d\<lparr>consumer_done := True, consumer := Done\<rparr>, s)
      | Done \<Rightarrow> None
      | p \<Rightarrow> (case lock_step p (buffer_mutex d) s of None \<Rightarrow> None
          | Some (p1, m, s1) \<Rightarrow> Some (d\<lparr>consumer := p1, buffer_mutex := m\<rparr>, s1)))"

text \<open>\<open>P\<close> and \<open>C\<close> are the threads that \<^verbatim>\<open>kthread_create\<close> made.\<close>

inductive condtest_step :: "kthread_ptr \<Rightarrow> kthread_ptr \<Rightarrow> condtest \<times> 'a kthread_state_scheme \<Rightarrow> condtest \<times> 'a kthread_state_scheme \<Rightarrow> bool"
  for P C where
  producer: "current_kthread s = Some P \<Longrightarrow> producer_thread d s = Some (d', s') \<Longrightarrow> condtest_step P C (d, s) (d', s')"
| consumer: "current_kthread s = Some C \<Longrightarrow> consumer_thread d s = Some (d', s') \<Longrightarrow> condtest_step P C (d, s) (d', s')"
| other: "thread_step s s' \<Longrightarrow> condtest_step P C (d, s) (d, s')"

text \<open>The test of the loop at the end of \<^verbatim>\<open>cmd_condtest\<close>, after which it reports success.\<close>

definition condtest_success :: "condtest \<Rightarrow> bool" where
  "condtest_success d \<longleftrightarrow> \<not> (\<not> producer_done d \<or> \<not> consumer_done d)"

section \<open>The locks\<close>

lemma enter_locks:
  "mutex_enter m s = Some (held, m1, s1) \<Longrightarrow> held = (mx_locked m = 0) \<and> mx_locked m1 \<noteq> 0"
  "cond_enter m s = Some (held, m1, s1) \<Longrightarrow> held = (mx_locked m = 0) \<and> mx_locked m1 \<noteq> 0"
  by (auto simp: mutex_enter_def cond_enter_def Let_def split: if_splits option.splits prod.splits)

lemma release_unlocks:
  "cond_release c m s = Some (c1, m1, s1) \<Longrightarrow> mx_locked m1 = 0"
  "mutex_unlock m s = (m1, s1) \<Longrightarrow> mx_locked m1 = 0"
  by (auto simp: cond_release_def mutex_unlock_def Let_def split: option.splits prod.splits)

text \<open>The places where a thread holds the mutex.\<close>

definition holding :: "place \<Rightarrow> bool" where
  "holding p \<longleftrightarrow> p \<in> {Testing, Updating, Signalling, Unlocking}"

text \<open>The places in \<^verbatim>\<open>mutex_lock\<close> and \<^verbatim>\<open>cond_wait\<close>, up to the update.\<close>

definition acquiring :: "place \<Rightarrow> bool" where
  "acquiring p \<longleftrightarrow> p \<in> {Locking, Lock_blocking, Testing, Wait_blocking, Reacquiring, Reacquire_blocking, Updating}"

lemma place_simps [simp]:
  "\<not> holding Looping" "\<not> holding Locking" "\<not> holding Lock_blocking" "holding Testing"
  "\<not> holding Wait_blocking" "\<not> holding Reacquiring" "\<not> holding Reacquire_blocking" "holding Updating"
  "holding Signalling" "holding Unlocking" "\<not> holding Sleeping" "\<not> holding Ending" "\<not> holding Done"
  "\<not> acquiring Looping" "acquiring Locking" "acquiring Lock_blocking" "acquiring Testing" "acquiring Wait_blocking"
  "acquiring Reacquiring" "acquiring Reacquire_blocking" "acquiring Updating" "\<not> acquiring Signalling"
  "\<not> acquiring Unlocking" "\<not> acquiring Sleeping" "\<not> acquiring Ending" "\<not> acquiring Done"
  by (simp_all add: holding_def acquiring_def)

lemma lock_step_ok:
  assumes "lock_step p m s = Some (p1, m1, s1)"
  shows "\<not> holding p" "acquiring p" "acquiring p1" "p1 \<noteq> Updating"
    "holding p1 \<longrightarrow> mx_locked m = 0" "mx_locked m1 \<noteq> 0 \<longleftrightarrow> holding p1 \<or> mx_locked m \<noteq> 0"
  using assms unfolding lock_step_def
  by (cases p; auto simp: holding_def acquiring_def dest!: enter_locks split: option.splits prod.splits if_splits)+

section \<open>The invariant\<close>

text \<open>The items in the buffer, oldest first.\<close>

definition queued :: "condtest \<Rightarrow> nat list" where
  "queued d = map (\<lambda>k. buffer d ! ((buffer_out d + k) mod BUFFER_SIZE)) [0..<buffer_count d]"

text \<open>The mutex is locked exactly when one of the threads is at a place where it holds it, and they never both are.\<close>

definition lock_ok :: "condtest \<Rightarrow> bool" where
  "lock_ok d \<longleftrightarrow> (mx_locked (buffer_mutex d) \<noteq> 0 \<longleftrightarrow> holding (producer d) \<or> holding (consumer d))
     \<and> \<not> (holding (producer d) \<and> holding (consumer d))"

text \<open>The next item to be put: the loop variable, or its successor while the producer still has to advance it.\<close>

definition next_item :: "condtest \<Rightarrow> nat" where
  "next_item d = (if producer d \<in> {Signalling, Unlocking, Sleeping} then item d + 1 else item d)"

text \<open>The ring, and what has been put into it.\<close>

definition ring_ok :: "condtest \<Rightarrow> bool" where
  "ring_ok d \<longleftrightarrow> length (buffer d) = BUFFER_SIZE \<and> buffer_count d \<le> BUFFER_SIZE \<and> buffer_out d < BUFFER_SIZE
     \<and> buffer_in d = (buffer_out d + buffer_count d) mod BUFFER_SIZE
     \<and> 1 \<le> item d \<and> got d @ queued d = [1..<next_item d]"

definition places_ok :: "condtest \<Rightarrow> bool" where
  "places_ok d \<longleftrightarrow> (producer d = Updating \<longrightarrow> buffer_count d < BUFFER_SIZE)
     \<and> item d \<le> 11 \<and> (item d = 11 \<longrightarrow> producer d \<in> {Looping, Ending, Done}) \<and> (producer d \<in> {Ending, Done} \<longrightarrow> item d = 11)
     \<and> length (got d) \<le> 10 \<and> (acquiring (consumer d) \<longrightarrow> length (got d) < 10) \<and> (consumer d \<in> {Ending, Done} \<longrightarrow> length (got d) = 10)
     \<and> (producer_done d \<longleftrightarrow> producer d = Done) \<and> (consumer_done d \<longleftrightarrow> consumer d = Done)"

definition condtest_ok :: "condtest \<Rightarrow> bool" where
  "condtest_ok d \<longleftrightarrow> lock_ok d \<and> ring_ok d \<and> places_ok d"

lemma init_ok: "length (buffer d) = BUFFER_SIZE \<Longrightarrow> condtest_ok (cmd_condtest_init d)"
  by (simp add: condtest_ok_def lock_ok_def ring_ok_def places_ok_def holding_def acquiring_def cmd_condtest_init_def mutex_init_def
      queued_def next_item_def BUFFER_SIZE_def)

text \<open>The ring depends on the buffer and the items only.\<close>

lemma ring_ok_frame:
  assumes "ring_ok d" "buffer d' = buffer d" "buffer_count d' = buffer_count d" "buffer_in d' = buffer_in d" "buffer_out d' = buffer_out d"
    "got d' = got d" "1 \<le> item d'" "next_item d' = next_item d"
  shows "ring_ok d'"
  using assms by (simp add: ring_ok_def queued_def)

lemma queued_place: "queued (d\<lparr>producer := p\<rparr>) = queued d" "queued (d\<lparr>consumer := p\<rparr>) = queued d"
  by (simp_all add: queued_def)

lemma queued_produce:
  assumes "ring_ok d" "buffer_count d < BUFFER_SIZE"
  shows "queued (produce d) = queued d @ [item d]"
proof -
  have l: "length (buffer d) = BUFFER_SIZE" "buffer_in d = (buffer_out d + buffer_count d) mod BUFFER_SIZE" "buffer_out d < BUFFER_SIZE"
    using assms by (auto simp: ring_ok_def)
  have "(buffer_out d + buffer_count d) mod BUFFER_SIZE \<noteq> (buffer_out d + k) mod BUFFER_SIZE" if "k < buffer_count d" for k
    using that l(3) assms(2) by (auto simp: BUFFER_SIZE_def mod_if)
  moreover have "(buffer_out d + k) mod BUFFER_SIZE < BUFFER_SIZE" for k by (simp add: BUFFER_SIZE_def)
  ultimately show ?thesis using l(1,2) by (simp add: queued_def produce_def)
qed

lemma queued_consume:
  assumes "ring_ok d" "buffer_count d > 0"
  shows "queued d = buffer d ! buffer_out d # queued (consume d)"
proof -
  obtain n where n: "buffer_count d = Suc n" using assms(2) by (cases "buffer_count d") auto
  have o: "buffer_out d < BUFFER_SIZE" using assms(1) by (simp add: ring_ok_def)
  have "(Suc (buffer_out d) mod BUFFER_SIZE + k) mod BUFFER_SIZE = (buffer_out d + Suc k) mod BUFFER_SIZE" for k
    by (simp add: mod_add_left_eq)
  then show ?thesis using n o by (simp add: queued_def consume_def upt_conv_Cons map_Suc_upt[symmetric] del: upt_Suc)
qed

lemma produce_ok:
  assumes "condtest_ok d" "producer d = Updating"
  shows "condtest_ok ((produce d)\<lparr>producer := Signalling\<rparr>)"
proof -
  have r: "ring_ok d" and c: "buffer_count d < BUFFER_SIZE" using assms by (auto simp: condtest_ok_def places_ok_def)
  have "got d @ queued (produce d) = [1..<item d + 1]"
    using queued_produce[OF r c] r assms(2) by (simp add: ring_ok_def next_item_def flip: append_assoc)
  moreover have "(buffer_in d + 1) mod BUFFER_SIZE = (buffer_out d + (buffer_count d + 1)) mod BUFFER_SIZE"
    using r by (simp add: ring_ok_def mod_Suc_eq)
  ultimately have "ring_ok ((produce d)\<lparr>producer := Signalling\<rparr>)" using r c unfolding ring_ok_def queued_place next_item_def by (simp add: produce_def)
  then show ?thesis using assms by (auto simp: condtest_ok_def lock_ok_def places_ok_def holding_def produce_def)
qed

lemma consume_ok:
  assumes "condtest_ok d" "consumer d = Updating" "buffer_count d > 0"
  shows "condtest_ok ((consume d)\<lparr>consumer := Signalling\<rparr>)"
proof -
  have r: "ring_ok d" using assms(1) by (simp add: condtest_ok_def)
  have "(got d @ [buffer d ! buffer_out d]) @ queued (consume d) = [1..<next_item d]"
    using queued_consume[OF r assms(3)] r by (simp add: ring_ok_def)
  moreover have "buffer_in d = ((buffer_out d + 1) mod BUFFER_SIZE + (buffer_count d - 1)) mod BUFFER_SIZE"
    using r assms(3) by (cases "buffer_count d") (simp_all add: ring_ok_def mod_add_left_eq)
  moreover have "(buffer_out d + 1) mod BUFFER_SIZE < BUFFER_SIZE" by (simp add: BUFFER_SIZE_def)
  moreover have "buffer_count d - 1 \<le> BUFFER_SIZE" using r by (auto simp: ring_ok_def)
  ultimately have "ring_ok ((consume d)\<lparr>consumer := Signalling\<rparr>)" using r unfolding ring_ok_def queued_place by (simp add: consume_def next_item_def)
  moreover have "places_ok ((consume d)\<lparr>consumer := Signalling\<rparr>)"
    using assms by (auto simp: condtest_ok_def places_ok_def acquiring_def consume_def)
  ultimately show ?thesis using assms by (auto simp: condtest_ok_def lock_ok_def holding_def consume_def)
qed

lemmas place_defs = lock_ok_def places_ok_def next_item_def

text \<open>What remains to be shown of a step that leaves the buffer alone.\<close>

lemma condtest_keeps:
  assumes "condtest_ok d" "lock_ok d'" "places_ok d'" "buffer d' = buffer d" "buffer_count d' = buffer_count d" "buffer_in d' = buffer_in d"
    "buffer_out d' = buffer_out d" "got d' = got d" "item d \<le> item d'" "next_item d' = next_item d"
  shows "condtest_ok d'"
proof -
  have "ring_ok d" "1 \<le> item d'" using assms(1,9) by (auto simp: condtest_ok_def ring_ok_def)
  then show ?thesis using assms ring_ok_frame[of d d'] by (simp add: condtest_ok_def)
qed

text \<open>A step inside the lock operations.\<close>

lemma producer_lock_ok:
  assumes "condtest_ok d" "lock_step (producer d) (buffer_mutex d) s = Some (p, m, s')"
  shows "condtest_ok (d\<lparr>producer := p, buffer_mutex := m\<rparr>)"
proof (rule condtest_keeps[OF assms(1)])
  note l = lock_step_ok[OF assms(2)]
  have n: "producer d \<notin> {Looping, Signalling, Unlocking, Sleeping, Ending, Done}" "p \<notin> {Looping, Signalling, Unlocking, Sleeping, Ending, Done}"
    using l(2,3) by (auto simp: acquiring_def)
  show "lock_ok (d\<lparr>producer := p, buffer_mutex := m\<rparr>)" using assms(1) l(1,5,6) by (auto simp: condtest_ok_def lock_ok_def)
  show "places_ok (d\<lparr>producer := p, buffer_mutex := m\<rparr>)" using assms(1) l(4) n by (auto simp: condtest_ok_def places_ok_def)
  show "next_item (d\<lparr>producer := p, buffer_mutex := m\<rparr>) = next_item d" using n by (simp add: next_item_def)
qed simp_all

lemma consumer_lock_ok:
  assumes "condtest_ok d" "lock_step (consumer d) (buffer_mutex d) s = Some (p, m, s')"
  shows "condtest_ok (d\<lparr>consumer := p, buffer_mutex := m\<rparr>)"
proof (rule condtest_keeps[OF assms(1)])
  note l = lock_step_ok[OF assms(2)]
  have n: "consumer d \<notin> {Looping, Signalling, Unlocking, Sleeping, Ending, Done}" "p \<notin> {Looping, Signalling, Unlocking, Sleeping, Ending, Done}"
    using l(2,3) by (auto simp: acquiring_def)
  show "lock_ok (d\<lparr>consumer := p, buffer_mutex := m\<rparr>)" using assms(1) l(1,5,6) by (auto simp: condtest_ok_def lock_ok_def)
  show "places_ok (d\<lparr>consumer := p, buffer_mutex := m\<rparr>)" using assms(1) l(2) n by (auto simp: condtest_ok_def places_ok_def)
qed (simp_all add: next_item_def)

text \<open>What a step of the producer does, by the place it starts from.\<close>

lemma producer_cases:
  assumes "producer_thread d s = Some (d', s')"
  obtains (lock) p m where "lock_step (producer d) (buffer_mutex d) s = Some (p, m, s')" "d' = d\<lparr>producer := p, buffer_mutex := m\<rparr>"
  | (loop) "producer d = Looping" "d' = d\<lparr>producer := if item d \<le> 10 then Locking else Ending\<rparr>"
  | (wait) c m where "producer d = Testing" "d' = d\<lparr>buffer_not_full := c, buffer_mutex := m, producer := Wait_blocking\<rparr>" "mx_locked m = 0"
  | (go) "producer d = Testing" "d' = d\<lparr>producer := Updating\<rparr>" "buffer_count d \<noteq> BUFFER_SIZE"
  | (update) "producer d = Updating" "d' = (produce d)\<lparr>producer := Signalling\<rparr>"
  | (signal) c where "producer d = Signalling" "d' = d\<lparr>buffer_not_empty := c, producer := Unlocking\<rparr>"
  | (unlock) m where "producer d = Unlocking" "d' = d\<lparr>buffer_mutex := m, producer := Sleeping\<rparr>" "mx_locked m = 0"
  | (sleep) "producer d = Sleeping" "d' = d\<lparr>producer := Looping, item := item d + 1\<rparr>"
  | (ends) "producer d = Ending" "d' = d\<lparr>producer_done := True, producer := Done\<rparr>"
proof -
  have locks: thesis if "producer_thread d s = (case lock_step (producer d) (buffer_mutex d) s of None \<Rightarrow> None
      | Some (p, m, s1) \<Rightarrow> Some (d\<lparr>producer := p, buffer_mutex := m\<rparr>, s1))"
  proof (cases "lock_step (producer d) (buffer_mutex d) s")
    case (Some r)
    obtain p m s1 where "r = (p, m, s1)" by (cases r)
    then show thesis using lock[of p m] that assms Some by simp
  qed (use that assms in simp)
  show thesis
  proof (cases "producer d")
    case Looping
    then show thesis using assms by (intro loop) (simp_all add: producer_thread_def)
  next
    case Testing
    show thesis
    proof (cases "buffer_count d = BUFFER_SIZE")
      case True
      obtain c m where "cond_release (buffer_not_full d) (buffer_mutex d) s = Some (c, m, s')"
        "d' = d\<lparr>buffer_not_full := c, buffer_mutex := m, producer := Wait_blocking\<rparr>"
        using assms Testing True by (simp add: producer_thread_def split: option.splits prod.splits)
      then show thesis using wait[OF Testing] release_unlocks(1) by blast
    next
      case False
      then show thesis using assms Testing by (intro go) (auto simp: producer_thread_def)
    qed
  next
    case Updating
    then show thesis using assms by (intro update) (simp_all add: producer_thread_def)
  next
    case Signalling
    then show thesis using assms signal by (auto simp: producer_thread_def split: prod.splits)
  next
    case Unlocking
    obtain m s1 where m: "mutex_unlock (buffer_mutex d) s = (m, s1)" by fastforce
    show thesis using assms Unlocking m by (intro unlock[OF Unlocking _ release_unlocks(2)[OF m]]) (simp add: producer_thread_def)
  next
    case Sleeping
    then show thesis using assms sleep by (auto simp: producer_thread_def split: option.splits)
  next
    case Ending
    then show thesis using assms by (intro ends) (simp_all add: producer_thread_def)
  qed (rule locks; simp add: producer_thread_def lock_step_def)+
qed

lemma producer_thread_ok:
  assumes "condtest_ok d" "producer_thread d s = Some (d', s')"
  shows "condtest_ok d'"
proof -
  have ok: "lock_ok d" "places_ok d" "buffer_count d \<le> BUFFER_SIZE" using assms(1) by (simp_all add: condtest_ok_def ring_ok_def)
  note k = condtest_keeps[OF assms(1), of d']
  from assms(2) show ?thesis
  proof (cases rule: producer_cases)
    case (lock p m)
    then show ?thesis using producer_lock_ok[OF assms(1)] by simp
  next
    case update
    then show ?thesis using produce_ok[OF assms(1)] by simp
  qed (rule k; use ok in \<open>simp add: place_defs\<close>)+
qed

text \<open>What a step of the consumer does, by the place it starts from.\<close>

lemma consumer_cases:
  assumes "consumer_thread d s = Some (d', s')"
  obtains (lock) p m where "lock_step (consumer d) (buffer_mutex d) s = Some (p, m, s')" "d' = d\<lparr>consumer := p, buffer_mutex := m\<rparr>"
  | (loop) "consumer d = Looping" "d' = d\<lparr>consumer := if length (got d) < 10 then Locking else Ending\<rparr>"
  | (wait) c m where "consumer d = Testing" "d' = d\<lparr>buffer_not_empty := c, buffer_mutex := m, consumer := Wait_blocking\<rparr>" "mx_locked m = 0"
  | (go) "consumer d = Testing" "d' = d\<lparr>consumer := Updating\<rparr>"
  | (update) "consumer d = Updating" "buffer_count d > 0" "d' = (consume d)\<lparr>consumer := Signalling\<rparr>"
  | (skip) "consumer d = Updating" "d' = d\<lparr>consumer := Unlocking\<rparr>"
  | (signal) c where "consumer d = Signalling" "d' = d\<lparr>buffer_not_full := c, consumer := Unlocking\<rparr>"
  | (unlock) m where "consumer d = Unlocking" "d' = d\<lparr>buffer_mutex := m, consumer := Sleeping\<rparr>" "mx_locked m = 0"
  | (sleep) "consumer d = Sleeping" "d' = d\<lparr>consumer := Looping\<rparr>"
  | (ends) "consumer d = Ending" "d' = d\<lparr>consumer_done := True, consumer := Done\<rparr>"
proof -
  have locks: thesis if "consumer_thread d s = (case lock_step (consumer d) (buffer_mutex d) s of None \<Rightarrow> None
      | Some (p, m, s1) \<Rightarrow> Some (d\<lparr>consumer := p, buffer_mutex := m\<rparr>, s1))"
  proof (cases "lock_step (consumer d) (buffer_mutex d) s")
    case (Some r)
    obtain p m s1 where "r = (p, m, s1)" by (cases r)
    then show thesis using lock[of p m] that assms Some by simp
  qed (use that assms in simp)
  show thesis
  proof (cases "consumer d")
    case Looping
    then show thesis using assms by (intro loop) (simp_all add: consumer_thread_def)
  next
    case Testing
    show thesis
    proof (cases "buffer_count d = 0 \<and> \<not> producer_done d")
      case True
      obtain c m where "cond_release (buffer_not_empty d) (buffer_mutex d) s = Some (c, m, s')"
        "d' = d\<lparr>buffer_not_empty := c, buffer_mutex := m, consumer := Wait_blocking\<rparr>"
        using assms Testing True by (simp add: consumer_thread_def split: option.splits prod.splits)
      then show thesis using wait[OF Testing] release_unlocks(1) by blast
    next
      case False
      then show thesis using assms Testing by (intro go) (auto simp: consumer_thread_def)
    qed
  next
    case Updating
    then show thesis using assms update skip by (auto simp: consumer_thread_def split: if_splits)
  next
    case Signalling
    then show thesis using assms signal by (auto simp: consumer_thread_def split: prod.splits)
  next
    case Unlocking
    obtain m s1 where m: "mutex_unlock (buffer_mutex d) s = (m, s1)" by fastforce
    show thesis using assms Unlocking m by (intro unlock[OF Unlocking _ release_unlocks(2)[OF m]]) (simp add: consumer_thread_def)
  next
    case Sleeping
    then show thesis using assms sleep by (auto simp: consumer_thread_def split: option.splits)
  next
    case Ending
    then show thesis using assms by (intro ends) (simp_all add: consumer_thread_def)
  qed (rule locks; simp add: consumer_thread_def lock_step_def)+
qed

lemma consumer_thread_ok:
  assumes "condtest_ok d" "consumer_thread d s = Some (d', s')"
  shows "condtest_ok d'"
proof -
  have ok: "lock_ok d" "places_ok d" "buffer_count d \<le> BUFFER_SIZE" using assms(1) by (simp_all add: condtest_ok_def ring_ok_def)
  note k = condtest_keeps[OF assms(1), of d']
  from assms(2) show ?thesis
  proof (cases rule: consumer_cases)
    case (lock p m)
    then show ?thesis using consumer_lock_ok[OF assms(1)] by simp
  next
    case update
    then show ?thesis using consume_ok[OF assms(1)] by simp
  qed (rule k; use ok in \<open>simp add: place_defs\<close>)+
qed

lemma condtest_step_ok: "condtest_step P C x y \<Longrightarrow> condtest_ok (fst x) \<Longrightarrow> condtest_ok (fst y)"
  by (induction rule: condtest_step.induct) (auto dest: producer_thread_ok consumer_thread_ok)

lemma condtest_reach_ok: "(condtest_step P C)\<^sup>*\<^sup>* x y \<Longrightarrow> condtest_ok (fst x) \<Longrightarrow> condtest_ok (fst y)"
  by (induction rule: rtranclp_induct) (auto dest: condtest_step_ok)

section \<open>The test\<close>

text \<open>
  C40. On the locks of the kernel and under every interleaving, the producer and the consumer are never both between acquiring and releasing the
  mutex, and the mutex is locked exactly when one of them is. The buffer never holds more than its five items. The items taken followed by the items
  still in the buffer are 1, 2, 3, \<dots>: they arrive in the order in which they were produced, none lost and none twice. When the test reports
  success all ten have been delivered and the buffer is empty. That the test ends is not claimed.
\<close>

theorem condtest_safe:
  assumes "length (buffer d0) = 5" "(condtest_step P C)\<^sup>*\<^sup>* (cmd_condtest_init d0, s0) (d, s)"
  shows "\<not> (holding (producer d) \<and> holding (consumer d))
    \<and> (mx_locked (buffer_mutex d) \<noteq> 0 \<longleftrightarrow> holding (producer d) \<or> holding (consumer d))
    \<and> buffer_count d \<le> 5 \<and> got d @ queued d = [1..<Suc (length (got d) + buffer_count d)]
    \<and> (condtest_success d \<longrightarrow> got d = [1, 2, 3, 4, 5, 6, 7, 8, 9, 10] \<and> buffer_count d = 0)"
proof -
  have ok: "condtest_ok d" using condtest_reach_ok[OF assms(2)] init_ok assms(1) by (simp add: BUFFER_SIZE_def)
  then have g: "got d @ queued d = [1..<next_item d]" and i: "1 \<le> next_item d" by (simp_all add: condtest_ok_def ring_ok_def next_item_def)
  have "length (got d @ queued d) = length [1..<next_item d]" using g by (rule arg_cong)
  then have n: "next_item d = Suc (length (got d) + buffer_count d)" using i by (simp add: queued_def)
  have "got d = [1, 2, 3, 4, 5, 6, 7, 8, 9, 10] \<and> buffer_count d = 0" if "condtest_success d"
  proof -
    have "next_item d = 11" "length (got d) = 10" using that ok by (auto simp: condtest_success_def condtest_ok_def places_ok_def next_item_def)
    then have c: "buffer_count d = 0" using n by simp
    then have "got d = [1..<11]" using g \<open>next_item d = 11\<close> by (simp add: queued_def)
    also have "\<dots> = [1, 2, 3, 4, 5, 6, 7, 8, 9, 10]" by (simp add: upt_rec)
    finally show ?thesis using c by simp
  qed
  then show ?thesis using ok g n by (auto simp: condtest_ok_def lock_ok_def ring_ok_def BUFFER_SIZE_def)
qed

definition witness_condtest :: condtest where
  "witness_condtest = \<lparr>buffer = [0, 0, 0, 0, 0], buffer_count = 0, buffer_in = 0, buffer_out = 0,
     buffer_mutex = \<lparr>mx_locked = 0, mx_owner = None, mx_wait = (None, None)\<rparr>, buffer_not_empty = (None, None), buffer_not_full = (None, None),
     producer_done = False, consumer_done = False, producer = Looping, item = 0, consumer = Looping, got = []\<rparr>"

lemma producer_first:
  assumes "current_kthread s = Some P" "producer_thread d s = Some (d', s')" "(condtest_step P C)\<^sup>*\<^sup>* (d', s') x"
  shows "(condtest_step P C)\<^sup>*\<^sup>* (d, s) x"
  by (rule converse_rtranclp_into_rtranclp[OF condtest_step.producer[OF assms(1,2)] assms(3)])

text \<open>The producer runs up to its first signal, alone.\<close>

lemma witness_condtest_run:
  "\<exists>d s. (condtest_step Genesis (Kthread 0x1000))\<^sup>*\<^sup>* (cmd_condtest_init witness_condtest, witness_threads) (d, s)
     \<and> buffer_count d = 1 \<and> got d = [] \<and> producer d = Signalling"
proof -
  let ?d = "cmd_condtest_init witness_condtest" and ?s = witness_threads
  note defs = producer_thread_def lock_step_def mutex_enter_def mutex_init_def cmd_condtest_init_def witness_condtest_def BUFFER_SIZE_def
    preempt_disable_def preempt_enable_def produce_def
  obtain d1 where 1: "producer_thread ?d ?s = Some (d1, ?s)" "d1 = ?d\<lparr>producer := Locking\<rparr>" by (simp add: defs)
  obtain d2 s2 where 2: "producer_thread d1 ?s = Some (d2, s2)" "producer d2 = Testing" "buffer_count d2 = 0" "got d2 = []"
    and c: "current_kthread s2 = Some Genesis" by (simp add: 1(2) defs witness_threads_ok(2))
  have 3: "producer_thread d2 s2 = Some (d2\<lparr>producer := Updating\<rparr>, s2)" using 2 by (simp add: defs)
  let ?e = "(produce (d2\<lparr>producer := Updating\<rparr>))\<lparr>producer := Signalling\<rparr>"
  have 4: "producer_thread (d2\<lparr>producer := Updating\<rparr>) s2 = Some (?e, s2)" by (simp add: producer_thread_def)
  have "(condtest_step Genesis (Kthread 0x1000))\<^sup>*\<^sup>* (?d, ?s) (?e, s2)"
    by (rule producer_first[OF witness_threads_ok(2) 1(1)], rule producer_first[OF witness_threads_ok(2) 2(1)], rule producer_first[OF c 3],
        rule producer_first[OF c 4]) simp
  then show ?thesis using 2 by (intro exI[of _ ?e] exI[of _ s2]) (simp add: produce_def)
qed

theorem condtest_safe_witness:
  "\<exists>d s. (condtest_step Genesis (Kthread 0x1000))\<^sup>*\<^sup>* (cmd_condtest_init witness_condtest, witness_threads) (d, s)
     \<and> queued d = [1] \<and> mx_locked (buffer_mutex d) \<noteq> 0"
proof -
  obtain d s where r: "(condtest_step Genesis (Kthread 0x1000))\<^sup>*\<^sup>* (cmd_condtest_init witness_condtest, witness_threads) (d, s)"
    "buffer_count d = 1" "got d = []" "producer d = Signalling" using witness_condtest_run by blast
  have "length (buffer witness_condtest) = 5" by (simp add: witness_condtest_def)
  from condtest_safe[OF this r(1)] show ?thesis using r by (intro exI[of _ d] exI[of _ s]) simp
qed

end
