(* ===== verification/Matrix.thy ===== *)
theory Matrix
  imports Console_Bounds
begin

text \<open>
  The animation of falling characters, \<^verbatim>\<open>demos/matrix.c\<close>: the random numbers, one frame of a column's thread, and starting and stopping.

  The static variables are the record \<open>matrix\<close>; \<open>columns_addr\<close> and \<open>entry\<close> are the addresses of the array \<^verbatim>\<open>columns\<close> and of \<^verbatim>\<open>matrix_column_entry\<close>.
  A frame ends with the time to sleep. A division by zero has no result.
\<close>

section \<open>Random numbers\<close>

definition rng_seed :: "u32 \<Rightarrow> u32" where
  "rng_seed seed = (if seed \<noteq> 0 then seed else 1)"

definition rng_next :: "u32 \<Rightarrow> u32" where
  "rng_next rng = rng * 1664525 + 1013904223"

text \<open>The value and the new state.\<close>

definition rng_range :: "u32 \<Rightarrow> u32 \<Rightarrow> u32 \<Rightarrow> (u32 \<times> u32) option" where
  "rng_range rng lo hi = (if hi - lo + 1 = 0 then None else Some (lo + rng_next rng mod (hi - lo + 1), rng_next rng))"

section \<open>Columns\<close>

definition trail_colors :: "u32 list" where
  "trail_colors = [0xFFFFFF, 0x00FF00, 0x00EE00, 0x00DD00, 0x00CC00, 0x00AA00, 0x008800, 0x006600, 0x004400, 0x003300, 0x002200, 0x001800, 0x001100]"

record matrix_column =
  column :: int
  x_pixel :: int
  speed :: int
  trail_length :: int
  head_y :: int
  screen_height :: int
  rng :: u32

record matrix =
  columns :: "matrix_column list"
  matrix_running :: bool
  num_columns :: int

text \<open>An unsigned value converted to \<^verbatim>\<open>int\<close>.\<close>

definition as_int :: "u32 \<Rightarrow> int" where
  "as_int w = sint w"

definition matrix_column_begin :: "matrix_column \<Rightarrow> matrix_column option" where
  "matrix_column_begin col =
     map_option (\<lambda>(v, r). col\<lparr>head_y := - as_int v, rng := r\<rparr>) (rng_range (rng col) 16 (word_of_int (screen_height col div 2)))"

fun draw_trail :: "(nat \<Rightarrow> u8) \<Rightarrow> matrix_column \<Rightarrow> nat list \<Rightarrow> u32 \<Rightarrow> 'a console_state_scheme \<Rightarrow> (u32 \<times> 'a console_state_scheme) option" where
  "draw_trail font col [] r s = Some (r, s)"
| "draw_trail font col (i # is) r s =
     (let char_y = head_y col - int i * 16 in
      if char_y \<ge> 0 \<and> char_y < screen_height col - 16
      then (case rng_range r 33 126 of None \<Rightarrow> None
            | Some (c, r1) \<Rightarrow>
                draw_trail font col is r1 (console_draw_char font (ucast c) (x_pixel col) char_y
                  (trail_colors ! (if i \<ge> length trail_colors then length trail_colors - 1 else i)) s))
      else draw_trail font col is r s)"

definition matrix_frame :: "(nat \<Rightarrow> u8) \<Rightarrow> matrix_column \<Rightarrow> 'a console_state_scheme \<Rightarrow> (u32 \<times> matrix_column \<times> 'a console_state_scheme) option" where
  "matrix_frame font col s =
     Option.bind (draw_trail font col [0..<nat (trail_length col)] (rng col) s) (\<lambda>(r, s1).
     let max_y = screen_height col;
         erase_y = head_y col - trail_length col * 16;
         s2 = (if erase_y \<ge> 0 \<and> erase_y < max_y then console_fill_rect (x_pixel col) erase_y 8 16 0 s1 else s1);
         col1 = col\<lparr>head_y := head_y col + speed col, rng := r\<rparr>
     in Option.bind (if erase_y > max_y
          then Option.bind (rng_range (rng col1) 16 (word_of_int (max_y div 3))) (\<lambda>(h, r1).
               Option.bind (rng_range r1 8 32) (\<lambda>(sp, r2).
               map_option (\<lambda>(t, r3). col1\<lparr>head_y := - as_int h, speed := as_int sp, trail_length := as_int t, rng := r3\<rparr>) (rng_range r2 8 18)))
          else Some col1) (\<lambda>col2.
        map_option (\<lambda>(delay, r4). (delay, col2\<lparr>rng := r4\<rparr>, s2)) (rng_range (rng col2) 30 50)))"

section \<open>Starting and stopping\<close>

definition init_column :: "u32 \<Rightarrow> int \<Rightarrow> nat \<Rightarrow> matrix_column option" where
  "init_column base_seed height i =
     Option.bind (rng_range (rng_seed (base_seed + of_nat i * 12345)) 8 32) (\<lambda>(sp, r1).
     map_option (\<lambda>(t, r2). \<lparr>column = int i, x_pixel = int i * 8, speed = as_int sp, trail_length = as_int t, head_y = 0, screen_height = height, rng = r2\<rparr>)
       (rng_range r1 8 18))"

fun spawn_columns :: "u64 \<Rightarrow> u64 \<Rightarrow> u64 \<Rightarrow> u32 \<Rightarrow> int \<Rightarrow> nat list \<Rightarrow> matrix \<Rightarrow> 'a console_state_scheme \<Rightarrow> (matrix \<times> 'a console_state_scheme) option" where
  "spawn_columns trampoline entry columns_addr base_seed height [] mx s = Some (mx, s)"
| "spawn_columns trampoline entry columns_addr base_seed height (i # is) mx s =
     Option.bind (init_column base_seed height i) (\<lambda>col.
     Option.bind (kthread_create trampoline ''matrix'' entry (columns_addr + of_nat i * 28) s) (\<lambda>(_, s1).
     spawn_columns trampoline entry columns_addr base_seed height is (mx\<lparr>columns := (columns mx)[i := col]\<rparr>) s1))"

definition matrix_start :: "u64 \<Rightarrow> u64 \<Rightarrow> u64 \<Rightarrow> matrix \<Rightarrow> 'a console_state_scheme \<Rightarrow> (matrix \<times> 'a console_state_scheme) option" where
  "matrix_start trampoline entry columns_addr mx s =
     (if matrix_running mx then Some (mx, s)
      else let (cols, rows) = console_get_dimensions s;
               height = rows * 16;
               n = (if cols > 160 then 160 else cols);
               s1 = console_fill_rect 0 0 (cols * 8) height 0 (console_set_fullscreen True s);
               base_seed = ucast (apic_get_ticks s1)
           in spawn_columns trampoline entry columns_addr base_seed height [0..<nat n] (mx\<lparr>num_columns := n, matrix_running := True\<rparr>) s1)"

text \<open>\<^verbatim>\<open>matrix_stop\<close> up to the switch to another thread, unless the animation does not run, and after its sleep.\<close>

definition matrix_stop_begin :: "matrix \<Rightarrow> 'a console_state_scheme \<Rightarrow> (matrix \<times> (sched_outcome \<times> 'a console_state_scheme) option) option" where
  "matrix_stop_begin mx s = (if \<not> matrix_running mx then None else Some (mx\<lparr>matrix_running := False\<rparr>, kthread_sleep 200 s))"

definition matrix_stop_end :: "'a console_state_scheme \<Rightarrow> 'a console_state_scheme option" where
  "matrix_stop_end s = (let s1 = console_set_fullscreen False s in terminal_clear (Some (terminal_get_active s1)) s1)"

section \<open>Bounds\<close>

lemma rng_range_bounds:
  assumes "lo \<le> hi" "rng_range r lo hi = Some (v, r')"
  shows "lo \<le> v \<and> v \<le> hi"
proof -
  let ?w = "hi - lo + 1" and ?m = "rng_next r mod (hi - lo + 1)"
  have w: "?w \<noteq> 0" "v = lo + ?m" using assms(2) by (auto simp: rng_range_def split: if_splits)
  have "?m < ?w" using w(1) by (simp add: word_mod_less_divisor word_neq_0_conv)
  moreover have "unat ?w = Suc (unat (hi - lo))" using w(1) unatSuc[of "hi - lo"] by (simp add: add.commute)
  ultimately have "unat ?m \<le> unat hi - unat lo" using unat_sub[OF assms(1)] by (simp add: word_less_nat_alt)
  moreover have "unat lo \<le> unat hi" using assms(1) by (simp add: word_le_nat_alt)
  ultimately have "unat lo + unat ?m \<le> unat hi" by linarith
  moreover from this have "unat v = unat lo + unat ?m" using unsigned_less[of hi, where 'a = nat] unfolding w(2) by (subst unat_add_lem[symmetric]) simp
  ultimately show ?thesis by (simp add: word_le_nat_alt)
qed

text \<open>A frame draws inside the framebuffer, and speed and length of the trail stay in their ranges.\<close>

definition column_ok :: "matrix_column \<Rightarrow> bool" where
  "column_ok col \<longleftrightarrow> 0 \<le> x_pixel col \<and> 8 \<le> speed col \<and> speed col \<le> 32 \<and> 8 \<le> trail_length col \<and> trail_length col \<le> 18"

lemma draw_trail_safe:
  "console_ok fb s \<Longrightarrow> draw_trail font col is r s = Some (r', s') \<Longrightarrow> safe fb s s'"
proof (induction font col "is" r s rule: draw_trail.induct)
  case (2 font col i "is" r s)
  show ?case
  proof (cases "head_y col - int i * 16 \<ge> 0 \<and> head_y col - int i * 16 < screen_height col - 16")
    case True
    then obtain c r1 where c: "rng_range r 33 126 = Some (c, r1)" using 2(4) by (auto simp: Let_def split: option.splits)
    show ?thesis using True 2(4) safe_then[OF draw_safe(2)[OF 2(3)] 2(1)[OF refl True c refl]] by (simp add: Let_def c)
  next
    case False
    have "draw_trail font col (i # is) r s = draw_trail font col is r s" by (simp only: draw_trail.simps Let_def False if_False)
    then show ?thesis using 2(4) 2(2)[OF refl False 2(3)] by simp
  qed
qed (simp add: safe_refl)

lemma as_int_range: "lo \<le> v \<Longrightarrow> v \<le> hi \<Longrightarrow> hi < 0x80000000 \<Longrightarrow> uint lo \<le> as_int v \<and> as_int v \<le> uint hi"
proof -
  assume v: "lo \<le> v" "v \<le> hi" "hi < (0x80000000 :: u32)"
  then have u: "uint lo \<le> uint v" "uint v \<le> uint hi" "uint hi < 0x80000000" by (simp_all add: word_le_def word_less_def)
  moreover have "- (2 ^ 31) \<le> uint v" by (rule order_trans[of _ 0]) simp_all
  ultimately have "sint v = uint v" using signed_take_bit_int_eq_self[of 31 "uint v"] by (simp add: sint_uint)
  then show ?thesis using u by (simp add: as_int_def)
qed

lemma matrix_frame_safe:
  assumes "console_ok fb s" "column_ok col" "matrix_frame font col s = Some (delay, col', s')"
  shows "safe fb s s'" "column_ok col'" "30 \<le> delay \<and> delay \<le> 50"
proof -
  obtain r s1 where d: "draw_trail font col [0..<nat (trail_length col)] (rng col) s = Some (r, s1)"
    using assms(3) by (auto simp: matrix_frame_def bind_eq_Some_conv)
  let ?e = "head_y col - trail_length col * 16"
  define s2 where "s2 = (if ?e \<ge> 0 \<and> ?e < screen_height col then console_fill_rect (x_pixel col) ?e 8 16 0 s1 else s1)"
  define col1 where "col1 = col\<lparr>head_y := head_y col + speed col, rng := r\<rparr>"
  obtain col2 r4 where c2: "(if ?e > screen_height col
          then Option.bind (rng_range (rng col1) 16 (word_of_int (screen_height col div 3))) (\<lambda>(h, r1).
               Option.bind (rng_range r1 8 32) (\<lambda>(sp, r2).
               map_option (\<lambda>(t, r3). col1\<lparr>head_y := - as_int h, speed := as_int sp, trail_length := as_int t, rng := r3\<rparr>) (rng_range r2 8 18)))
          else Some col1) = Some col2"
    and r4: "rng_range (rng col2) 30 50 = Some (delay, r4)" "col' = col2\<lparr>rng := r4\<rparr>" "s' = s2"
    using assms(3) unfolding matrix_frame_def d s2_def col1_def by (auto simp: Let_def bind_eq_Some_conv simp del: if_split)
  have a: "safe fb s s1" by (rule draw_trail_safe[OF assms(1) d])
  show "safe fb s s'" unfolding r4(3) s2_def
    by (intro safe_if a safe_then[OF a draw_safe(3)]) (use assms(2) in \<open>auto simp: column_ok_def\<close>)
  show "30 \<le> delay \<and> delay \<le> 50" by (rule rng_range_bounds[OF _ r4(1)]) simp
  have rg: "rng_range q 8 32 = Some (v, q') \<Longrightarrow> 8 \<le> as_int v \<and> as_int v \<le> 32" "rng_range q 8 18 = Some (v, q') \<Longrightarrow> 8 \<le> as_int v \<and> as_int v \<le> 18" for q v q'
    using rng_range_bounds[of 8 32 q v q'] rng_range_bounds[of 8 18 q v q'] as_int_range[of 8 v 32] as_int_range[of 8 v 18] by auto
  have "column_ok col2" using c2 assms(2) by (auto simp: column_ok_def col1_def bind_eq_Some_conv dest!: rg split: if_splits)
  then show "column_ok col'" by (simp add: r4(2) column_ok_def)
qed

end
