(* ===== verification/Spec2Isabelle.thy ===== *)
theory Spec2Isabelle
  imports Heap_Calls Sync_Queue Cow Ext2_Lookup Kshell_Editor Condtest Matrix
begin

text \<open>
  SeedOS is an x86-64 teaching kernel in C. This library models the kernel, file by file, as functions on one machine state and proves
  what its parts promise.

  \<^bold>\<open>The program.\<close> The boot loader enters \<^verbatim>\<open>kmain\<close> (\<^verbatim>\<open>init/main.c\<close>), which brings up the console, the processor's tables, memory, the interrupt
  controllers, the input devices, threads, files and processes in this order and then runs the kernel shell or the first user program. Physical
  pages come from a bitmap allocator (\<^verbatim>\<open>mm/pmm.c\<close>); page tables (\<^verbatim>\<open>mm/vmm.c\<close>) and the kernel heap (\<^verbatim>\<open>mm/heap.c\<close>) take them from there, and
  reference counts (\<^verbatim>\<open>mm/page.c\<close>) let processes share pages copy-on-write. Threads (\<^verbatim>\<open>kernel/kthread.c\<close>), locks (\<^verbatim>\<open>kernel/sync.c\<close>) and
  processes (\<^verbatim>\<open>kernel/process.c\<close>) live on the heap; system calls (\<^verbatim>\<open>arch/x86/kernel/syscall.c\<close>) combine all of them.

  \<^bold>\<open>The state.\<close> Each component adds its static variables and the hardware it drives to a chain of extensible records: \<open>pmm_state\<close>,
  \<open>page_state\<close>, \<open>vmm_state\<close>, \<open>heap_state\<close>, \<open>io_state\<close>, \<open>apic_state\<close>, \<open>kthread_state\<close>, \<open>table_state\<close>, \<open>acpi_state\<close>, \<open>input_state\<close>,
  \<open>console_state\<close>, \<open>ext2_state\<close>, \<open>vfs_state\<close>, \<open>process_state\<close>, \<open>syscall_state\<close>, \<open>boot_state\<close>. An operation is a function on the scheme of the
  record it needs, so that it runs unchanged on every larger state. The statics of the shell and of the matrix demonstration are records
  beside it. A fixed-width integer is a word, so that arithmetic wraps as in C. An \<^verbatim>\<open>int\<close> is an integer, or a natural number where it never is
  negative; where an argument can make it overflow (the console) it wraps at 32 bits. The nesting depth of \<^verbatim>\<open>preempt_disable\<close> and the field
  width of a format are unbounded. Names follow the source.

  \<^bold>\<open>Errors, panics and loops.\<close> An error code is the returned value. A panic, a halt, a trap or a fault that nothing resolves is \<open>None\<close>. A loop
  whose end depends on a device or on an undamaged list is a \<^verbatim>\<open>partial_function\<close> and \<open>None\<close> if it does not end; no model uses fuel. Where a
  property says that such an operation returns, its hypotheses (a well-formed list, a device that becomes ready) are stated and termination is
  proved: for the range checks of user pointers, the heap's search, the scheduler, the lookup in a directory, the wait queues and the output of the
  shell. Other loops are recursive functions with a termination proof.

  \<^bold>\<open>The theories.\<close>
  \<^item> \<open>Prelude\<close>: words, byte memory with little-endian access, byte loops, the shared lemmas.
  \<^item> \<open>Pmm\<close> (\<^verbatim>\<open>mm/pmm.c\<close>): the allocator and its contract, the locale \<open>page_allocator\<close>; initialisation, allocation, release, and runs without
    double allocation. \<open>pmm_free_zero_counts_unallocatable\<close> shows that releasing page 0 counts a page that is never handed out.
  \<^item> \<open>Page\<close> (\<^verbatim>\<open>mm/page.c\<close>): reference counts and the lifetime of a shared page.
  \<^item> \<open>Vmm\<close>, \<open>Vmm_Tables\<close>, \<open>Vmm_Map\<close>, \<open>Vmm_Space\<close> (\<^verbatim>\<open>mm/vmm.c\<close>): the operations; page tables as a tree in which no table occurs twice; mapping and unmapping change
    one translation and a failed mapping gives everything back; the checks of user ranges; creating, releasing and copying address spaces.
    \<open>vmm_free_releases_shared_page\<close> shows that the release ignores reference counts.
  \<^item> \<open>Heap\<close>, \<open>Heap_List\<close>, \<open>Heap_Blocks\<close>, \<open>Heap_Store\<close>, \<open>Heap_Calls\<close> (\<^verbatim>\<open>mm/heap.c\<close>): the first-fit allocator on bytes; the free list and the sequence
    of blocks read out of memory; the contract of an object store (locale \<open>object_store\<close>), discharged for \<^verbatim>\<open>kmalloc\<close> and \<^verbatim>\<open>kfree\<close>; runs of calls as a map from
    addresses to byte strings; coalescing on release. The properties are about requests of 9 bytes or more that do not wrap around (\<open>heap_ready\<close>);
    \<open>kmalloc_small_misread\<close> shows why smaller ones are left out.
  \<^item> \<open>Io\<close>: ports, device registers, model-specific registers, the interrupt flag, as a log and arbitrary answers of the devices.
  \<^item> \<open>Kthread\<close>, \<open>Kthread_Sched\<close> (\<^verbatim>\<open>kernel/kthread.c\<close>, \<^verbatim>\<open>kthread_switch.S\<close>): round-robin scheduling with the wait for an interrupt when
    nothing is ready, bounded waiting, one running thread in every sequence of steps, and the context switch as the identity on what a thread can see.
  \<^item> \<open>Sync\<close>, \<open>Sync_Queue\<close> (\<^verbatim>\<open>kernel/sync.c\<close>): locks and condition variables; the wait queue as a queue under every interleaving of additions and
    removals (locale \<open>fifo_queue\<close>), mutual exclusion, waking.
    \<open>mutex_lost_wakeup\<close> exhibits the interleaving in which a waiting thread misses the unlock.
  \<^item> \<open>Descriptors\<close> (\<^verbatim>\<open>gdt.c\<close>, \<^verbatim>\<open>idt.c\<close>, \<^verbatim>\<open>percpu.c\<close>), \<open>Acpi\<close> (\<^verbatim>\<open>acpi.c\<close>, \<^verbatim>\<open>ioapic.c\<close>), \<open>Interrupt\<close> (\<^verbatim>\<open>apic.c\<close>, \<^verbatim>\<open>idt.c\<close>): the tables and that installed
    gates read back as interrupt gates of ring 0, discovery of the controllers, timer, page faults and dispatch.
  \<^item> \<open>Cow\<close>: from the copy of an address space to the write fault: which page becomes writable, which is copied, and what happens to the reference counts, with the
    case in which two processes end up writing to one frame.
  \<^item> \<open>Keyboard\<close>, \<open>Keyboard_Queue\<close> (\<^verbatim>\<open>keyboard.c\<close>, \<^verbatim>\<open>serial.c\<close>): the input drivers; their ring buffer as a bounded queue (locale \<open>bounded_queue\<close>).
  \<^item> \<open>Console\<close>, \<open>Console_Bounds\<close> (\<^verbatim>\<open>console.c\<close>, \<^verbatim>\<open>terminal.c\<close>, \<^verbatim>\<open>logo.c\<close>): output; no pixel outside the framebuffer and no index outside the scrollback ring,
    for callers that pass no negative coordinates to the functions that do not check them (\<open>op_ok\<close>); three lemmas show what happens otherwise.
  \<^item> \<open>Kprintf\<close> (\<^verbatim>\<open>kernel/kprintf.c\<close>): formatted output; printed numbers read back.
  \<^item> \<open>Ext2\<close>, \<open>Ext2_Read\<close>, \<open>Ext2_Lookup\<close> (\<^verbatim>\<open>fs/ext2.c\<close>): the file system; reading a file against a byte-wise reference; the search of a directory, which
    finds the entry, and does not end on a damaged one.
  \<^item> \<open>Vfs\<close> (\<^verbatim>\<open>fs/vfs.c\<close>, \<^verbatim>\<open>tty_dev.c\<close>), \<open>Process\<close> (\<^verbatim>\<open>kernel/process.c\<close>), \<open>Elf\<close> (\<^verbatim>\<open>kernel/elf.c\<close>), \<open>Syscall\<close>, \<open>Syscall_Proc\<close>
    (\<^verbatim>\<open>syscall.c\<close>, \<^verbatim>\<open>syscall_entry.S\<close>), \<open>Boot\<close> (\<^verbatim>\<open>limine.c\<close>, \<^verbatim>\<open>fpu.c\<close>, \<^verbatim>\<open>sysinfo.c\<close>, \<^verbatim>\<open>kinit.c\<close>, \<^verbatim>\<open>usermode.S\<close>, \<^verbatim>\<open>main.c\<close>): the models of files, processes,
    the loader, the system calls and the start of the kernel, composed from the components above.
  \<^item> \<open>Kshell\<close>, \<open>Kshell_Editor\<close> (\<^verbatim>\<open>kernel/kshell.c\<close>): the shell; its command line yields the words of the line, and its keys act on its buffers as on an abstract editor with a
    history of sixteen lines. The model of the four commands that run threads ends where they start to wait for them.
  \<^item> \<open>Condtest\<close>: the producer and consumer of the shell's test as threads that run on the locks of \<open>Sync\<close> and the scheduler of \<open>Kthread\<close>; every interleaving keeps
    them out of each other's critical section and delivers the items in order. That the test ends is not proved: \<open>mutex_lost_wakeup\<close> shows how it can hang.
  \<^item> \<open>Matrix\<close> (\<^verbatim>\<open>demos/matrix.c\<close>): the frames of the animation stay on the screen.

  \<^bold>\<open>Parameters.\<close> Addresses that the linker chooses, the font, the answers of devices and of the boot loader, and what interrupt handlers do while the kernel waits in
  \<^verbatim>\<open>hlt\<close> are arguments or fields of the state.

  \<^bold>\<open>Not modelled.\<close> Log messages. The instruction sequences of \<^verbatim>\<open>isr.S\<close>, \<^verbatim>\<open>boot.S\<close> and \<^verbatim>\<open>gdt_asm.S\<close>, which save registers and load tables around modelled
  functions. The linker script, the build scripts and the programs under \<^verbatim>\<open>userspace\<close>, which run on the kernel. A context switch ends the model of the
  function that makes it, so the waiting loops of the shell's thread tests are cut there, and preemption in the middle of an operation is modelled only where the
  operation is a step of a step relation (locks, scheduler, \<open>Condtest\<close>). Caches, the translation lookaside buffer and the ordering of memory accesses between
  processors: the kernel runs on one processor.
\<close>

end
